(* ===== verification/Prelude.thy ===== *)
theory Prelude
  imports Main "HOL-Library.Word"
begin

text \<open>
  Shared vocabulary of the development: the machine-integer types the sources use, the errors a
  C++ operation can raise, the state-and-exception programs the member functions are translated to
  together with a weakest-precondition calculus for them, and generic facts about lists, finite
  sets and words that several components need.
\<close>

section \<open>Machine integers and identifiers\<close>

type_synonym byte = "8 word"
type_synonym u16 = "16 word"
type_synonym u32 = "32 word"
type_synonym u64 = "64 word"

text \<open>C++ \<open>int\<close> values that travel through a byte stream are kept as their 32-bit pattern and
  read with \<^const>\<open>sint\<close>.\<close>

type_synonym i32 = "32 word"
type_synonym u256 = "256 word"

type_synonym replica_id = u16

section \<open>Errors\<close>

text \<open>
  One constructor per exception the modelled code throws. \<open>UndefinedBehaviour\<close> stands for the
  operations C++ leaves undefined (dereferencing a null pointer or an end iterator, indexing a
  vector out of range); \<open>AssertFailed\<close> for a failed \<open>assert\<close>; \<open>OutOfFuel\<close> is only used by loops
  that the model bounds and is proved unreachable where it matters.
\<close>

datatype err =
    InsufficientBuffer        \<comment> \<open>\<open>std::ios_base::failure("insufficient buffer")\<close>\<close>
  | NotHexString              \<comment> \<open>\<open>"not a valid hex string"\<close>\<close>
  | IncorrectBlobSize         \<comment> \<open>\<open>"incorrect Blob size"\<close>\<close>
  | IllFormed                 \<comment> \<open>\<open>"ill-formed public key / private key / signature"\<close>\<close>
  | BadMsgLength              \<comment> \<open>\<open>"the message should be 32-bytes"\<close>\<close>
  | SignFailed                \<comment> \<open>\<open>"failed to create secp256k1 signature"\<close>\<close>
  | PartCertMismatch          \<comment> \<open>\<open>"PartCert does match the block hash"\<close>\<close>
  | PayloadNotAvailable       \<comment> \<open>\<open>"payload not available"\<close>\<close>
  | BlockNotDelivered         \<comment> \<open>\<open>"block not delivered"\<close>\<close>
  | QcBlockNotFetched         \<comment> \<open>\<open>"block referred by qc not fetched"\<close>\<close>
  | SafetyBreached            \<comment> \<open>\<open>"safety breached :("\<close>\<close>
  | EmptyParents              \<comment> \<open>\<open>"empty parents"\<close>\<close>
  | NotHigherThanVheight      \<comment> \<open>\<open>"new block should be higher than vheight"\<close>\<close>
  | OutOfRange                \<comment> \<open>\<open>std::out_of_range\<close> of \<open>unordered_map::at\<close>\<close>
  | InvalidArgument
  | PromiseMismatch           \<comment> \<open>\<open>"mismatching promise value types"\<close> of \<open>promise::all\<close>\<close>
  | PeerNotMatch              \<comment> \<open>\<open>SALTI_ERROR_PEER_NOT_MATCH\<close> and the following errors of \<open>PeerNetwork\<close>\<close>
  | PeerNotExist
  | PeerAlreadyExists
  | PeerNotReady
  | ConnNotReady
  | RandSource
  | ClientNotExist            \<comment> \<open>\<open>SALTI_ERROR_CLIENT_NOT_EXIST\<close> of \<open>ClientNetwork\<close>\<close>
  | OptValUndefined           \<comment> \<open>\<open>"undefined OptVal behavior"\<close> and the following errors of \<open>Config\<close>\<close>
  | OptValInvalid
  | OptNameExists
  | ConfigLineTooLong
  | NetAddrInvalid            \<comment> \<open>\<open>SALTI_ERROR_NETADDR_INVALID\<close>\<close>
  | InvalidReplicaInfo        \<comment> \<open>\<open>"invalid replica info"\<close> and the following errors of the application\<close>
  | ReplicaIdxRange
  | ClientPortNotSpecified
  | AssertFailed
  | UndefinedBehaviour
  | OutOfFuel

section \<open>Programs: state, exceptions and their weakest preconditions\<close>

text \<open>
  A member function is translated to a function from the object state to its result or exception
  and the state it leaves behind. The state of an exceptional outcome is kept, because the
  assignments made before a C++ \<open>throw\<close> persist.
\<close>

type_synonym ('s, 'a) prog = "'s \<Rightarrow> (err + 'a) \<times> 's"

definition ret :: "'a \<Rightarrow> ('s, 'a) prog" where
  "ret a = (\<lambda>s. (Inr a, s))"

definition throw :: "err \<Rightarrow> ('s, 'a) prog" where
  "throw e = (\<lambda>s. (Inl e, s))"

definition gets :: "('s \<Rightarrow> 'a) \<Rightarrow> ('s, 'a) prog" where
  "gets f = (\<lambda>s. (Inr (f s), s))"

definition modify :: "('s \<Rightarrow> 's) \<Rightarrow> ('s, unit) prog" where
  "modify f = (\<lambda>s. (Inr (), f s))"

definition bindp :: "('s, 'a) prog \<Rightarrow> ('a \<Rightarrow> ('s, 'b) prog) \<Rightarrow> ('s, 'b) prog" where
  "bindp m f = (\<lambda>s. case m s of (Inl e, t) \<Rightarrow> (Inl e, t) | (Inr a, t) \<Rightarrow> f a t)"

definition seqp :: "('s, 'a) prog \<Rightarrow> ('s, 'b) prog \<Rightarrow> ('s, 'b) prog" where
  "seqp m n = bindp m (\<lambda>_. n)"

definition whenp :: "bool \<Rightarrow> ('s, unit) prog \<Rightarrow> ('s, unit) prog" where
  "whenp c m = (if c then m else ret ())"

text \<open>A range-based \<open>for\<close> loop runs its body on the elements in order; an exception leaves the
  loop.\<close>

fun forp :: "'a list \<Rightarrow> ('a \<Rightarrow> ('s, unit) prog) \<Rightarrow> ('s, unit) prog" where
  "forp [] f = ret ()"
| "forp (x # xs) f = seqp (f x) (forp xs f)"

fun mapp :: "('a \<Rightarrow> ('s, 'b) prog) \<Rightarrow> 'a list \<Rightarrow> ('s, 'b list) prog" where
  "mapp f [] = ret []"
| "mapp f (x # xs) = bindp (f x) (\<lambda>y. bindp (mapp f xs) (\<lambda>ys. ret (y # ys)))"

fun replicatep :: "nat \<Rightarrow> ('s, 'a) prog \<Rightarrow> ('s, 'a list) prog" where
  "replicatep 0 m = ret []"
| "replicatep (Suc n) m = bindp m (\<lambda>y. bindp (replicatep n m) (\<lambda>ys. ret (y # ys)))"

text \<open>Pure fallible computations, and their use inside a program.\<close>

definition ebind :: "err + 'a \<Rightarrow> ('a \<Rightarrow> err + 'b) \<Rightarrow> err + 'b" where
  "ebind x f = (case x of Inl e \<Rightarrow> Inl e | Inr a \<Rightarrow> f a)"

definition lift :: "err + 'a \<Rightarrow> ('s, 'a) prog" where
  "lift x = (\<lambda>s. (x, s))"

lemma ebind_simps [simp]: "ebind (Inl e) f = Inl e" "ebind (Inr a) f = f a"
  by (simp_all add: ebind_def)

lemma ebind_eq_Inr: "ebind x f = Inr b \<longleftrightarrow> (\<exists>a. x = Inr a \<and> f a = Inr b)"
  by (cases x) simp_all

lemmas prog_defs = ret_def throw_def gets_def modify_def bindp_def seqp_def whenp_def

lemma bindp_assoc: "bindp (bindp m f) g = bindp m (\<lambda>a. bindp (f a) g)"
  by (auto simp: bindp_def fun_eq_iff split: prod.splits sum.splits)

lemma seqp_assoc: "seqp (seqp m n) k = seqp m (seqp n k)"
  by (simp add: seqp_def bindp_assoc)

lemma ret_bindp [simp]: "bindp (ret a) f = f a"
  by (simp add: bindp_def ret_def)

lemma throw_bindp [simp]: "bindp (throw e) f = throw e"
  by (simp add: bindp_def throw_def)

lemma lift_bindp [simp]: "bindp (lift (Inr a)) f = f a" "bindp (lift (Inl e)) f = throw e"
  by (simp_all add: bindp_def lift_def throw_def)

text \<open>
  \<open>wp m Q E s\<close>: run from \<open>s\<close>, program \<open>m\<close> either returns with \<open>Q\<close> on the result and the final
  state, or raises with \<open>E\<close> on the error and the final state.
\<close>

definition wp :: "('s, 'a) prog \<Rightarrow> ('a \<Rightarrow> 's \<Rightarrow> bool) \<Rightarrow> (err \<Rightarrow> 's \<Rightarrow> bool) \<Rightarrow> 's \<Rightarrow> bool" where
  "wp m Q E s = (case m s of (Inl e, t) \<Rightarrow> E e t | (Inr a, t) \<Rightarrow> Q a t)"

named_theorems wp_simps "weakest preconditions of the program combinators"

lemma wp_ret [wp_simps]: "wp (ret a) Q E s = Q a s"
  by (simp add: wp_def ret_def)

lemma wp_throw [wp_simps]: "wp (throw e) Q E s = E e s"
  by (simp add: wp_def throw_def)

lemma wp_gets [wp_simps]: "wp (gets f) Q E s = Q (f s) s"
  by (simp add: wp_def gets_def)

lemma wp_modify [wp_simps]: "wp (modify f) Q E s = Q () (f s)"
  by (simp add: wp_def modify_def)

lemma wp_bindp [wp_simps]: "wp (bindp m f) Q E s = wp m (\<lambda>a. wp (f a) Q E) E s"
  by (auto simp: wp_def bindp_def split: prod.splits sum.splits)

lemma wp_seqp [wp_simps]: "wp (seqp m n) Q E s = wp m (\<lambda>_. wp n Q E) E s"
  by (simp add: seqp_def wp_bindp)

lemma wp_whenp [wp_simps]: "wp (whenp c m) Q E s = (if c then wp m Q E s else Q () s)"
  by (simp add: whenp_def wp_ret)

lemma wp_lift [wp_simps]: "wp (lift x) Q E s = (case x of Inl e \<Rightarrow> E e s | Inr a \<Rightarrow> Q a s)"
  by (simp add: wp_def lift_def split: sum.split)

lemma wp_if [wp_simps]: "wp (if c then m else n) Q E s = (if c then wp m Q E s else wp n Q E s)"
  by simp

lemma wp_case_option [wp_simps]:
  "wp (case x of None \<Rightarrow> m | Some y \<Rightarrow> f y) Q E s =
   (case x of None \<Rightarrow> wp m Q E s | Some y \<Rightarrow> wp (f y) Q E s)"
  by (simp split: option.split)

lemma bindp_eq_Inr: "bindp m f s = (Inr b, t) \<longleftrightarrow> (\<exists>a u. m s = (Inr a, u) \<and> f a u = (Inr b, t))"
  by (auto simp: bindp_def split: prod.splits sum.splits)

lemma wp_mono:
  assumes "wp m Q E s" and "\<And>a t. Q a t \<Longrightarrow> Q' a t" and "\<And>e t. E e t \<Longrightarrow> E' e t"
  shows "wp m Q' E' s"
  using assms by (auto simp: wp_def split: prod.splits sum.splits)

lemma wp_conj: "wp m Q E s \<Longrightarrow> wp m Q' E' s \<Longrightarrow>
    wp m (\<lambda>a t. Q a t \<and> Q' a t) (\<lambda>e t. E e t \<and> E' e t) s"
  by (auto simp: wp_def split: prod.splits sum.splits)

lemma wp_result: "wp m (\<lambda>a t. P t) (\<lambda>e t. P t) s \<longleftrightarrow> P (snd (m s))"
  by (auto simp: wp_def split: prod.splits sum.splits)

text \<open>The loop rule: an invariant every iteration keeps, also when it raises.\<close>

lemma wp_forp:
  assumes "\<And>x t. x \<in> set xs \<Longrightarrow> I t \<Longrightarrow> wp (f x) (\<lambda>_. I) E t"
    and "I s" and "\<And>t. I t \<Longrightarrow> Q () t"
  shows "wp (forp xs f) Q E s"
  using assms
proof (induction xs arbitrary: s)
  case Nil
  then show ?case by (simp add: wp_ret)
next
  case (Cons x xs)
  have "wp (f x) (\<lambda>_. I) E s" using Cons.prems by simp
  then have "wp (f x) (\<lambda>_. wp (forp xs f) Q E) E s"
  proof (rule wp_mono)
    fix t assume "I t"
    then show "wp (forp xs f) Q E t"
      using Cons.prems by (intro Cons.IH) auto
  qed
  then show ?case by (simp add: wp_simps)
qed

section \<open>Operations that need not end\<close>

text \<open>An operation with a loop that need not end on every input: no value means that it does not return. Such
  loops are defined with \<open>partial_function (option)\<close>.\<close>

type_synonym 'a outcome = "(err + 'a) option"

definition obind :: "'a outcome \<Rightarrow> ('a \<Rightarrow> 'b outcome) \<Rightarrow> 'b outcome" where
  "obind x f = (case x of None \<Rightarrow> None | Some (Inl e) \<Rightarrow> Some (Inl e) | Some (Inr a) \<Rightarrow> f a)"

lemma obind_simps [simp]: "obind None f = None" "obind (Some (Inl e)) f = Some (Inl e)" "obind (Some (Inr a)) f = f a"
  by (simp_all add: obind_def)

lemma obind_bind: "obind x h = Option.bind x (case_sum (\<lambda>e. Some (Inl e)) h)"
  by (auto simp: obind_def split: option.splits sum.splits)

lemma obind_mono [partial_function_mono]:
  assumes "monotone (fun_ord option_ord) option_ord m" and "\<And>y. monotone (fun_ord option_ord) option_ord (\<lambda>f. g y f)"
  shows "monotone (fun_ord option_ord) option_ord (\<lambda>f. obind (m f) (\<lambda>y. g y f))"
  unfolding obind_bind
  by (intro bind_mono assms(1)) (use assms(2) in \<open>auto simp: monotone_def option.leq_refl split: sum.splits\<close>)

section \<open>Lists, sets and words\<close>

lemma last_in_hd_closed:
  assumes "xs \<noteq> []"
  shows "last xs \<in> set xs"
  using assms by simp

lemma card_inter_quorums:
  assumes "finite U" and "A \<subseteq> U" and "B \<subseteq> U"
    and "card U + k < card A + card B"
  shows "k < card (A \<inter> B)"
proof -
  have fin: "finite A" "finite B" using assms(1-3) finite_subset by auto
  have "card A + card B = card (A \<union> B) + card (A \<inter> B)"
    by (rule card_Un_Int [OF fin])
  moreover have "card (A \<union> B) \<le> card U"
    using assms(1-3) by (intro card_mono) auto
  ultimately show ?thesis using assms(4) by linarith
qed

lemma card_inter_avoid:
  assumes "finite U" and "A \<subseteq> U" and "B \<subseteq> U" and "F \<subseteq> U"
    and "card U + card F < card A + card B"
  shows "\<exists>x. x \<in> A \<and> x \<in> B \<and> x \<notin> F"
proof (rule ccontr)
  assume "\<not> ?thesis"
  then have "A \<inter> B \<subseteq> F" by blast
  moreover have "finite F" using assms(1,4) finite_subset by blast
  ultimately have "card (A \<inter> B) \<le> card F" by (rule card_mono [rotated])
  moreover have "card F < card (A \<inter> B)"
    using assms(1,2,3,5) by (rule card_inter_quorums)
  ultimately show False by simp
qed

lemma unat_succ32: "(h :: u32) \<noteq> - 1 \<Longrightarrow> unat (h + 1) = Suc (unat h)"
proof -
  assume "h \<noteq> - 1"
  then have "1 + h \<noteq> 0" by (metis add_eq_0_iff)
  then show ?thesis by (simp add: unatSuc add.commute)
qed

end
