(* ===== verification/Data_Stream.thy ===== *)
theory Data_Stream
  imports Prelude
begin

unbundle bit_operations_syntax

text \<open>
  The byte stream \<open>DataStream\<close> of \<^verbatim>\<open>salticidae/include/salticidae/stream.h\<close>: a growing buffer with
  a read offset. Integers are written in host byte order by \<open>operator<<\<close>; the model fixes a
  little-endian host, on which \<open>htole\<close> and \<open>letoh\<close> are the identity. Buffer lengths and offsets
  are naturals: every length that is added to an offset is a 32-bit count or a constant, so the
  64-bit sum does not wrap for a buffer that fits in memory. The relation \<open>reads\<close> (a reader
  consumes exactly these bytes and returns this value) carries all round trips of the message
  formats.
\<close>

section \<open>Little-endian integers\<close>

definition to_le :: "nat \<Rightarrow> 'a::len word \<Rightarrow> byte list" where
  "to_le n w = map (\<lambda>i. ucast (drop_bit (8 * i) w)) [0..<n]"

fun from_le :: "byte list \<Rightarrow> 'a::len word" where
  "from_le [] = 0"
| "from_le (b # bs) = ucast b OR push_bit 8 (from_le bs)"

lemma length_to_le [simp]: "length (to_le n w) = n"
  by (simp add: to_le_def)

lemma to_le_0 [simp]: "to_le 0 w = []"
  by (simp add: to_le_def)

lemma to_le_Suc: "to_le (Suc n) w = ucast w # to_le n (drop_bit 8 w)"
proof -
  have "[0..<Suc n] = 0 # map Suc [0..<n]"
    by (simp only: upt_conv_Cons zero_less_Suc map_Suc_upt)
  then show ?thesis
    by (simp add: to_le_def add.commute del: upt_Suc)
qed

lemma bit_from_le:
  "bit (from_le bs :: 'a::len word) i \<longleftrightarrow>
     i < LENGTH('a) \<and> i div 8 < length bs \<and> bit (bs ! (i div 8)) (i mod 8)"
proof (induction bs arbitrary: i)
  case Nil
  then show ?case by simp
next
  case (Cons b bs)
  show ?case
  proof (cases "i < 8")
    case True
    then show ?thesis
      by (auto simp: bit_or_iff bit_push_bit_iff bit_ucast_iff dest: bit_imp_le_length)
  next
    case False
    then obtain j where j: "i = 8 + j" using le_Suc_ex by (metis not_less)
    have nb: "\<not> bit b i" using False bit_imp_le_length by fastforce
    have d: "(8 + j) div 8 = Suc (j div 8)" by simp
    show ?thesis
      using j nb by (simp add: bit_or_iff bit_push_bit_iff bit_ucast_iff Cons.IH d) auto
  qed
qed

text \<open>Writing an integer and reading the bytes back gives the integer.\<close>

lemma from_le_to_le:
  assumes "LENGTH('a::len) \<le> 8 * n"
  shows "from_le (to_le n w) = (w :: 'a word)"
proof (rule bit_eqI)
  fix i assume "possible_bit TYPE('a word) i"
  then have i: "i < LENGTH('a)" by simp
  then have d: "i div 8 < n" using assms by linarith
  have "bit (from_le (to_le n w) :: 'a word) i = bit (to_le n w ! (i div 8)) (i mod 8)"
    using i d by (simp add: bit_from_le)
  also have "\<dots> = bit w (8 * (i div 8) + i mod 8)"
    using d by (auto simp: to_le_def bit_ucast_iff bit_drop_bit_eq)
  finally show "bit (from_le (to_le n w) :: 'a word) i = bit w i" by simp
qed

lemma to_le_from_le:
  assumes "length bs = n" and "8 * n \<le> LENGTH('a::len)"
  shows "to_le n (from_le bs :: 'a word) = bs"
proof (rule nth_equalityI)
  show "length (to_le n (from_le bs :: 'a word)) = length bs" using assms by simp
next
  fix i assume "i < length (to_le n (from_le bs :: 'a word))"
  then have i: "i < n" by simp
  show "to_le n (from_le bs :: 'a word) ! i = bs ! i"
  proof (rule bit_eqI)
    fix j assume "possible_bit TYPE(8 word) j"
    then have j: "j < 8" by simp
    have *: "8 * i + j < LENGTH('a)" using i j assms(2) by linarith
    show "bit (to_le n (from_le bs :: 'a word) ! i) j = bit (bs ! i) j"
      using i j * assms(1)
      by (simp add: to_le_def bit_ucast_iff bit_drop_bit_eq bit_from_le)
  qed
qed

lemma to_le_inject:
  assumes "LENGTH('a::len) \<le> 8 * n" and "to_le n v = to_le n (w :: 'a word)"
  shows "v = w"
  using assms by (metis from_le_to_le)

section \<open>DataStream\<close>

record data_stream =
  buffer :: "byte list"
  offset :: nat

definition ds_new :: data_stream where
  "ds_new = \<lparr>buffer = [], offset = 0\<rparr>"

definition ds_of_bytes :: "byte list \<Rightarrow> data_stream" where
  "ds_of_bytes bs = \<lparr>buffer = bs, offset = 0\<rparr>"

definition ds_clear :: "data_stream \<Rightarrow> data_stream" where
  "ds_clear s = s\<lparr>buffer := [], offset := 0\<rparr>"

text \<open>The subtraction is on \<open>size_t\<close>: it wraps when a failed \<open>get_data_inplace\<close> left the offset
  beyond the end.\<close>

definition ds_size :: "data_stream \<Rightarrow> nat" where
  "ds_size s = nat ((int (length (buffer s)) - int (offset s)) mod 2 ^ 64)"

definition ds_bytes :: "data_stream \<Rightarrow> byte list" where
  "ds_bytes s = drop (offset s) (buffer s)"

definition put_data :: "byte list \<Rightarrow> data_stream \<Rightarrow> data_stream" where
  "put_data d s = s\<lparr>buffer := buffer s @ d\<rparr>"

definition put_int :: "nat \<Rightarrow> 'a::len word \<Rightarrow> data_stream \<Rightarrow> data_stream" where
  "put_int n w s = s\<lparr>buffer := buffer s @ to_le n w\<rparr>"

definition get_data_inplace :: "nat \<Rightarrow> (data_stream, byte list) prog" where
  "get_data_inplace len = (\<lambda>s.
     let s' = s\<lparr>offset := offset s + len\<rparr>
     in if offset s' > length (buffer s') then (Inl InsufficientBuffer, s')
        else (Inr (take len (drop (offset s) (buffer s))), s'))"

definition get_int :: "nat \<Rightarrow> (data_stream, 'a::len word) prog" where
  "get_int n = (\<lambda>s.
     if offset s + n > length (buffer s) then (Inl InsufficientBuffer, s)
     else (Inr (from_le (take n (drop (offset s) (buffer s)))), s\<lparr>offset := offset s + n\<rparr>))"

text \<open>Serialisers are functions on the bytes appended; \<open>s << x\<close> appends them.\<close>

lemma put_int_put_data: "put_int n w = put_data (to_le n w)"
  by (simp add: put_int_def put_data_def fun_eq_iff)

lemma put_data_append: "put_data b (put_data a s) = put_data (a @ b) s"
  by (simp add: put_data_def)

text \<open>
  A reader that consumes exactly the bytes \<open>bs\<close> and returns \<open>x\<close>, whatever follows them. All round
  trips of the message formats are instances of this relation.
\<close>

definition reads :: "(data_stream, 'a) prog \<Rightarrow> byte list \<Rightarrow> 'a \<Rightarrow> bool" where
  "reads p bs x \<longleftrightarrow> (\<forall>s rest. ds_bytes s = bs @ rest \<longrightarrow> offset s \<le> length (buffer s) \<longrightarrow>
     p s = (Inr x, s\<lparr>offset := offset s + length bs\<rparr>))"

named_theorems reads_intros "composition of exact readers"

lemma ds_bytes_length: "ds_bytes s = bs @ rest \<Longrightarrow> offset s \<le> length (buffer s) \<Longrightarrow>
    offset s + length bs \<le> length (buffer s)"
proof -
  assume b: "ds_bytes s = bs @ rest" and o: "offset s \<le> length (buffer s)"
  have "length (buffer s) - offset s = length bs + length rest"
    using arg_cong [OF b, of length] by (simp add: ds_bytes_def)
  then show ?thesis using o by linarith
qed

lemma ds_bytes_advance: "ds_bytes s = bs @ rest \<Longrightarrow>
    ds_bytes (s\<lparr>offset := offset s + length bs\<rparr>) = rest"
proof -
  assume "ds_bytes s = bs @ rest"
  then have "drop (length bs) (drop (offset s) (buffer s)) = rest"
    by (simp add: ds_bytes_def)
  then show ?thesis by (simp add: ds_bytes_def add.commute)
qed

lemma reads_bindp [reads_intros]:
  assumes "reads p bs x" and "reads (f x) cs y"
  shows "reads (bindp p f) (bs @ cs) y"
proof (unfold reads_def, intro allI impI)
  fix s rest
  assume b: "ds_bytes s = (bs @ cs) @ rest" and o: "offset s \<le> length (buffer s)"
  let ?t = "s\<lparr>offset := offset s + length bs\<rparr>"
  have b': "ds_bytes s = bs @ (cs @ rest)" using b by simp
  have p: "p s = (Inr x, ?t)" using assms(1) b' o by (simp add: reads_def)
  have t: "ds_bytes ?t = cs @ rest" by (rule ds_bytes_advance [OF b'])
  have ot: "offset ?t \<le> length (buffer ?t)" using ds_bytes_length [OF b' o] by simp
  have "f x ?t = (Inr y, ?t\<lparr>offset := offset ?t + length cs\<rparr>)"
    using assms(2) t ot unfolding reads_def by blast
  then show "bindp p f s = (Inr y, s\<lparr>offset := offset s + length (bs @ cs)\<rparr>)"
    using p by (simp add: bindp_def add.assoc)
qed

lemma reads_ret [reads_intros]: "reads (ret x) [] x"
  by (simp add: reads_def ret_def)

lemma reads_get_int [reads_intros]:
  "LENGTH('a::len) \<le> 8 * n \<Longrightarrow> reads (get_int n) (to_le n w) (w :: 'a word)"
  by (auto simp: reads_def get_int_def from_le_to_le ds_bytes_def dest: ds_bytes_length
      [unfolded ds_bytes_def, of _ "to_le n w"])

lemma reads_get_data: "reads (get_data_inplace (length bs)) bs bs"
  by (auto simp: reads_def get_data_inplace_def ds_bytes_def Let_def dest: ds_bytes_length
      [unfolded ds_bytes_def, of _ bs])

lemma reads_replicatep:
  assumes "\<And>x. x \<in> set xs \<Longrightarrow> reads p (enc x) x"
  shows "reads (replicatep (length xs) p) (concat (map enc xs)) xs"
  using assms
proof (induction xs)
  case Nil
  then show ?case by (simp add: reads_ret)
next
  case (Cons x xs)
  have tail: "reads (bindp (replicatep (length xs) p) (\<lambda>ys. ret (x # ys)))
      (concat (map enc xs) @ []) (x # xs)"
    by (rule reads_bindp [OF Cons.IH reads_ret]) (use Cons.prems in simp)
  have "reads (replicatep (length (x # xs)) p) (enc x @ concat (map enc xs) @ []) (x # xs)"
    unfolding length_Cons replicatep.simps
    by (rule reads_bindp) (use Cons.prems tail in simp_all)
  then show ?case by simp
qed

text \<open>What a reader does on a stream written by the matching serialiser.\<close>

lemma reads_written:
  assumes "reads p bs x"
  shows "p (put_data bs ds_new) = (Inr x, \<lparr>buffer = bs, offset = length bs\<rparr>)"
proof -
  have "p (put_data bs ds_new) =
      (Inr x, (put_data bs ds_new)\<lparr>offset := offset (put_data bs ds_new) + length bs\<rparr>)"
    using assms unfolding reads_def
    by (metis append_Nil2 append_Nil drop_0 ds_bytes_def ds_new_def le0
        data_stream.select_convs data_stream.update_convs put_data_def)
  then show ?thesis by (simp add: put_data_def ds_new_def)
qed

lemma reads_final: "reads p bs x \<Longrightarrow> y = f x \<Longrightarrow> reads (bindp p (\<lambda>x. ret (f x))) bs y"
  using reads_bindp [OF _ reads_ret, of p bs x] by simp

text \<open>
  The contract of a message format: reading what was written gives the message back, whatever
  follows. Injectivity, prefix-freeness and the parsing of concatenated messages follow.
\<close>

locale wire_format =
  fixes ok :: "'a \<Rightarrow> bool"
    and ser :: "'a \<Rightarrow> byte list"
    and parse :: "(data_stream, 'a) prog"
  assumes parse_ser: "ok x \<Longrightarrow> reads parse (ser x) x"
begin

lemma parse_written: "ok x \<Longrightarrow> parse (put_data (ser x) ds_new) = (Inr x, \<lparr>buffer = ser x, offset = length (ser x)\<rparr>)"
  by (rule reads_written [OF parse_ser])

lemma ser_inject: "ok x \<Longrightarrow> ok y \<Longrightarrow> ser x = ser y \<Longrightarrow> x = y"
  by (metis parse_written Pair_inject sum.inject(2))

lemma ser_prefix_free:
  assumes "ok x" and "ok y" and "ser x @ rest = ser y @ rest'"
  shows "x = y \<and> rest = rest'"
proof -
  have x: "ds_bytes (ds_of_bytes (ser x @ rest)) = ser x @ rest" "ds_bytes (ds_of_bytes (ser x @ rest)) = ser y @ rest'"
    using assms(3) by (simp_all add: ds_bytes_def ds_of_bytes_def)
  have o: "offset (ds_of_bytes (ser x @ rest)) \<le> length (buffer (ds_of_bytes (ser x @ rest)))"
    by (simp add: ds_of_bytes_def)
  have "x = y"
    using parse_ser [OF assms(1)] parse_ser [OF assms(2)] x o unfolding reads_def
    by (metis Pair_inject sum.inject(2))
  then show ?thesis using assms(3) by simp
qed

lemma parse_many:
  assumes "\<And>x. x \<in> set xs \<Longrightarrow> ok x"
  shows "reads (replicatep (length xs) parse) (concat (map ser xs)) xs"
  using assms parse_ser by (intro reads_replicatep) blast

end

end
