(* ===== verification/Blob_Bits.thy ===== *)
theory Blob_Bits
  imports Data_Stream
begin

unbundle bit_operations_syntax

text \<open>
  \<open>Blob<256, uint64_t>\<close> and \<open>_Bits<uint64_t>\<close> of \<^verbatim>\<open>salticidae/stream.h\<close>. A blob is an array of
  four 64-bit words and a flag; the rest of the development uses its value as a \<^typ>\<open>u256\<close>. A bit
  array is a heap array of 64-bit words (\<^const>\<open>None\<close> for the null pointer of the default
  constructor) with a 32-bit bit count. The interface locale \<open>bit_array\<close> states what certificates
  rely on; it is interpreted on the shift-and-xor code below.
\<close>

section \<open>Blob\<close>

record blob =
  blob_data :: "u64 list"
  loaded :: bool

definition blob_wf :: "blob \<Rightarrow> bool" where
  "blob_wf b \<longleftrightarrow> length (blob_data b) = 4"

definition blob_new :: blob where
  "blob_new = \<lparr>blob_data = replicate 4 0, loaded = False\<rparr>"

text \<open>\<open>load\<close>: each word is read from its last byte to its first by \<open>x = (x << 8) | byte\<close>.\<close>

definition load_word :: "byte list \<Rightarrow> u64" where
  "load_word chunk = fold (\<lambda>b x. push_bit 8 x OR ucast b) (rev chunk) 0"

definition blob_load :: "byte list \<Rightarrow> blob" where
  "blob_load arr = \<lparr>blob_data = map (\<lambda>i. load_word (take 8 (drop (8 * i) arr))) [0..<4], loaded = True\<rparr>"

definition blob_of_bytearray :: "byte list \<Rightarrow> err + blob" where
  "blob_of_bytearray arr = (if length arr \<noteq> 32 then Inl IncorrectBlobSize else Inr (blob_load arr))"

definition blob_is_null :: "blob \<Rightarrow> bool" where
  "blob_is_null b = (\<not> loaded b)"

definition blob_eq :: "blob \<Rightarrow> blob \<Rightarrow> bool" where
  "blob_eq a b = list_all (\<lambda>i. blob_data a ! i = blob_data b ! i) [0..<4]"

text \<open>\<open>operator<\<close> compares from the most significant word down to word 0.\<close>

fun blob_less_from :: "u64 list \<Rightarrow> u64 list \<Rightarrow> nat \<Rightarrow> bool" where
  "blob_less_from xs ys 0 = (xs ! 0 < ys ! 0)"
| "blob_less_from xs ys (Suc i) =
     (if xs ! Suc i \<noteq> ys ! Suc i then xs ! Suc i < ys ! Suc i else blob_less_from xs ys i)"

definition blob_less :: "blob \<Rightarrow> blob \<Rightarrow> bool" where
  "blob_less a b = blob_less_from (blob_data a) (blob_data b) 3"

definition cheap_hash :: "blob \<Rightarrow> u64" where
  "cheap_hash b = blob_data b ! 0"

definition blob_serialize :: "blob \<Rightarrow> byte list" where
  "blob_serialize b =
     (if loaded b then concat (map (to_le 8) (blob_data b))
      else concat (map (to_le 8) (map (\<lambda>_. 0 :: u64) (blob_data b))))"

definition blob_unserialize :: "(data_stream, blob) prog" where
  "blob_unserialize =
     bindp (replicatep 4 (get_int 8)) (\<lambda>ws. ret \<lparr>blob_data = ws, loaded = True\<rparr>)"

subsection \<open>Properties of blobs\<close>

text \<open>The value a blob denotes: word \<open>i\<close> holds bits \<open>64 i\<close> to \<open>64 i + 63\<close>.\<close>

fun words_val :: "u64 list \<Rightarrow> nat" where
  "words_val [] = 0"
| "words_val (w # ws) = unat w + 2 ^ 64 * words_val ws"

definition blob_val :: "blob \<Rightarrow> nat" where
  "blob_val b = words_val (blob_data b)"

lemma load_word_from_le: "load_word chunk = from_le chunk"
  unfolding load_word_def
  by (induction chunk) (simp_all add: or.commute)

lemma upt4: "[0..<4] = [0, 1, 2, 3 :: nat]"
  by (simp add: upt_rec)

lemma blob_data_cases:
  assumes "blob_wf b"
  obtains w0 w1 w2 w3 where "blob_data b = [w0, w1, w2, w3]"
proof -
  have "length (blob_data b) = Suc (Suc (Suc (Suc 0)))" using assms by (simp add: blob_wf_def)
  then show ?thesis using that by (auto simp: length_Suc_conv)
qed

lemma lex_val_less:
  fixes a b x y :: nat
  assumes "a < 2 ^ 64" and "b < 2 ^ 64"
  shows "a + 2 ^ 64 * x < b + 2 ^ 64 * y \<longleftrightarrow> x < y \<or> (x = y \<and> a < b)"
  using assms by auto

lemma lex_val_eq:
  fixes a b x y :: nat
  assumes "a < 2 ^ 64" and "b < 2 ^ 64"
  shows "a + 2 ^ 64 * x = b + 2 ^ 64 * y \<longleftrightarrow> x = y \<and> a = b"
proof
  assume eq: "a + 2 ^ 64 * x = b + 2 ^ 64 * y"
  have "(a + 2 ^ 64 * x) mod 2 ^ 64 = (b + 2 ^ 64 * y) mod 2 ^ 64" by (simp only: eq)
  then have "a = b" using assms by (simp only: mod_mult_self2 mod_less)
  then show "x = y \<and> a = b" using eq by simp
qed simp

lemma unat_lt64: "unat (w :: u64) < 2 ^ 64"
  using unsigned_less [of w] by simp

lemma blob_less_val:
  assumes "blob_wf a" and "blob_wf b"
  shows "blob_less a b \<longleftrightarrow> blob_val a < blob_val b"
proof -
  obtain a0 a1 a2 a3 where a: "blob_data a = [a0, a1, a2, a3]" by (rule blob_data_cases [OF assms(1)])
  obtain b0 b1 b2 b3 where b: "blob_data b = [b0, b1, b2, b3]" by (rule blob_data_cases [OF assms(2)])
  have "blob_less a b \<longleftrightarrow> (if a3 \<noteq> b3 then a3 < b3 else if a2 \<noteq> b2 then a2 < b2
      else if a1 \<noteq> b1 then a1 < b1 else a0 < b0)"
    by (simp add: blob_less_def a b numeral_3_eq_3)
  moreover have "blob_val a < blob_val b \<longleftrightarrow> (unat a3 < unat b3 \<or> unat a3 = unat b3 \<and>
      (unat a2 < unat b2 \<or> unat a2 = unat b2 \<and> (unat a1 < unat b1 \<or> unat a1 = unat b1 \<and> unat a0 < unat b0)))"
    unfolding blob_val_def a b words_val.simps
    by (simp only: add_0_right mult_0_right lex_val_less [OF unat_lt64 unat_lt64]
        lex_val_eq [OF unat_lt64 unat_lt64]) auto
  ultimately show ?thesis
    by (auto simp: word_less_nat_alt word_unat_eq_iff)
qed

lemma blob_eq_data: "blob_wf a \<Longrightarrow> blob_wf b \<Longrightarrow> blob_eq a b \<longleftrightarrow> blob_data a = blob_data b"
  by (auto simp: blob_eq_def blob_wf_def list_eq_iff_nth_eq list_all_iff)

lemma blob_load_wf [simp]: "blob_wf (blob_load arr)"
  by (simp add: blob_wf_def blob_load_def)

lemma length_blob_serialize: "blob_wf b \<Longrightarrow> length (blob_serialize b) = 32"
  by (erule blob_data_cases) (simp add: blob_serialize_def)

lemma concat_chunks: "concat (map (\<lambda>i. take k (drop (k * i) xs)) [0..<n]) = take (k * n) xs"
proof (induction n)
  case (Suc n)
  have "take (k * Suc n) xs = take (k * n) xs @ take k (drop (k * n) xs)"
    using take_add [of "k * n" k xs] by (simp add: add.commute)
  then show ?case using Suc by simp
qed simp

lemma blob_unserialize_reads:
  assumes "blob_wf b" and "loaded b"
  shows "reads blob_unserialize (blob_serialize b) b"
proof -
  have l: "length (blob_data b) = 4" using assms(1) by (simp add: blob_wf_def)
  have "reads (replicatep (length (blob_data b)) (get_int 8)) (concat (map (to_le 8) (blob_data b))) (blob_data b)"
    by (rule reads_replicatep) (rule reads_get_int, simp)
  then have "reads blob_unserialize (concat (map (to_le 8) (blob_data b)) @ []) \<lparr>blob_data = blob_data b, loaded = True\<rparr>"
    unfolding blob_unserialize_def l by (rule reads_bindp) (rule reads_ret)
  then show ?thesis using assms by (cases b) (simp add: blob_serialize_def)
qed

text \<open>Loading an array and serialising it again gives the bytes back.\<close>

lemma blob_serialize_load: "length arr = 32 \<Longrightarrow> blob_serialize (blob_load arr) = arr"
proof -
  assume arr: "length arr = 32"
  have "map (to_le 8) (blob_data (blob_load arr)) = map (\<lambda>i. take 8 (drop (8 * i) arr)) [0..<4]"
    by (auto simp: blob_load_def load_word_from_le to_le_from_le arr intro!: map_cong)
  then show ?thesis
    using arr by (simp add: blob_serialize_def blob_load_def concat_chunks del: map_map)
qed

section \<open>Bit arrays\<close>

record bits =
  bits_data :: "u64 list option"
  nbits :: u32
  ndata :: u32

text \<open>The word count is computed in 32-bit arithmetic, as the source does.\<close>

definition bits_words :: "u32 \<Rightarrow> u32" where
  "bits_words n = (n + 63) div 64"

text \<open>The sizing constructor leaves the array uninitialised: \<open>junk\<close> is what the memory held.\<close>

definition bits_new :: "(nat \<Rightarrow> u64) \<Rightarrow> u32 \<Rightarrow> bits" where
  "bits_new junk n = \<lparr>bits_data = Some (map junk [0..<unat (bits_words n)]), nbits = n, ndata = bits_words n\<rparr>"

definition bits_clear :: "bits \<Rightarrow> err + bits" where
  "bits_clear b = (case bits_data b of
      None \<Rightarrow> Inl UndefinedBehaviour
    | Some d \<Rightarrow> Inr (b\<lparr>bits_data := Some (map (\<lambda>_. 0) d)\<rparr>))"

definition bits_get :: "bits \<Rightarrow> u32 \<Rightarrow> err + u64" where
  "bits_get b idx = (case bits_data b of
      None \<Rightarrow> Inl UndefinedBehaviour
    | Some d \<Rightarrow>
        (let i = unat (drop_bit 6 idx); pos = unat (idx AND 63)
         in if i < length d then Inr (drop_bit pos (d ! i) AND 1) else Inl UndefinedBehaviour))"

definition bits_upd :: "(u64 \<Rightarrow> nat \<Rightarrow> u64) \<Rightarrow> bits \<Rightarrow> u32 \<Rightarrow> err + bits" where
  "bits_upd f b idx = (case bits_data b of
      None \<Rightarrow> Inl UndefinedBehaviour
    | Some d \<Rightarrow>
        (let i = unat (drop_bit 6 idx); pos = unat (idx AND 63)
         in if i < length d then Inr (b\<lparr>bits_data := Some (d[i := d ! i XOR f (d ! i) pos])\<rparr>)
            else Inl UndefinedBehaviour))"

definition bits_set :: "bits \<Rightarrow> u32 \<Rightarrow> err + bits" where
  "bits_set = bits_upd (\<lambda>x pos. push_bit pos ((drop_bit pos x AND 1) XOR 1))"

definition bits_unset :: "bits \<Rightarrow> u32 \<Rightarrow> err + bits" where
  "bits_unset = bits_upd (\<lambda>x pos. push_bit pos (drop_bit pos x AND 1))"

definition bits_flip :: "bits \<Rightarrow> u32 \<Rightarrow> err + bits" where
  "bits_flip = bits_upd (\<lambda>x pos. push_bit pos 1)"

definition bits_size :: "bits \<Rightarrow> u32" where
  "bits_size b = nbits b"

definition bits_serialize :: "bits \<Rightarrow> byte list" where
  "bits_serialize b = to_le 4 (nbits b) @
     (case bits_data b of
        Some d \<Rightarrow> concat (map (to_le 8) d)
      | None \<Rightarrow> concat (map (to_le 8) (replicate (unat (ndata b)) (0 :: u64))))"

definition bits_unserialize :: "(data_stream, bits) prog" where
  "bits_unserialize =
     bindp (get_int 4) (\<lambda>n.
     bindp (replicatep (unat (bits_words n)) (get_int 8)) (\<lambda>d.
     ret \<lparr>bits_data = Some d, nbits = n, ndata = bits_words n\<rparr>))"

text \<open>
  \<open>load\<close> assembles each 64-bit word with \<open>x |= *(arr++) << k\<close> for \<open>k = 0, 8, \<dots>, 56\<close>. The byte is
  promoted to the 32-bit type \<open>int\<close> before the shift, so a shift by 32 or more is undefined, and a
  byte with its top bit set shifted by 24 is sign-extended into the 64-bit word.
\<close>

fun load_le_word :: "nat \<Rightarrow> byte list \<Rightarrow> u64 \<Rightarrow> err + u64" where
  "load_le_word k [] x = Inr x"
| "load_le_word k (b # bs) x =
     (if 32 \<le> k then Inl UndefinedBehaviour
      else load_le_word (k + 8) bs (x OR scast (push_bit k (ucast b :: 32 word))))"

fun load_le_words :: "nat \<Rightarrow> byte list \<Rightarrow> err + u64 list" where
  "load_le_words 0 arr = Inr []"
| "load_le_words (Suc n) arr =
     (case load_le_word 0 (take 8 arr) 0 of Inl e \<Rightarrow> Inl e
      | Inr w \<Rightarrow> (case load_le_words n (drop 8 arr) of Inl e \<Rightarrow> Inl e | Inr ws \<Rightarrow> Inr (w # ws)))"

definition bits_load :: "byte list \<Rightarrow> err + bits" where
  "bits_load arr =
     (let n = of_nat (length arr) * 8
      in case load_le_words (unat (bits_words n)) arr of
           Inl e \<Rightarrow> Inl e
         | Inr d \<Rightarrow> Inr \<lparr>bits_data = Some d, nbits = n, ndata = bits_words n\<rparr>)"

subsection \<open>The interface certificates rely on\<close>

locale bit_array =
  fixes invar :: "'b \<Rightarrow> bool"
    and cap :: "'b \<Rightarrow> nat"
    and members :: "'b \<Rightarrow> nat set"
    and get :: "'b \<Rightarrow> u32 \<Rightarrow> err + u64"
    and put :: "'b \<Rightarrow> u32 \<Rightarrow> err + 'b"
    and drp :: "'b \<Rightarrow> u32 \<Rightarrow> err + 'b"
  assumes get_member: "invar b \<Longrightarrow> unat i < cap b \<Longrightarrow> get b i = Inr (if unat i \<in> members b then 1 else 0)"
    and put_member: "invar b \<Longrightarrow> unat i < cap b \<Longrightarrow> put b i = Inr b' \<Longrightarrow>
          invar b' \<and> cap b' = cap b \<and> members b' = insert (unat i) (members b)"
    and drp_member: "invar b \<Longrightarrow> unat i < cap b \<Longrightarrow> drp b i = Inr b' \<Longrightarrow>
          invar b' \<and> cap b' = cap b \<and> members b' = members b - {unat i}"
    and put_total: "invar b \<Longrightarrow> unat i < cap b \<Longrightarrow> \<exists>b'. put b i = Inr b'"
    and drp_total: "invar b \<Longrightarrow> unat i < cap b \<Longrightarrow> \<exists>b'. drp b i = Inr b'"
    and get_out_of_range: "invar b \<Longrightarrow> cap b \<le> unat i \<Longrightarrow> get b i = Inl UndefinedBehaviour"
    and put_out_of_range: "invar b \<Longrightarrow> cap b \<le> unat i \<Longrightarrow> put b i = Inl UndefinedBehaviour"
begin

lemma get_put:
  assumes "invar b" and "unat i < cap b" and "unat j < cap b" and "put b i = Inr b'"
  shows "get b' j = (if j = i then Inr 1 else get b j)"
proof -
  have "invar b' \<and> cap b' = cap b \<and> members b' = insert (unat i) (members b)"
    using assms by (intro put_member)
  then show ?thesis using assms by (auto simp: get_member word_unat_eq_iff)
qed

lemma get_drp:
  assumes "invar b" and "unat i < cap b" and "unat j < cap b" and "drp b i = Inr b'"
  shows "get b' j = (if j = i then Inr 0 else get b j)"
proof -
  have "invar b' \<and> cap b' = cap b \<and> members b' = members b - {unat i}"
    using assms by (intro drp_member)
  then show ?thesis using assms by (auto simp: get_member word_unat_eq_iff)
qed

lemma put_in_range: "invar b \<Longrightarrow> put b i = Inr b' \<Longrightarrow> unat i < cap b"
  by (metis Inl_Inr_False linorder_not_le put_out_of_range)

end

subsection \<open>The shift-and-xor code provides it\<close>

definition bits_wf :: "bits \<Rightarrow> bool" where
  "bits_wf b \<longleftrightarrow> (\<exists>d. bits_data b = Some d \<and> length d = unat (ndata b)) \<and> ndata b = bits_words (nbits b)"

definition bits_cap :: "bits \<Rightarrow> nat" where
  "bits_cap b = 64 * unat (ndata b)"

definition bits_members :: "bits \<Rightarrow> nat set" where
  "bits_members b = (case bits_data b of None \<Rightarrow> {}
     | Some d \<Rightarrow> {k. k < 64 * length d \<and> bit (d ! (k div 64)) (k mod 64)})"

lemma unat_index: "unat (drop_bit 6 (i :: u32)) = unat i div 64"
  by (simp add: drop_bit_eq_div unat_div)

lemma unat_pos: "unat ((i :: u32) AND 63) = unat i mod 64"
proof -
  have "i AND 63 = i AND mask 6" by (simp add: mask_eq_exp_minus_1)
  also have "\<dots> = i mod 64" by (simp only: take_bit_eq_mask [symmetric] take_bit_eq_mod) simp
  finally show ?thesis by (simp add: unat_mod)
qed

lemma word_low_bit: "drop_bit pos (x :: u64) AND 1 = (if bit x pos then 1 else 0)"
  by (simp add: and_one_eq mod2_eq_if bit_iff_odd_drop_bit)

lemma set_word_bit:
  assumes "pos < 64"
  shows "bit ((x :: u64) XOR push_bit pos ((drop_bit pos x AND 1) XOR 1)) k \<longleftrightarrow> k = pos \<or> bit x k"
  using assms
  by (auto simp: bit_simps)

lemma unset_word_bit:
  assumes "pos < 64"
  shows "bit ((x :: u64) XOR push_bit pos (drop_bit pos x AND 1)) k \<longleftrightarrow> k \<noteq> pos \<and> bit x k"
  using assms
  by (auto simp: bit_simps)

lemma div_mod_64_eq: "k div 64 = unat (i :: u32) div 64 \<and> k mod 64 = unat i mod 64 \<longleftrightarrow> k = unat i"
  by (metis div_mult_mod_eq)

lemma bits_upd_members:
  assumes "bits_wf b" and "unat i < bits_cap b" and "bits_upd f b i = Inr b'"
    and f: "\<And>x k. k < 64 \<Longrightarrow>
      bit (x XOR f x (unat i mod 64)) k \<longleftrightarrow> (if k = unat i mod 64 then P else bit x k)"
  shows "bits_wf b' \<and> bits_cap b' = bits_cap b \<and>
    bits_members b' = (if P then insert (unat i) (bits_members b) else bits_members b - {unat i})"
proof -
  obtain d where d: "bits_data b = Some d" "length d = unat (ndata b)"
    using assms(1) by (auto simp: bits_wf_def)
  have i: "unat i div 64 < length d" using assms(2) d by (simp add: bits_cap_def)
  define x where "x = d ! (unat i div 64) XOR f (d ! (unat i div 64)) (unat i mod 64)"
  have b': "b' = b\<lparr>bits_data := Some (d[unat i div 64 := x])\<rparr>"
    using assms(3) d i by (simp add: bits_upd_def unat_index unat_pos Let_def x_def)
  have x: "bit x k \<longleftrightarrow> (if k = unat i mod 64 then P else bit (d ! (unat i div 64)) k)" if "k < 64" for k
    using f [OF that] by (simp add: x_def)
  have mem': "k \<in> bits_members b' \<longleftrightarrow> k < 64 * length d \<and> bit (d[unat i div 64 := x] ! (k div 64)) (k mod 64)" for k
    by (simp add: b' bits_members_def)
  have mem: "k \<in> bits_members b \<longleftrightarrow> k < 64 * length d \<and> bit (d ! (k div 64)) (k mod 64)" for k
    by (simp add: d bits_members_def)
  have key: "k \<in> bits_members b' \<longleftrightarrow> (if k = unat i then P else k \<in> bits_members b)" for k
  proof (cases "k div 64 = unat i div 64")
    case True
    have r: "k < 64 * length d" using True i by linarith
    have "k = unat i \<longleftrightarrow> k mod 64 = unat i mod 64" using True div_mod_64_eq by metis
    then show ?thesis using True i r x [of "k mod 64"] by (simp add: mem mem')
  next
    case False
    then have "k \<noteq> unat i" by blast
    then show ?thesis using False by (simp add: mem mem')
  qed
  have "bits_members b' = (if P then insert (unat i) (bits_members b) else bits_members b - {unat i})"
    by (rule set_eqI, cases P) (simp_all add: key)
  moreover have "bits_wf b'" "bits_cap b' = bits_cap b"
    using assms(1) d by (simp_all add: b' bits_wf_def bits_cap_def)
  ultimately show ?thesis by blast
qed

lemma bits_upd_total:
  assumes "bits_wf b" and "unat i < bits_cap b"
  shows "\<exists>b'. bits_upd f b i = Inr b'"
  using assms by (auto simp: bits_upd_def bits_wf_def bits_cap_def unat_index Let_def)

lemma bits_upd_range:
  assumes "bits_wf b" and "bits_cap b \<le> unat i"
  shows "bits_upd f b i = Inl UndefinedBehaviour"
  using assms by (auto simp: bits_upd_def bits_wf_def bits_cap_def unat_index Let_def)

interpretation ba: bit_array bits_wf bits_cap bits_members bits_get bits_set bits_unset
proof (unfold_locales, goal_cases)
  case (1 b i)
  then show ?case
    by (auto simp: bits_get_def bits_wf_def bits_cap_def bits_members_def unat_index unat_pos Let_def
        word_low_bit)
next
  case (2 b i b')
  have "bits_wf b' \<and> bits_cap b' = bits_cap b \<and>
      bits_members b' = (if True then insert (unat i) (bits_members b) else bits_members b - {unat i})"
    by (rule bits_upd_members [OF 2(1,2) 2(3) [unfolded bits_set_def]]) (subst set_word_bit, auto)
  then show ?case by simp
next
  case (3 b i b')
  have "bits_wf b' \<and> bits_cap b' = bits_cap b \<and>
      bits_members b' = (if False then insert (unat i) (bits_members b) else bits_members b - {unat i})"
    by (rule bits_upd_members [OF 3(1,2) 3(3) [unfolded bits_unset_def]]) (subst unset_word_bit, auto)
  then show ?case by simp
next
  case (4 b i)
  then show ?case by (simp add: bits_set_def bits_upd_total)
next
  case (5 b i)
  then show ?case by (simp add: bits_unset_def bits_upd_total)
next
  case (6 b i)
  then show ?case
    by (auto simp: bits_get_def bits_wf_def bits_cap_def unat_index Let_def)
next
  case (7 b i)
  then show ?case by (simp add: bits_set_def bits_upd_range)
qed

lemmas ba_rules = ba.get_member ba.put_member ba.put_total ba.get_put

lemma bits_clear_empty:
  assumes "bits_wf b"
  obtains b' where "bits_clear b = Inr b'" "bits_wf b'" "bits_cap b' = bits_cap b" "nbits b' = nbits b"
    "bits_members b' = {}"
proof -
  obtain d where d: "bits_data b = Some d" "length d = unat (ndata b)" "ndata b = bits_words (nbits b)"
    using assms by (auto simp: bits_wf_def)
  define b' where "b' = b\<lparr>bits_data := Some (map (\<lambda>_. 0) d)\<rparr>"
  have "bits_clear b = Inr b'" by (simp add: bits_clear_def d b'_def)
  moreover have "bits_members b' = {}"
    by (auto simp: bits_members_def b'_def)
  ultimately show ?thesis using d by (intro that) (auto simp: bits_wf_def bits_cap_def b'_def)
qed

lemma bits_new_wf [simp]: "bits_wf (bits_new junk n)"
  by (simp add: bits_wf_def bits_new_def)

text \<open>Every bit position the count allows is in range, unless rounding up to words wraps.\<close>

lemma bits_words_cover:
  assumes "unat n < 2 ^ 32 - 63" and "i < unat n"
  shows "i < 64 * unat (bits_words n)"
proof -
  have "unat n + 63 < 2 ^ 32" using assms(1) by simp
  then have "unat (n + 63) = unat n + 63" by (simp add: unat_word_ariths)
  then have "unat (bits_words n) = (unat n + 63) div 64" by (simp add: bits_words_def unat_div)
  then show ?thesis using assms(2) by simp
qed

lemma bits_unserialize_reads:
  assumes "bits_wf b"
  shows "reads bits_unserialize (bits_serialize b) b"
proof -
  obtain d where d: "bits_data b = Some d" "length d = unat (ndata b)" "ndata b = bits_words (nbits b)"
    using assms by (auto simp: bits_wf_def)
  have l: "unat (bits_words (nbits b)) = length d" using d by simp
  have words: "reads (replicatep (length d) (get_int 8)) (concat (map (to_le 8) d)) d"
    by (rule reads_replicatep) (rule reads_get_int, simp)
  have "reads bits_unserialize (to_le 4 (nbits b) @ concat (map (to_le 8) d) @ [])
      \<lparr>bits_data = Some d, nbits = nbits b, ndata = bits_words (nbits b)\<rparr>"
    unfolding bits_unserialize_def
    by (rule reads_bindp [OF reads_get_int]) (simp, subst l, rule reads_bindp [OF words reads_ret])
  moreover have "bits_serialize b = to_le 4 (nbits b) @ concat (map (to_le 8) d)"
    by (simp add: bits_serialize_def d)
  ultimately show ?thesis using d by (cases b) simp
qed

section \<open>256-bit hashes\<close>

text \<open>
  Above this layer a \<open>uint256_t\<close> is the 256-bit word it denotes; equality of blobs is equality of
  these words. \<open>DataStream::get_hash\<close> loads the 32 bytes of a SHA-256 digest, whose computation
  (OpenSSL) is the parameter \<open>sha\<close>.
\<close>

definition blob_word :: "blob \<Rightarrow> u256" where
  "blob_word b = of_nat (blob_val b)"

definition hash_serialize :: "u256 \<Rightarrow> byte list" where
  "hash_serialize h = to_le 32 h"

definition hash_unserialize :: "(data_stream, u256) prog" where
  "hash_unserialize = bindp blob_unserialize (\<lambda>b. ret (blob_word b))"

definition get_hash :: "(byte list \<Rightarrow> byte list) \<Rightarrow> byte list \<Rightarrow> u256" where
  "get_hash sha bs = blob_word (blob_load (sha bs))"

lemma from_le_append:
  "from_le (xs @ ys) = (from_le xs OR push_bit (8 * length xs) (from_le ys) :: 'a::len word)"
  by (induction xs) (simp_all add: push_bit_or or.assoc add.commute)

lemma from_le_word8: "(from_le (to_le 8 (w :: u64)) :: u256) = ucast w"
proof (rule bit_eqI)
  fix n assume "possible_bit TYPE(256 word) n"
  then have n: "n < 256" by simp
  show "bit (from_le (to_le 8 w) :: u256) n = bit (ucast w :: u256) n"
  proof (cases "n < 64")
    case True
    then have "n div 8 < 8" by simp
    then show ?thesis
      using n by (simp add: bit_from_le bit_ucast_iff to_le_def bit_drop_bit_eq)
  next
    case False
    then have "\<not> n div 8 < 8" "\<not> bit w n" by (simp_all add: bit_imp_le_length impossible_bit)
    then show ?thesis by (simp add: bit_from_le bit_ucast_iff)
  qed
qed

lemma from_le_words: "(from_le (concat (map (to_le 8) ws)) :: u256) = of_nat (words_val ws)"
proof (induction ws)
  case (Cons w ws)
  let ?t = "of_nat (words_val ws) :: u256"
  have "(from_le (concat (map (to_le 8) (w # ws))) :: u256) = ucast w OR push_bit 64 ?t"
    using Cons by (simp add: from_le_append from_le_word8)
  also have "\<dots> = ucast w + push_bit 64 ?t"
  proof (rule disjunctive_add_eq_or [symmetric], rule bit_eqI)
    fix n
    show "bit (ucast w AND push_bit 64 ?t) n = bit (0 :: u256) n"
      by (auto simp: bit_and_iff bit_push_bit_iff bit_ucast_iff dest: bit_imp_le_length)
  qed
  also have "\<dots> = of_nat (words_val (w # ws))"
    by (simp add: push_bit_eq_mult mult.commute)
  finally show ?case .
qed simp

lemma blob_word_from_le: "loaded b \<Longrightarrow> blob_word b = from_le (blob_serialize b)"
  by (simp add: blob_word_def blob_val_def blob_serialize_def from_le_words)

lemma blob_word_load: "length arr = 32 \<Longrightarrow> blob_word (blob_load arr) = from_le arr"
  using blob_word_from_le [of "blob_load arr"] by (simp add: blob_serialize_load) (simp add: blob_load_def)

lemma length_hash_serialize [simp]: "length (hash_serialize h) = 32"
  by (simp add: hash_serialize_def)

lemma hash_unserialize_reads [reads_intros]: "reads hash_unserialize (hash_serialize h) h"
proof -
  define b where "b = blob_load (to_le 32 h)"
  have ser: "blob_serialize b = to_le 32 h" by (simp add: b_def blob_serialize_load)
  have "reads blob_unserialize (to_le 32 h) b"
    using blob_unserialize_reads [of b] ser by (simp add: b_def) (simp add: blob_load_def)
  moreover have "blob_word b = h"
    by (simp add: b_def blob_word_load from_le_to_le)
  ultimately have "reads hash_unserialize (to_le 32 h @ []) h"
    unfolding hash_unserialize_def by (metis reads_bindp reads_ret)
  then show ?thesis by (simp add: hash_serialize_def)
qed

lemma blob_word_eq_iff:
  assumes "blob_wf a" and "blob_wf b" and "loaded a" and "loaded b"
  shows "blob_word a = blob_word b \<longleftrightarrow> blob_eq a b"
proof
  assume eq: "blob_word a = blob_word b"
  have rt: "to_le 32 (blob_word x) = blob_serialize x" if "blob_wf x" "loaded x" for x
    using that by (simp add: blob_word_from_le to_le_from_le length_blob_serialize)
  have "blob_serialize a = blob_serialize b" using eq rt assms by metis
  then have "reads blob_unserialize (blob_serialize a) a" "reads blob_unserialize (blob_serialize a) b"
    using assms blob_unserialize_reads by fastforce+
  then have "a = b" by (metis reads_written Pair_inject sum.inject(2))
  then show "blob_eq a b" using assms by (simp add: blob_eq_data)
next
  assume "blob_eq a b"
  then show "blob_word a = blob_word b"
    using assms by (simp add: blob_eq_data blob_word_def blob_val_def)
qed

end
