(* ===== verification/Certificates.thy ===== *)
theory Certificates
  imports Blob_Bits
begin

unbundle bit_operations_syntax

text \<open>
  Replica configuration (\<^verbatim>\<open>entity.h\<close>, \<open>ReplicaInfo\<close> and \<open>ReplicaConfig\<close>) and the certificates of
  \<^verbatim>\<open>crypto.h\<close> and \<^verbatim>\<open>crypto.cpp\<close>: partial certificates and quorum certificates, in the dummy and the
  secp256k1 variant. The virtual classes \<open>PartCert\<close> and \<open>QuorumCert\<close> are datatypes with one
  constructor per subclass, virtual calls are case distinctions. The elliptic-curve library is a
  record of functions, a parameter of every definition that signs, verifies, prints or parses a
  signature.
\<close>

section \<open>Replica configuration\<close>

record replica_info =
  ri_id :: replica_id
  ri_peer_id :: u256
  ri_pubkey :: "byte list"

record replica_config =
  replica_map :: "replica_id \<rightharpoonup> replica_info"
  nreplicas :: nat
  nmajority :: nat

definition config_new :: replica_config where
  "config_new = \<lparr>replica_map = (\<lambda>_. None), nreplicas = 0, nmajority = 0\<rparr>"

text \<open>\<open>unordered_map::insert\<close> keeps an existing entry; the \<open>size_t\<close> counter is incremented anyway.\<close>

definition map_insert :: "'k \<Rightarrow> 'v \<Rightarrow> ('k \<rightharpoonup> 'v) \<Rightarrow> ('k \<rightharpoonup> 'v)" where
  "map_insert k v m = (if m k = None then m(k \<mapsto> v) else m)"

definition config_add_replica :: "replica_id \<Rightarrow> replica_info \<Rightarrow> replica_config \<Rightarrow> replica_config" where
  "config_add_replica rid info c =
     c\<lparr>replica_map := map_insert rid info (replica_map c), nreplicas := (nreplicas c + 1) mod 2 ^ 64\<rparr>"

text \<open>A missing identifier is logged and the end iterator is dereferenced all the same.\<close>

definition get_info :: "replica_config \<Rightarrow> replica_id \<Rightarrow> err + replica_info" where
  "get_info c rid = (case replica_map c rid of None \<Rightarrow> Inl UndefinedBehaviour | Some i \<Rightarrow> Inr i)"

definition get_pubkey :: "replica_config \<Rightarrow> replica_id \<Rightarrow> err + byte list" where
  "get_pubkey c rid = ebind (get_info c rid) (\<lambda>i. Inr (ri_pubkey i))"

definition get_peer_id :: "replica_config \<Rightarrow> replica_id \<Rightarrow> err + u256" where
  "get_peer_id c rid = ebind (get_info c rid) (\<lambda>i. Inr (ri_peer_id i))"

section \<open>Signatures\<close>

text \<open>
  Keys and signatures are the opaque byte arrays of the secp256k1 interface (64 bytes for a public
  key and a signature, 32 for a private key).
\<close>

record secp =
  ecdsa_sign :: "byte list \<Rightarrow> byte list \<Rightarrow> byte list option"
  ecdsa_verify :: "byte list \<Rightarrow> byte list \<Rightarrow> byte list \<Rightarrow> bool"
  signature_serialize_compact :: "byte list \<Rightarrow> byte list"
  signature_parse_compact :: "byte list \<Rightarrow> byte list option"
  ec_pubkey_create :: "byte list \<Rightarrow> byte list option"
  ec_pubkey_serialize :: "byte list \<Rightarrow> byte list"
  ec_pubkey_parse :: "byte list \<Rightarrow> byte list option"

text \<open>What the library documents for a signature object: its compact form has 64 bytes and parses
  back to it. The hypothesis is only needed for the signatures a round trip is about.\<close>

definition sig_printable :: "secp \<Rightarrow> byte list \<Rightarrow> bool" where
  "sig_printable lib sg \<longleftrightarrow> length (signature_serialize_compact lib sg) = 64 \<and>
     signature_parse_compact lib (signature_serialize_compact lib sg) = Some sg"

text \<open>\<open>catch (std::ios_base::failure &)\<close> turns a short buffer into the class's own exception.\<close>

definition get_parsed :: "nat \<Rightarrow> (byte list \<Rightarrow> 'a option) \<Rightarrow> (data_stream, 'a) prog" where
  "get_parsed len parse = (\<lambda>s. case get_data_inplace len s of
      (Inl e, t) \<Rightarrow> (Inl IllFormed, t)
    | (Inr bs, t) \<Rightarrow> (case parse bs of None \<Rightarrow> (Inl IllFormed, t) | Some x \<Rightarrow> (Inr x, t)))"

definition pubkey_serialize :: "secp \<Rightarrow> byte list \<Rightarrow> byte list" where
  "pubkey_serialize lib pk = ec_pubkey_serialize lib pk"

definition pubkey_unserialize :: "secp \<Rightarrow> (data_stream, byte list) prog" where
  "pubkey_unserialize lib = get_parsed 33 (ec_pubkey_parse lib)"

definition pubkey_of_privkey :: "secp \<Rightarrow> byte list \<Rightarrow> err + byte list" where
  "pubkey_of_privkey lib sk = (case ec_pubkey_create lib sk of None \<Rightarrow> Inl InvalidArgument | Some pk \<Rightarrow> Inr pk)"

definition privkey_unserialize :: "(data_stream, byte list) prog" where
  "privkey_unserialize = get_parsed 32 Some"

definition check_msg_length :: "byte list \<Rightarrow> err + unit" where
  "check_msg_length msg = (if length msg \<noteq> 32 then Inl BadMsgLength else Inr ())"

definition sig_sign :: "secp \<Rightarrow> byte list \<Rightarrow> byte list \<Rightarrow> err + byte list" where
  "sig_sign lib msg sk = ebind (check_msg_length msg) (\<lambda>_.
     case ecdsa_sign lib msg sk of None \<Rightarrow> Inl SignFailed | Some sg \<Rightarrow> Inr sg)"

definition sig_verify :: "secp \<Rightarrow> byte list \<Rightarrow> byte list \<Rightarrow> byte list \<Rightarrow> err + bool" where
  "sig_verify lib sg msg pk = ebind (check_msg_length msg) (\<lambda>_. Inr (ecdsa_verify lib sg msg pk))"

definition sig_serialize :: "secp \<Rightarrow> byte list \<Rightarrow> byte list" where
  "sig_serialize lib sg = signature_serialize_compact lib sg"

definition sig_unserialize :: "secp \<Rightarrow> (data_stream, byte list) prog" where
  "sig_unserialize lib = get_parsed 64 (signature_parse_compact lib)"

section \<open>Partial certificates\<close>

datatype part_cert =
    PartCertDummy u256
  | PartCertSecp256k1 u256 "byte list"

fun pc_obj_hash :: "part_cert \<Rightarrow> u256" where
  "pc_obj_hash (PartCertDummy h) = h"
| "pc_obj_hash (PartCertSecp256k1 h sg) = h"

definition create_part_cert_secp :: "secp \<Rightarrow> byte list \<Rightarrow> u256 \<Rightarrow> err + part_cert" where
  "create_part_cert_secp lib sk h =
     ebind (sig_sign lib (hash_serialize h) sk) (\<lambda>sg. Inr (PartCertSecp256k1 h sg))"

fun pc_verify :: "secp \<Rightarrow> part_cert \<Rightarrow> byte list \<Rightarrow> err + bool" where
  "pc_verify lib (PartCertDummy h) pk = Inr True"
| "pc_verify lib (PartCertSecp256k1 h sg) pk = sig_verify lib sg (hash_serialize h) pk"

fun pc_serialize :: "secp \<Rightarrow> part_cert \<Rightarrow> byte list" where
  "pc_serialize lib (PartCertDummy h) = to_le 4 (0 :: u32) @ hash_serialize h"
| "pc_serialize lib (PartCertSecp256k1 h sg) = hash_serialize h @ sig_serialize lib sg"

text \<open>Which subclass \<open>parse_part_cert\<close> creates is fixed by the template arguments of \<open>HotStuff\<close>.\<close>

datatype cert_kind = Dummy | Secp256k1

fun pc_unserialize :: "secp \<Rightarrow> cert_kind \<Rightarrow> (data_stream, part_cert) prog" where
  "pc_unserialize lib Dummy =
     bindp (get_int 4 :: (data_stream, u32) prog) (\<lambda>_.
     bindp hash_unserialize (\<lambda>h. ret (PartCertDummy h)))"
| "pc_unserialize lib Secp256k1 =
     bindp hash_unserialize (\<lambda>h.
     bindp (sig_unserialize lib) (\<lambda>sg. ret (PartCertSecp256k1 h sg)))"

section \<open>Quorum certificates\<close>

record qc_secp =
  qs_obj_hash :: u256
  qs_rids :: bits
  qs_sigs :: "replica_id \<rightharpoonup> byte list"

datatype quorum_cert =
    QuorumCertDummy u256
  | QuorumCertSecp256k1 qc_secp

fun qc_obj_hash :: "quorum_cert \<Rightarrow> u256" where
  "qc_obj_hash (QuorumCertDummy h) = h"
| "qc_obj_hash (QuorumCertSecp256k1 q) = qs_obj_hash q"

text \<open>The constructor sizes the bit array by the replica count (converted to 32 bits) and clears
  it.\<close>

definition qc_secp_new :: "(nat \<Rightarrow> u64) \<Rightarrow> replica_config \<Rightarrow> u256 \<Rightarrow> err + qc_secp" where
  "qc_secp_new junk cfg h =
     ebind (bits_clear (bits_new junk (of_nat (nreplicas cfg)))) (\<lambda>b.
     Inr \<lparr>qs_obj_hash = h, qs_rids = b, qs_sigs = (\<lambda>_. None)\<rparr>)"

fun create_quorum_cert_of :: "cert_kind \<Rightarrow> (nat \<Rightarrow> u64) \<Rightarrow> replica_config \<Rightarrow> u256 \<Rightarrow> err + quorum_cert" where
  "create_quorum_cert_of Dummy junk cfg h = Inr (QuorumCertDummy h)"
| "create_quorum_cert_of Secp256k1 junk cfg h =
     ebind (qc_secp_new junk cfg h) (\<lambda>q. Inr (QuorumCertSecp256k1 q))"

text \<open>\<open>add_part\<close>: the downcast of a dummy partial certificate is undefined. The signature is inserted
  before the bit is set.\<close>

fun qc_add_part :: "quorum_cert \<Rightarrow> replica_id \<Rightarrow> part_cert \<Rightarrow> err + quorum_cert" where
  "qc_add_part (QuorumCertDummy h) rid pc = Inr (QuorumCertDummy h)"
| "qc_add_part (QuorumCertSecp256k1 q) rid pc =
     (if pc_obj_hash pc \<noteq> qs_obj_hash q then Inl PartCertMismatch
      else case pc of
        PartCertDummy _ \<Rightarrow> Inl UndefinedBehaviour
      | PartCertSecp256k1 _ sg \<Rightarrow>
          ebind (bits_set (qs_rids q) (ucast rid)) (\<lambda>b.
          Inr (QuorumCertSecp256k1 (q\<lparr>qs_rids := b, qs_sigs := map_insert rid sg (qs_sigs q)\<rparr>))))"

definition qc_compute :: "quorum_cert \<Rightarrow> quorum_cert" where
  "qc_compute qc = qc"

definition qs_indices :: "qc_secp \<Rightarrow> nat list" where
  "qs_indices q = [0..<unat (bits_size (qs_rids q))]"

text \<open>The verification loop over the bit positions. The position is converted to the 16-bit
  \<open>ReplicaID\<close> when it indexes \<open>sigs\<close> and the replica map; \<open>sigs[i]\<close> of an absent key would verify
  an uninitialised signature.\<close>

fun qs_verify_from :: "secp \<Rightarrow> replica_config \<Rightarrow> qc_secp \<Rightarrow> nat list \<Rightarrow> err + bool" where
  "qs_verify_from lib cfg q [] = Inr True"
| "qs_verify_from lib cfg q (i # is) =
     ebind (bits_get (qs_rids q) (of_nat i)) (\<lambda>b.
       if b = 0 then qs_verify_from lib cfg q is
       else case qs_sigs q (of_nat i) of
          None \<Rightarrow> Inl UndefinedBehaviour
        | Some sg \<Rightarrow>
            ebind (get_pubkey cfg (of_nat i)) (\<lambda>pk.
            ebind (sig_verify lib sg (hash_serialize (qs_obj_hash q)) pk) (\<lambda>ok.
              if ok then qs_verify_from lib cfg q is else Inr False)))"

fun qc_verify :: "secp \<Rightarrow> replica_config \<Rightarrow> quorum_cert \<Rightarrow> err + bool" where
  "qc_verify lib cfg (QuorumCertDummy h) = Inr True"
| "qc_verify lib cfg (QuorumCertSecp256k1 q) =
     (if card (dom (qs_sigs q)) < nmajority cfg then Inr False
      else qs_verify_from lib cfg q (qs_indices q))"

text \<open>The asynchronous variant hands one task per set bit to the verification pool and conjoins the
  results when all have been delivered.\<close>

record veri_task =
  vt_msg :: u256
  vt_pubkey :: "byte list"
  vt_sig :: "byte list"

definition veri_task_verify :: "secp \<Rightarrow> veri_task \<Rightarrow> err + bool" where
  "veri_task_verify lib t = sig_verify lib (vt_sig t) (hash_serialize (vt_msg t)) (vt_pubkey t)"

fun qs_tasks_from :: "replica_config \<Rightarrow> qc_secp \<Rightarrow> nat list \<Rightarrow> err + veri_task list" where
  "qs_tasks_from cfg q [] = Inr []"
| "qs_tasks_from cfg q (i # is) =
     ebind (bits_get (qs_rids q) (of_nat i)) (\<lambda>b.
       if b = 0 then qs_tasks_from cfg q is
       else case qs_sigs q (of_nat i) of
          None \<Rightarrow> Inl UndefinedBehaviour
        | Some sg \<Rightarrow>
            ebind (get_pubkey cfg (of_nat i)) (\<lambda>pk.
            ebind (qs_tasks_from cfg q is) (\<lambda>ts.
              Inr (\<lparr>vt_msg = qs_obj_hash q, vt_pubkey = pk, vt_sig = sg\<rparr> # ts))))"

fun all_true :: "(err + bool) list \<Rightarrow> err + bool" where
  "all_true [] = Inr True"
| "all_true (v # vs) = ebind v (\<lambda>b. ebind (all_true vs) (\<lambda>c. Inr (b \<and> c)))"

fun qc_verify_async :: "secp \<Rightarrow> replica_config \<Rightarrow> quorum_cert \<Rightarrow> err + bool" where
  "qc_verify_async lib cfg (QuorumCertDummy h) = Inr True"
| "qc_verify_async lib cfg (QuorumCertSecp256k1 q) =
     (if card (dom (qs_sigs q)) < nmajority cfg then Inr False
      else ebind (qs_tasks_from cfg q (qs_indices q)) (\<lambda>ts. all_true (map (veri_task_verify lib) ts)))"

fun qs_serialize_from :: "secp \<Rightarrow> qc_secp \<Rightarrow> nat list \<Rightarrow> err + byte list" where
  "qs_serialize_from lib q [] = Inr []"
| "qs_serialize_from lib q (i # is) =
     ebind (bits_get (qs_rids q) (of_nat i)) (\<lambda>b.
       if b = 0 then qs_serialize_from lib q is
       else case qs_sigs q (of_nat i) of
          None \<Rightarrow> Inl OutOfRange
        | Some sg \<Rightarrow> ebind (qs_serialize_from lib q is) (\<lambda>bs. Inr (sig_serialize lib sg @ bs)))"

fun qc_serialize :: "secp \<Rightarrow> quorum_cert \<Rightarrow> err + byte list" where
  "qc_serialize lib (QuorumCertDummy h) = Inr (to_le 4 (1 :: u32) @ hash_serialize h)"
| "qc_serialize lib (QuorumCertSecp256k1 q) =
     ebind (qs_serialize_from lib q (qs_indices q)) (\<lambda>bs.
     Inr (hash_serialize (qs_obj_hash q) @ bits_serialize (qs_rids q) @ bs))"

fun qs_unserialize_from ::
  "secp \<Rightarrow> bits \<Rightarrow> nat list \<Rightarrow> (replica_id \<rightharpoonup> byte list) \<Rightarrow> (data_stream, replica_id \<rightharpoonup> byte list) prog" where
  "qs_unserialize_from lib b [] m = ret m"
| "qs_unserialize_from lib b (i # is) m =
     bindp (lift (bits_get b (of_nat i))) (\<lambda>v.
       if v = 0 then qs_unserialize_from lib b is m
       else bindp (sig_unserialize lib) (\<lambda>sg. qs_unserialize_from lib b is (m(of_nat i \<mapsto> sg))))"

fun qc_unserialize :: "secp \<Rightarrow> cert_kind \<Rightarrow> (data_stream, quorum_cert) prog" where
  "qc_unserialize lib Dummy =
     bindp (get_int 4 :: (data_stream, u32) prog) (\<lambda>_.
     bindp hash_unserialize (\<lambda>h. ret (QuorumCertDummy h)))"
| "qc_unserialize lib Secp256k1 =
     bindp hash_unserialize (\<lambda>h.
     bindp bits_unserialize (\<lambda>b.
     bindp (qs_unserialize_from lib b [0..<unat (bits_size b)] (\<lambda>_. None)) (\<lambda>m.
     ret (QuorumCertSecp256k1 \<lparr>qs_obj_hash = h, qs_rids = b, qs_sigs = m\<rparr>))))"

section \<open>Well-formed certificates\<close>

text \<open>The bit positions a certificate's loops visit and find set.\<close>

definition qs_members :: "qc_secp \<Rightarrow> nat set" where
  "qs_members q = {i. i < unat (nbits (qs_rids q)) \<and> i \<in> bits_members (qs_rids q)}"

text \<open>The signatures are those of the set positions, and every position is backed by the array.\<close>

definition qs_wf :: "qc_secp \<Rightarrow> bool" where
  "qs_wf q \<longleftrightarrow> bits_wf (qs_rids q) \<and> unat (nbits (qs_rids q)) \<le> bits_cap (qs_rids q) \<and>
     dom (qs_sigs q) = of_nat ` qs_members q"

lemma unat_of_nat32: "i < 2 ^ 32 \<Longrightarrow> unat (of_nat i :: u32) = i"
  by (simp add: unat_of_nat)

lemma unat_ucast16_32: "unat (ucast (r :: u16) :: u32) = unat r"
proof -
  have "unat r < 2 ^ LENGTH(16)" by (rule unsigned_less)
  then have "unat r < 2 ^ 32" by simp
  then show ?thesis by (simp add: unsigned_ucast_eq take_bit_nat_eq_self)
qed

lemma unat_lt32: "unat (w :: u32) < 2 ^ 32"
  using unsigned_less [of w] by simp

lemma qs_bit:
  assumes "qs_wf q" and "i < unat (nbits (qs_rids q))"
  shows "bits_get (qs_rids q) (of_nat i) = Inr (if i \<in> qs_members q then 1 else 0)"
proof -
  have u: "unat (of_nat i :: u32) = i"
    using assms(2) unat_lt32 by (intro unat_of_nat32) (rule less_trans)
  then have "bits_get (qs_rids q) (of_nat i) = Inr (if unat (of_nat i :: u32) \<in> bits_members (qs_rids q) then 1 else 0)"
    using assms by (intro ba.get_member) (auto simp: qs_wf_def)
  then show ?thesis using u assms(2) by (simp add: qs_members_def)
qed

lemma qs_sig_of_member:
  assumes "qs_wf q" and "i \<in> qs_members q"
  obtains sg where "qs_sigs q (of_nat i) = Some sg"
proof -
  have "(of_nat i :: replica_id) \<in> dom (qs_sigs q)" using assms by (auto simp: qs_wf_def)
  then show ?thesis using that by auto
qed

lemma qs_indices_range: "i \<in> set (qs_indices q) \<longleftrightarrow> i < unat (nbits (qs_rids q))"
  by (simp add: qs_indices_def bits_size_def)

text \<open>A replica has signed a hash: its registered key accepts some signature of it.\<close>

definition signed :: "secp \<Rightarrow> replica_config \<Rightarrow> u256 \<Rightarrow> replica_id \<Rightarrow> bool" where
  "signed lib cfg h r \<longleftrightarrow> (\<exists>info sg. replica_map cfg r = Some info \<and>
     ecdsa_verify lib sg (hash_serialize h) (ri_pubkey info))"

definition sig_accepted :: "secp \<Rightarrow> replica_config \<Rightarrow> u256 \<Rightarrow> replica_id \<Rightarrow> byte list \<Rightarrow> bool" where
  "sig_accepted lib cfg h r sg \<longleftrightarrow> (\<exists>info. replica_map cfg r = Some info \<and>
     ecdsa_verify lib sg (hash_serialize h) (ri_pubkey info))"

lemma sig_verify_hash: "sig_verify lib sg (hash_serialize h) pk = Inr (ecdsa_verify lib sg (hash_serialize h) pk)"
  by (simp add: sig_verify_def check_msg_length_def)

lemma qs_verify_from_True:
  assumes "qs_wf q" and "\<And>i. i \<in> set is \<Longrightarrow> i < unat (nbits (qs_rids q))"
  shows "qs_verify_from lib cfg q is = Inr True \<longleftrightarrow>
    (\<forall>i \<in> set is. i \<in> qs_members q \<longrightarrow>
       (\<exists>sg. qs_sigs q (of_nat i) = Some sg \<and> sig_accepted lib cfg (qs_obj_hash q) (of_nat i) sg))"
  using assms(2)
proof (induction "is")
  case (Cons i "is")
  show ?case
  proof (cases "i \<in> qs_members q")
    case True
    then obtain sg where "qs_sigs q (of_nat i) = Some sg" by (rule qs_sig_of_member [OF assms(1)])
    then show ?thesis
      using True Cons assms(1)
      by (auto simp: qs_bit get_pubkey_def get_info_def sig_verify_hash sig_accepted_def split: option.splits)
  next
    case False
    then show ?thesis using Cons assms(1) by (simp add: qs_bit)
  qed
qed simp

lemma qc_verify_True:
  assumes "qs_wf q"
  shows "qc_verify lib cfg (QuorumCertSecp256k1 q) = Inr True \<longleftrightarrow>
    nmajority cfg \<le> card (dom (qs_sigs q)) \<and>
    (\<forall>r sg. qs_sigs q r = Some sg \<longrightarrow> sig_accepted lib cfg (qs_obj_hash q) r sg)"
proof -
  have "qs_verify_from lib cfg q (qs_indices q) = Inr True \<longleftrightarrow>
      (\<forall>i \<in> qs_members q. \<exists>sg. qs_sigs q (of_nat i) = Some sg \<and> sig_accepted lib cfg (qs_obj_hash q) (of_nat i) sg)"
    using assms by (subst qs_verify_from_True) (auto simp: qs_indices_range qs_members_def)
  also have "\<dots> \<longleftrightarrow> (\<forall>r \<in> dom (qs_sigs q). \<exists>sg. qs_sigs q r = Some sg \<and> sig_accepted lib cfg (qs_obj_hash q) r sg)"
    using assms by (auto simp: qs_wf_def)
  also have "\<dots> \<longleftrightarrow> (\<forall>r sg. qs_sigs q r = Some sg \<longrightarrow> sig_accepted lib cfg (qs_obj_hash q) r sg)"
    by (auto simp: dom_def)
  finally show ?thesis by (simp add: not_less)
qed

text \<open>The pool's answer is the loop's answer.\<close>

lemma all_true_tasks:
  "all_true (map (veri_task_verify lib) ts) =
     Inr (\<forall>t \<in> set ts. ecdsa_verify lib (vt_sig t) (hash_serialize (vt_msg t)) (vt_pubkey t))"
  by (induction ts) (simp_all add: veri_task_verify_def sig_verify_hash)

lemma qs_tasks_verify:
  assumes "qs_tasks_from cfg q is = Inr ts"
  shows "qs_verify_from lib cfg q is = all_true (map (veri_task_verify lib) ts)"
  using assms
proof (induction "is" arbitrary: ts)
  case (Cons i "is")
  then obtain b where b: "bits_get (qs_rids q) (of_nat i) = Inr b" by (auto simp: ebind_eq_Inr)
  show ?case
  proof (cases "b = 0")
    case True
    then show ?thesis using Cons b by simp
  next
    case False
    with Cons.prems b obtain sg pk ts' where
      "qs_sigs q (of_nat i) = Some sg" "get_pubkey cfg (of_nat i) = Inr pk" "qs_tasks_from cfg q is = Inr ts'"
      "ts = \<lparr>vt_msg = qs_obj_hash q, vt_pubkey = pk, vt_sig = sg\<rparr> # ts'"
      by (auto simp: ebind_eq_Inr split: option.splits)
    then show ?thesis
      using False b Cons.IH
      by (simp add: sig_verify_hash all_true_tasks del: list.map)
  qed
qed simp

lemma qc_verify_async_sync:
  assumes "qc_verify_async lib cfg qc = Inr v"
  shows "qc_verify lib cfg qc = Inr v"
  using assms qs_tasks_verify by (cases qc) (auto simp: ebind_eq_Inr split: if_splits)

section \<open>Building a certificate\<close>

lemma qc_secp_new_wf:
  assumes "nreplicas cfg < 2 ^ 32 - 63"
  obtains q where "qc_secp_new junk cfg h = Inr q" "qs_wf q" "qs_obj_hash q = h"
    "qs_sigs q = (\<lambda>_. None)" "unat (nbits (qs_rids q)) = nreplicas cfg"
proof -
  let ?n = "of_nat (nreplicas cfg) :: u32"
  obtain b' where b': "bits_clear (bits_new junk ?n) = Inr b'" "bits_wf b'"
    "bits_cap b' = bits_cap (bits_new junk ?n)" "nbits b' = nbits (bits_new junk ?n)" "bits_members b' = {}"
    by (rule bits_clear_empty [OF bits_new_wf])
  have n: "unat ?n = nreplicas cfg" using assms by (intro unat_of_nat32) simp
  have "unat ?n \<le> bits_cap (bits_new junk ?n)"
  proof (cases "unat ?n")
    case (Suc k)
    then have "k < 64 * unat (bits_words ?n)"
      using assms n by (intro bits_words_cover) auto
    then show ?thesis using Suc by (simp add: bits_cap_def bits_new_def)
  qed simp
  then show ?thesis
    using b' n by (intro that [of "\<lparr>qs_obj_hash = h, qs_rids = b', qs_sigs = (\<lambda>_. None)\<rparr>"])
      (auto simp: qc_secp_new_def qs_wf_def qs_members_def bits_new_def)
qed

lemma qc_add_part_secp:
  assumes "qs_wf q" and "unat rid < unat (nbits (qs_rids q))"
  obtains q' where
    "qc_add_part (QuorumCertSecp256k1 q) rid (PartCertSecp256k1 (qs_obj_hash q) sg) = Inr (QuorumCertSecp256k1 q')"
    "qs_wf q'" "qs_obj_hash q' = qs_obj_hash q" "qs_sigs q' = map_insert rid sg (qs_sigs q)"
    "nbits (qs_rids q') = nbits (qs_rids q)"
proof -
  let ?i = "ucast rid :: u32"
  have i: "unat ?i = unat rid" by (rule unat_ucast16_32)
  have w: "bits_wf (qs_rids q)" "unat ?i < bits_cap (qs_rids q)" using assms i by (auto simp: qs_wf_def)
  obtain b where b: "bits_set (qs_rids q) ?i = Inr b" using ba.put_total [OF w] by blast
  have m: "bits_wf b \<and> bits_cap b = bits_cap (qs_rids q) \<and> bits_members b = insert (unat ?i) (bits_members (qs_rids q))"
    by (rule ba.put_member [OF w b])
  have n: "nbits b = nbits (qs_rids q)"
    using b by (auto simp: bits_set_def bits_upd_def Let_def split: option.splits if_splits)
  define q' where "q' = q\<lparr>qs_rids := b, qs_sigs := map_insert rid sg (qs_sigs q)\<rparr>"
  have mem: "qs_members q' = insert (unat rid) (qs_members q)"
    using m n i assms(2) by (auto simp: qs_members_def q'_def)
  have "dom (qs_sigs q') = insert rid (dom (qs_sigs q))"
    by (auto simp: q'_def map_insert_def)
  then have "dom (qs_sigs q') = of_nat ` qs_members q'"
    using assms(1) by (simp add: mem qs_wf_def)
  then have "qs_wf q'" using m n assms(1) by (simp add: qs_wf_def) (simp add: q'_def)
  then show ?thesis using b n by (intro that [of q']) (auto simp: q'_def)
qed

section \<open>Parsing and printing\<close>

lemma get_parsed_reads:
  assumes "length bs = n" and "parse bs = Some x"
  shows "reads (get_parsed n parse) bs x"
  using reads_get_data [of bs] assms unfolding reads_def get_parsed_def by fastforce

lemma sig_unserialize_reads: "sig_printable lib sg \<Longrightarrow> reads (sig_unserialize lib) (sig_serialize lib sg) sg"
  unfolding sig_unserialize_def sig_serialize_def sig_printable_def by (intro get_parsed_reads) auto

text \<open>Whatever bytes arrive: a certificate that parses is well formed.\<close>

lemma qs_unserialize_from_dom:
  assumes "bits_wf b" and "qs_unserialize_from lib b is m s = (Inr m', t)"
    and "\<And>i. i \<in> set is \<Longrightarrow> i < 2 ^ 32"
  shows "(\<forall>i \<in> set is. i < bits_cap b) \<and> dom m' = dom m \<union> of_nat ` {i \<in> set is. i \<in> bits_members b}"
  using assms(2,3)
proof (induction "is" arbitrary: m s)
  case Nil
  then show ?case by (simp add: ret_def)
next
  case (Cons i "is")
  have u: "unat (of_nat i :: u32) = i" using Cons.prems(2) by (intro unat_of_nat32) simp
  obtain v where v: "bits_get b (of_nat i) = Inr v"
    using Cons.prems(1) by (cases "bits_get b (of_nat i)") (auto simp: throw_def)
  then have i: "i < bits_cap b"
    using ba.get_out_of_range [OF assms(1), of "of_nat i"] u by (metis Inl_Inr_False linorder_not_le)
  then have vm: "v = 0 \<longleftrightarrow> i \<notin> bits_members b"
    using ba.get_member [OF assms(1), of "of_nat i"] u v by auto
  show ?case
  proof (cases "v = 0")
    case True
    then have "qs_unserialize_from lib b is m s = (Inr m', t)" using Cons.prems(1) v by simp
    then have "(\<forall>i \<in> set is. i < bits_cap b) \<and> dom m' = dom m \<union> of_nat ` {i \<in> set is. i \<in> bits_members b}"
      using Cons.prems(2) by (intro Cons.IH) auto
    moreover have "{j \<in> set (i # is). j \<in> bits_members b} = {j \<in> set is. j \<in> bits_members b}"
      using vm True by auto
    ultimately show ?thesis using i by simp
  next
    case False
    then obtain sg u' where "qs_unserialize_from lib b is (m(of_nat i \<mapsto> sg)) u' = (Inr m', t)"
      using Cons.prems(1) v by (auto simp: bindp_eq_Inr)
    then have "(\<forall>i \<in> set is. i < bits_cap b) \<and>
        dom m' = dom (m(of_nat i \<mapsto> sg)) \<union> of_nat ` {i \<in> set is. i \<in> bits_members b}"
      by (rule Cons.IH) (use Cons.prems(2) in simp)
    moreover have "{j \<in> set (i # is). j \<in> bits_members b} = insert i {j \<in> set is. j \<in> bits_members b}"
      using vm False by auto
    ultimately show ?thesis using i by simp
  qed
qed

lemma length_replicatep: "replicatep n m s = (Inr xs, t) \<Longrightarrow> length xs = n"
  by (induction n arbitrary: s xs) (auto simp: ret_def bindp_eq_Inr)

lemma bits_unserialize_wf: "bits_unserialize s = (Inr b, t) \<Longrightarrow> bits_wf b"
  by (auto simp: bits_unserialize_def bindp_eq_Inr ret_def bits_wf_def dest: length_replicatep)

lemma qc_unserialize_wf:
  assumes "qc_unserialize lib Secp256k1 s = (Inr qc, t)"
  obtains q where "qc = QuorumCertSecp256k1 q" "qs_wf q"
proof -
  obtain h b m s1 s2 s3 where b: "bits_unserialize s1 = (Inr b, s2)"
    and m: "qs_unserialize_from lib b [0..<unat (nbits b)] (\<lambda>_. None) s2 = (Inr m, s3)"
    and qc: "qc = QuorumCertSecp256k1 \<lparr>qs_obj_hash = h, qs_rids = b, qs_sigs = m\<rparr>"
    using assms by (auto simp: bindp_eq_Inr ret_def bits_size_def)
  have wf: "bits_wf b" by (rule bits_unserialize_wf [OF b])
  have d: "(\<forall>i \<in> set [0..<unat (nbits b)]. i < bits_cap b) \<and>
      dom m = dom (\<lambda>_::replica_id. None :: byte list option) \<union> of_nat ` {i \<in> set [0..<unat (nbits b)]. i \<in> bits_members b}"
    by (rule qs_unserialize_from_dom [OF wf m]) (use unat_lt32 [of "nbits b"] in simp)
  then have "unat (nbits b) \<le> bits_cap b"
    by (cases "unat (nbits b)") auto
  then show ?thesis
    using that [OF qc] wf d by (auto simp: qs_wf_def qs_members_def)
qed

text \<open>Printing a well-formed certificate succeeds and reading it back gives the same certificate.\<close>

lemma qs_roundtrip_from:
  assumes "qs_wf q" and "\<And>r sg. qs_sigs q r = Some sg \<Longrightarrow> sig_printable lib sg"
    and "\<And>i. i \<in> set is \<Longrightarrow> i < unat (nbits (qs_rids q))"
  shows "\<exists>bs. qs_serialize_from lib q is = Inr bs \<and>
    (\<forall>m. reads (qs_unserialize_from lib (qs_rids q) is m) bs
       (\<lambda>r. if r \<in> of_nat ` {i \<in> set is. i \<in> qs_members q} then qs_sigs q r else m r))"
  using assms(3)
proof (induction "is")
  case Nil
  then show ?case by (simp add: reads_ret)
next
  case (Cons i "is")
  then obtain bs where bs: "qs_serialize_from lib q is = Inr bs"
    and rd: "\<And>m. reads (qs_unserialize_from lib (qs_rids q) is m) bs
       (\<lambda>r. if r \<in> of_nat ` {i \<in> set is. i \<in> qs_members q} then qs_sigs q r else m r)"
    by auto
  have bit: "bits_get (qs_rids q) (of_nat i) = Inr (if i \<in> qs_members q then 1 else 0)"
    using Cons.prems by (intro qs_bit [OF assms(1)]) simp
  show ?case
  proof (cases "i \<in> qs_members q")
    case True
    then obtain sg where sg: "qs_sigs q (of_nat i) = Some sg" by (rule qs_sig_of_member [OF assms(1)])
    have S: "{j \<in> set (i # is). j \<in> qs_members q} = insert i {j \<in> set is. j \<in> qs_members q}"
      using True by auto
    have "reads (qs_unserialize_from lib (qs_rids q) (i # is) m) (sig_serialize lib sg @ bs)
        (\<lambda>r. if r \<in> of_nat ` {i \<in> set is. i \<in> qs_members q} then qs_sigs q r else (m(of_nat i \<mapsto> sg)) r)" for m
      using reads_bindp [OF sig_unserialize_reads [OF assms(2) [OF sg]] rd] bit True by simp
    moreover have "(\<lambda>r. if r \<in> of_nat ` {i \<in> set is. i \<in> qs_members q} then qs_sigs q r else (m(of_nat i \<mapsto> sg)) r)
        = (\<lambda>r. if r \<in> of_nat ` {j \<in> set (i # is). j \<in> qs_members q} then qs_sigs q r else m r)" for m
      using sg by (auto simp only: S image_insert fun_eq_iff fun_upd_apply insert_iff split: if_splits)
    ultimately show ?thesis using bit True sg bs by simp
  next
    case False
    then have "{j \<in> set (i # is). j \<in> qs_members q} = {j \<in> set is. j \<in> qs_members q}" by auto
    then show ?thesis using False bs rd bit by simp
  qed
qed

lemma qc_secp_roundtrip:
  assumes "qs_wf q" and "\<And>r sg. qs_sigs q r = Some sg \<Longrightarrow> sig_printable lib sg"
  shows "\<exists>bs. qc_serialize lib (QuorumCertSecp256k1 q) = Inr bs \<and>
    reads (qc_unserialize lib Secp256k1) bs (QuorumCertSecp256k1 q)"
proof -
  let ?is = "[0..<unat (nbits (qs_rids q))]"
  obtain bs where bs: "qs_serialize_from lib q ?is = Inr bs"
    and rd: "reads (qs_unserialize_from lib (qs_rids q) ?is (\<lambda>_. None)) bs
       (\<lambda>r. if r \<in> of_nat ` {i \<in> set ?is. i \<in> qs_members q} then qs_sigs q r else None)"
    using qs_roundtrip_from [of q lib ?is] assms by auto
  have out: "None = qs_sigs q r" if "r \<notin> of_nat ` qs_members q" for r
    using assms(1) that unfolding qs_wf_def by (metis domIff)
  have "{i \<in> set ?is. i \<in> qs_members q} = qs_members q" by (auto simp: qs_members_def)
  then have "(\<lambda>r. if r \<in> of_nat ` {i \<in> set ?is. i \<in> qs_members q} then qs_sigs q r else None) = qs_sigs q"
    using out by (auto simp only: fun_eq_iff split: if_split)
  then have sigs: "reads (qs_unserialize_from lib (qs_rids q) ?is (\<lambda>_. None)) bs (qs_sigs q)" using rd by simp
  have "bits_wf (qs_rids q)" using assms(1) by (simp add: qs_wf_def)
  then have "reads (qc_unserialize lib Secp256k1)
      (hash_serialize (qs_obj_hash q) @ bits_serialize (qs_rids q) @ bs @ [])
      (QuorumCertSecp256k1 \<lparr>qs_obj_hash = qs_obj_hash q, qs_rids = qs_rids q, qs_sigs = qs_sigs q\<rparr>)"
    unfolding qc_unserialize.simps bits_size_def
    by (intro reads_bindp [OF hash_unserialize_reads] reads_bindp [OF bits_unserialize_reads] reads_bindp [OF sigs] reads_ret)
  moreover have "\<lparr>qs_obj_hash = qs_obj_hash q, qs_rids = qs_rids q, qs_sigs = qs_sigs q\<rparr> = q" by simp
  ultimately have "reads (qc_unserialize lib Secp256k1)
      (hash_serialize (qs_obj_hash q) @ bits_serialize (qs_rids q) @ bs) (QuorumCertSecp256k1 q)"
    by (simp only: append_Nil2)
  moreover have "qc_serialize lib (QuorumCertSecp256k1 q) =
      Inr (hash_serialize (qs_obj_hash q) @ bits_serialize (qs_rids q) @ bs)"
    using bs by (simp add: qs_indices_def bits_size_def)
  ultimately show ?thesis by blast
qed

text \<open>The certificates of one kind, printable with the library.\<close>

fun pc_ok :: "secp \<Rightarrow> cert_kind \<Rightarrow> part_cert \<Rightarrow> bool" where
  "pc_ok lib Dummy (PartCertDummy h) = True"
| "pc_ok lib Secp256k1 (PartCertSecp256k1 h sg) = sig_printable lib sg"
| "pc_ok lib _ _ = False"

fun qc_ok :: "secp \<Rightarrow> cert_kind \<Rightarrow> quorum_cert \<Rightarrow> bool" where
  "qc_ok lib Dummy (QuorumCertDummy h) = True"
| "qc_ok lib Secp256k1 (QuorumCertSecp256k1 q) =
     (qs_wf q \<and> (\<forall>r. case qs_sigs q r of None \<Rightarrow> True | Some sg \<Rightarrow> sig_printable lib sg))"
| "qc_ok lib _ _ = False"

lemma dummy_reads:
  "reads (bindp (get_int 4 :: (data_stream, u32) prog) (\<lambda>_. bindp hash_unserialize (\<lambda>h. ret (f h))))
     (to_le 4 (w :: u32) @ hash_serialize h) (f h)"
proof -
  have "reads (bindp (get_int 4 :: (data_stream, u32) prog) (\<lambda>_. bindp hash_unserialize (\<lambda>h. ret (f h))))
     (to_le 4 w @ hash_serialize h @ []) (f h)"
    by (intro reads_bindp [OF reads_get_int] reads_bindp [OF hash_unserialize_reads] reads_ret) simp
  then show ?thesis by simp
qed

lemma pc_unserialize_reads:
  assumes "pc_ok lib kind pc"
  shows "reads (pc_unserialize lib kind) (pc_serialize lib pc) pc"
proof (cases pc)
  case (PartCertDummy h)
  then show ?thesis using assms by (cases kind) (auto simp: dummy_reads)
next
  case (PartCertSecp256k1 h sg)
  then have k: "kind = Secp256k1" and "sig_printable lib sg" using assms by (cases kind; simp)+
  then have "reads (pc_unserialize lib Secp256k1) (hash_serialize h @ sig_serialize lib sg @ []) (PartCertSecp256k1 h sg)"
    unfolding pc_unserialize.simps
    by (intro reads_bindp [OF hash_unserialize_reads] reads_bindp [OF sig_unserialize_reads] reads_ret)
  then show ?thesis using k PartCertSecp256k1 by simp
qed

lemma qc_roundtrip:
  assumes "qc_ok lib kind qc"
  obtains bs where "qc_serialize lib qc = Inr bs" "reads (qc_unserialize lib kind) bs qc"
proof (cases qc)
  case (QuorumCertDummy h)
  then show ?thesis using assms that by (cases kind) (auto simp: dummy_reads)
next
  case (QuorumCertSecp256k1 q)
  then have "kind = Secp256k1" "qs_wf q" and "\<And>r sg. qs_sigs q r = Some sg \<Longrightarrow> sig_printable lib sg"
    using assms by (cases kind; auto split: option.splits)+
  then show ?thesis using qc_secp_roundtrip that QuorumCertSecp256k1 by blast
qed

section \<open>The interface the protocol relies on\<close>

text \<open>
  What \<open>on_receive_vote\<close> and \<open>Block::verify\<close> rely on: a fresh certificate has no voters, adding a
  matching vote of an in-range replica succeeds and adds exactly that voter, a vote for another
  object is refused, and a certificate that verifies carries a quorum of replicas that signed.
\<close>

locale vote_certificate =
  fixes invar :: "'q \<Rightarrow> bool"
    and obj :: "'q \<Rightarrow> u256"
    and voters :: "'q \<Rightarrow> replica_id set"
    and in_range :: "'q \<Rightarrow> replica_id \<Rightarrow> bool"
    and matching :: "'q \<Rightarrow> part_cert \<Rightarrow> bool"
    and add :: "'q \<Rightarrow> replica_id \<Rightarrow> part_cert \<Rightarrow> err + 'q"
    and accepts :: "replica_config \<Rightarrow> 'q \<Rightarrow> err + bool"
    and signed_by :: "replica_config \<Rightarrow> u256 \<Rightarrow> replica_id \<Rightarrow> bool"
  assumes add_vote: "invar q \<Longrightarrow> in_range q r \<Longrightarrow> matching q pc \<Longrightarrow>
      \<exists>q'. add q r pc = Inr q' \<and> invar q' \<and> obj q' = obj q \<and> voters q' = insert r (voters q) \<and>
           in_range q' = in_range q \<and> matching q' = matching q"
    and add_mismatch: "pc_obj_hash pc \<noteq> obj q \<Longrightarrow> add q r pc = Inl PartCertMismatch"
    and accepts_quorum: "invar q \<Longrightarrow> accepts cfg q = Inr True \<Longrightarrow>
      nmajority cfg \<le> card (voters q) \<and> (\<forall>r \<in> voters q. signed_by cfg (obj q) r)"
begin

lemma collect_votes:
  assumes "invar q" and "\<And>r pc. (r, pc) \<in> set vs \<Longrightarrow> in_range q r \<and> matching q pc"
  shows "\<exists>q'. foldl (\<lambda>x v. ebind x (\<lambda>q. add q (fst v) (snd v))) (Inr q) vs = Inr q' \<and> invar q' \<and>
    obj q' = obj q \<and> voters q' = voters q \<union> fst ` set vs"
  using assms
proof (induction vs arbitrary: q)
  case (Cons v vs)
  obtain r pc where v: "v = (r, pc)" by (cases v)
  then obtain q1 where q1: "add q r pc = Inr q1" "invar q1" "obj q1 = obj q"
    "voters q1 = insert r (voters q)" "in_range q1 = in_range q" "matching q1 = matching q"
    using add_vote [of q r pc] Cons.prems by auto
  then have "\<exists>q'. foldl (\<lambda>x v. ebind x (\<lambda>q. add q (fst v) (snd v))) (Inr q1) vs = Inr q' \<and> invar q' \<and>
      obj q' = obj q1 \<and> voters q' = voters q1 \<union> fst ` set vs"
    using Cons.prems by (intro Cons.IH) auto
  then show ?case using v q1 by auto
qed simp

text \<open>Two accepted certificates have a common signer outside any set that is too small.\<close>

lemma quorum_overlap:
  assumes "invar q1" and "invar q2" and "accepts cfg q1 = Inr True" and "accepts cfg q2 = Inr True"
    and "finite U" and "voters q1 \<subseteq> U" and "voters q2 \<subseteq> U" and "F \<subseteq> U"
    and "card U + card F < 2 * nmajority cfg"
  shows "\<exists>r. r \<notin> F \<and> signed_by cfg (obj q1) r \<and> signed_by cfg (obj q2) r"
proof -
  have m: "nmajority cfg \<le> card (voters q1)" "nmajority cfg \<le> card (voters q2)"
    using assms accepts_quorum by blast+
  then have "\<exists>r. r \<in> voters q1 \<and> r \<in> voters q2 \<and> r \<notin> F"
    using assms by (intro card_inter_avoid [of U]) auto
  then show ?thesis using assms accepts_quorum by blast
qed

end

definition qs_in_range :: "qc_secp \<Rightarrow> replica_id \<Rightarrow> bool" where
  "qs_in_range q r \<longleftrightarrow> unat r < unat (nbits (qs_rids q))"

definition qs_matching :: "qc_secp \<Rightarrow> part_cert \<Rightarrow> bool" where
  "qs_matching q pc \<longleftrightarrow> (\<exists>sg. pc = PartCertSecp256k1 (qs_obj_hash q) sg)"

definition qs_add_part :: "qc_secp \<Rightarrow> replica_id \<Rightarrow> part_cert \<Rightarrow> err + qc_secp" where
  "qs_add_part q r pc = ebind (qc_add_part (QuorumCertSecp256k1 q) r pc)
     (\<lambda>qc. case qc of QuorumCertSecp256k1 q' \<Rightarrow> Inr q' | QuorumCertDummy _ \<Rightarrow> Inl UndefinedBehaviour)"

interpretation vcs: vote_certificate qs_wf qs_obj_hash "\<lambda>q. dom (qs_sigs q)" qs_in_range qs_matching
  qs_add_part "\<lambda>cfg q. qc_verify lib cfg (QuorumCertSecp256k1 q)" "signed lib" for lib
proof (unfold_locales, goal_cases)
  case (1 q r pc)
  then obtain sg where pc: "pc = PartCertSecp256k1 (qs_obj_hash q) sg" by (auto simp: qs_matching_def)
  obtain q' where q': "qc_add_part (QuorumCertSecp256k1 q) r pc = Inr (QuorumCertSecp256k1 q')"
    "qs_wf q'" "qs_obj_hash q' = qs_obj_hash q" "qs_sigs q' = map_insert r sg (qs_sigs q)"
    "nbits (qs_rids q') = nbits (qs_rids q)"
    unfolding pc by (rule qc_add_part_secp [of q r]) (use 1 in \<open>auto simp: qs_in_range_def\<close>)
  have "dom (map_insert r sg (qs_sigs q)) = insert r (dom (qs_sigs q))" by (auto simp: map_insert_def)
  moreover have "qs_in_range q' = qs_in_range q" "qs_matching q' = qs_matching q"
    using q' by (simp_all add: qs_in_range_def qs_matching_def fun_eq_iff)
  moreover have "qs_add_part q r pc = Inr q'"
    by (simp only: qs_add_part_def q'(1) ebind_simps quorum_cert.case)
  ultimately show ?case using q'(2-4) by (intro exI [of _ q']) simp
next
  case (2 pc q r)
  then show ?case by (simp add: qs_add_part_def)
next
  case (3 q cfg)
  then show ?case using qc_verify_True [THEN iffD1, OF 3] unfolding signed_def sig_accepted_def by (blast dest: domD)
qed

end
