(* ===== verification/Entities.thy ===== *)
theory Entities
  imports Certificates
begin

text \<open>
  \<^verbatim>\<open>entity.h\<close> and \<^verbatim>\<open>entity.cpp\<close>: commands, blocks with their wire format, and \<open>EntityStorage\<close>.

  A \<open>block_t\<close> is a counted pointer to a block object. Every \<open>block_t\<close> the protocol handles comes out
  of \<open>blk_cache\<close>, which is keyed by the block hash and never overwrites an entry, so the model
  names a block object by its hash: \<open>parents\<close> and \<open>qc_ref\<close> hold hashes, pointer equality is equality
  of hashes, and dereferencing is a lookup in the cache. The null pointer is \<^const>\<open>None\<close>.
\<close>

section \<open>Blocks\<close>

record block =
  parent_hashes :: "u256 list"
  cmds :: "u256 list"
  keys :: "i32 list"
  vals :: "i32 list"
  lcomplains :: "replica_id set"
  rcomplains :: "replica_id set"
  qc :: "quorum_cert option"
  extra :: "byte list"
  hash :: u256
  parents :: "u256 list"
  qc_ref :: "u256 option"
  self_qc :: "quorum_cert option"
  height :: u32
  cluster_number :: u32
  delivered :: bool
  decision :: "8 word"
  voted :: "replica_id set"

definition empty_block :: block where
  "empty_block = \<lparr>parent_hashes = [], cmds = [], keys = [], vals = [], lcomplains = {}, rcomplains = {},
     qc = None, extra = [], hash = 0, parents = [], qc_ref = None, self_qc = None, height = 0,
     cluster_number = 0, delivered = False, decision = 0, voted = {}\<rparr>"

text \<open>\<open>serialize\<close> dereferences \<open>qc\<close>. The keys and values are written without their own counts.\<close>

definition block_serialize :: "secp \<Rightarrow> block \<Rightarrow> err + byte list" where
  "block_serialize lib b =
     (case qc b of None \<Rightarrow> Inl UndefinedBehaviour
      | Some q \<Rightarrow> ebind (qc_serialize lib q) (\<lambda>qb. Inr
          (to_le 4 (of_nat (length (parent_hashes b)) :: u32) @ concat (map hash_serialize (parent_hashes b)) @
           to_le 4 (of_nat (length (cmds b)) :: u32) @ concat (map hash_serialize (cmds b)) @
           concat (map (to_le 4) (keys b)) @ concat (map (to_le 4) (vals b)) @ qb @
           to_le 4 (of_nat (length (extra b)) :: u32) @ extra b)))"

definition block_hash :: "secp \<Rightarrow> (byte list \<Rightarrow> byte list) \<Rightarrow> block \<Rightarrow> err + u256" where
  "block_hash lib sha b = ebind (block_serialize lib b) (\<lambda>bs. Inr (get_hash sha bs))"

text \<open>The extra bytes are only read when their count is not zero.\<close>

definition get_extra :: "u32 \<Rightarrow> (data_stream, byte list) prog" where
  "get_extra n = (if n = 0 then ret [] else get_data_inplace (unat n))"

definition block_unserialize :: "secp \<Rightarrow> (byte list \<Rightarrow> byte list) \<Rightarrow> cert_kind \<Rightarrow> (data_stream, block) prog" where
  "block_unserialize lib sha kind =
     bindp (get_int 4 :: (data_stream, u32) prog) (\<lambda>np.
     bindp (replicatep (unat np) hash_unserialize) (\<lambda>ph.
     bindp (get_int 4 :: (data_stream, u32) prog) (\<lambda>nc.
     bindp (replicatep (unat nc) hash_unserialize) (\<lambda>cs.
     bindp (replicatep (unat nc) (get_int 4)) (\<lambda>ks.
     bindp (replicatep (unat nc) (get_int 4)) (\<lambda>vs.
     bindp (qc_unserialize lib kind) (\<lambda>q.
     bindp (get_int 4 :: (data_stream, u32) prog) (\<lambda>ne.
     bindp (get_extra ne) (\<lambda>ex.
       let b = empty_block\<lparr>parent_hashes := ph, cmds := cs, keys := ks, vals := vs, qc := Some q, extra := ex\<rparr>
       in bindp (lift (block_hash lib sha b)) (\<lambda>h. ret (b\<lparr>hash := h\<rparr>)))))))))))"

text \<open>The constructors: the genesis block, whose certificate is a dummy one with a null hash (printed
  as zeros), and the block of a proposal.\<close>

definition block_genesis :: "secp \<Rightarrow> (byte list \<Rightarrow> byte list) \<Rightarrow> bool \<Rightarrow> 8 word \<Rightarrow> err + block" where
  "block_genesis lib sha dlv dec =
     (let b = empty_block\<lparr>qc := Some (QuorumCertDummy 0)\<rparr>
      in ebind (block_hash lib sha b) (\<lambda>h. Inr (b\<lparr>hash := h, delivered := dlv, decision := dec\<rparr>)))"

definition block_new ::
  "secp \<Rightarrow> (byte list \<Rightarrow> byte list) \<Rightarrow> u256 list \<Rightarrow> u256 list \<Rightarrow> i32 list \<Rightarrow> i32 list \<Rightarrow> quorum_cert option \<Rightarrow>
   byte list \<Rightarrow> u32 \<Rightarrow> u256 option \<Rightarrow> quorum_cert option \<Rightarrow> 8 word \<Rightarrow> err + block" where
  "block_new lib sha ps cs ks vs q ex h qref sqc dec =
     (let b = empty_block\<lparr>parent_hashes := ps, cmds := cs, keys := ks, vals := vs, qc := q, extra := ex\<rparr>
      in ebind (block_hash lib sha b) (\<lambda>hs. Inr (b\<lparr>hash := hs, parents := ps, qc_ref := qref, self_qc := sqc,
           height := h, cluster_number := 0, delivered := False, decision := dec\<rparr>)))"

definition block_verify :: "secp \<Rightarrow> u256 \<Rightarrow> replica_config \<Rightarrow> block \<Rightarrow> err + bool" where
  "block_verify lib genesis cfg b =
     (case qc b of None \<Rightarrow> Inl UndefinedBehaviour
      | Some q \<Rightarrow> if qc_obj_hash q = genesis then Inr True else qc_verify lib cfg q)"

definition block_verify_async :: "secp \<Rightarrow> u256 \<Rightarrow> replica_config \<Rightarrow> block \<Rightarrow> err + bool" where
  "block_verify_async lib genesis cfg b =
     (case qc b of None \<Rightarrow> Inl UndefinedBehaviour
      | Some q \<Rightarrow> if qc_obj_hash q = genesis then Inr True else qc_verify_async lib cfg q)"

section \<open>Commands\<close>

text \<open>The accessors of the abstract class \<open>Command\<close>.\<close>

record command =
  cmd_hash :: u256
  cmd_cid :: u32
  cmd_key :: u32
  cmd_val :: u32
  cmd_cluster_num :: u32
  cmd_node_num :: u32
  cmd_reconfig_mode :: u32

section \<open>Entity storage\<close>

record entity_storage =
  blk_cache :: "u256 \<rightharpoonup> block"
  cid_blkhash :: "int \<rightharpoonup> u256"
  cmd_cache :: "u256 \<rightharpoonup> command"
  cid_join1 :: "int \<rightharpoonup> i32"
  cid_join2 :: "int \<rightharpoonup> i32"

definition storage_new :: entity_storage where
  "storage_new = \<lparr>blk_cache = (\<lambda>_. None), cid_blkhash = (\<lambda>_. None), cmd_cache = (\<lambda>_. None),
     cid_join1 = (\<lambda>_. None), cid_join2 = (\<lambda>_. None)\<rparr>"

text \<open>\<open>int(blk->get_height())\<close>\<close>

definition cid_of_height :: "u32 \<Rightarrow> int" where
  "cid_of_height h = sint h"

definition is_blk_delivered :: "u256 \<Rightarrow> entity_storage \<Rightarrow> bool" where
  "is_blk_delivered h st = (case blk_cache st h of None \<Rightarrow> False | Some b \<Rightarrow> delivered b)"

definition is_blk_fetched :: "u256 \<Rightarrow> entity_storage \<Rightarrow> bool" where
  "is_blk_fetched h st = (blk_cache st h \<noteq> None)"

definition find_blk :: "u256 \<Rightarrow> entity_storage \<Rightarrow> block option" where
  "find_blk h st = blk_cache st h"

text \<open>\<open>find_blk_cid\<close> returns the first match in the iteration order of the hash table, which is
  unspecified and therefore an argument.\<close>

fun find_blk_cid :: "u256 list \<Rightarrow> int \<Rightarrow> entity_storage \<Rightarrow> u256 option" where
  "find_blk_cid [] cid st = None"
| "find_blk_cid (k # ks) cid st = (case blk_cache st k of
      Some b \<Rightarrow> if cid = cid_of_height (height b) then Some k else find_blk_cid ks cid st
    | None \<Rightarrow> find_blk_cid ks cid st)"

text \<open>\<open>add_blk\<close> (three overloads with the same effect) returns the entry now in the cache.\<close>

definition add_blk :: "block \<Rightarrow> entity_storage \<Rightarrow> u256 \<times> entity_storage" where
  "add_blk b st = (hash b, st\<lparr>blk_cache := map_insert (hash b) b (blk_cache st)\<rparr>)"

definition add_cid_blkhash :: "block \<Rightarrow> entity_storage \<Rightarrow> entity_storage" where
  "add_cid_blkhash b st = st\<lparr>cid_blkhash := map_insert (cid_of_height (height b)) (hash b) (cid_blkhash st)\<rparr>"

text \<open>The counters: the first call inserts 1 and answers false; a later call increments and compares
  with 1 as a signed number.\<close>

definition join_count :: "int \<Rightarrow> (int \<rightharpoonup> i32) \<Rightarrow> bool \<times> (int \<rightharpoonup> i32)" where
  "join_count cid m = (case m cid of
      None \<Rightarrow> (False, m(cid \<mapsto> 1))
    | Some c \<Rightarrow> (\<not> sint (c + 1) < 1, m(cid \<mapsto> c + 1)))"

definition add_cid_join1 :: "int \<Rightarrow> entity_storage \<Rightarrow> bool \<times> entity_storage" where
  "add_cid_join1 cid st = (let (r, m) = join_count cid (cid_join1 st) in (r, st\<lparr>cid_join1 := m\<rparr>))"

definition add_cid_join2 :: "int \<Rightarrow> entity_storage \<Rightarrow> bool \<times> entity_storage" where
  "add_cid_join2 cid st = (let (r, m) = join_count cid (cid_join2 st) in (r, st\<lparr>cid_join2 := m\<rparr>))"

text \<open>For an unknown height the code builds a hash from a one-byte array and reads 31 bytes past its
  end; \<open>junk\<close> is what it finds there.\<close>

definition find_blk_hash_for_cid :: "u256 \<Rightarrow> int \<Rightarrow> entity_storage \<Rightarrow> u256" where
  "find_blk_hash_for_cid junk cid st = (case cid_blkhash st cid of None \<Rightarrow> junk | Some h \<Rightarrow> h)"

definition is_cmd_fetched :: "u256 \<Rightarrow> entity_storage \<Rightarrow> bool" where
  "is_cmd_fetched h st = (cmd_cache st h \<noteq> None)"

definition add_cmd :: "command \<Rightarrow> entity_storage \<Rightarrow> u256 \<times> entity_storage" where
  "add_cmd c st = (cmd_hash c, st\<lparr>cmd_cache := map_insert (cmd_hash c) c (cmd_cache st)\<rparr>)"

definition find_cmd :: "u256 \<Rightarrow> entity_storage \<Rightarrow> command option" where
  "find_cmd h st = cmd_cache st h"

text \<open>The release operations test the reference count of the pointer, which the caller supplies.\<close>

definition try_release_cmd :: "nat \<Rightarrow> command \<Rightarrow> entity_storage \<Rightarrow> bool \<times> entity_storage" where
  "try_release_cmd cnt c st = (if cnt = 2 then (True, st\<lparr>cmd_cache := (cmd_cache st)(cmd_hash c := None)\<rparr>) else (False, st))"

definition try_release_blk :: "nat \<Rightarrow> block \<Rightarrow> entity_storage \<Rightarrow> bool \<times> entity_storage" where
  "try_release_blk cnt b st = (if cnt = 2 then (True, st\<lparr>blk_cache := (blk_cache st)(hash b := None)\<rparr>) else (False, st))"

section \<open>Block round trip\<close>

text \<open>The block a receiver rebuilds: the fields on the wire, the hash of the bytes, defaults elsewhere.\<close>

definition wire_block :: "(byte list \<Rightarrow> byte list) \<Rightarrow> byte list \<Rightarrow> block \<Rightarrow> block" where
  "wire_block sha bs b = empty_block\<lparr>parent_hashes := parent_hashes b, cmds := cmds b, keys := keys b,
     vals := vals b, qc := qc b, extra := extra b, hash := get_hash sha bs\<rparr>"

definition block_printable :: "secp \<Rightarrow> cert_kind \<Rightarrow> block \<Rightarrow> bool" where
  "block_printable lib kind b \<longleftrightarrow>
     (case qc b of None \<Rightarrow> False | Some q \<Rightarrow> qc_ok lib kind q) \<and>
     length (keys b) = length (cmds b) \<and> length (vals b) = length (cmds b) \<and>
     length (parent_hashes b) < 2 ^ 32 \<and> length (cmds b) < 2 ^ 32 \<and> length (extra b) < 2 ^ 32"

lemma reads_count: "reads (get_int 4) (to_le 4 w) (w :: u32)"
  by (rule reads_get_int) simp

lemma reads_hashes: "reads (replicatep (length hs) hash_unserialize) (concat (map hash_serialize hs)) hs"
  by (rule reads_replicatep) (rule hash_unserialize_reads)

lemma reads_ints: "reads (replicatep (length xs) (get_int 4)) (concat (map (to_le 4) xs)) (xs :: u32 list)"
  by (rule reads_replicatep) (rule reads_count)

lemma reads_extra: "length ex < 2 ^ 32 \<Longrightarrow> reads (get_extra (of_nat (length ex))) ex ex"
proof -
  assume l: "length ex < 2 ^ 32"
  then have u: "unat (of_nat (length ex) :: u32) = length ex" by (rule unat_of_nat32)
  show ?thesis
  proof (cases "ex = []")
    case True
    then show ?thesis by (simp add: get_extra_def reads_ret)
  next
    case False
    then have "(of_nat (length ex) :: u32) \<noteq> 0" using u by (metis length_0_conv unsigned_0)
    then show ?thesis using u reads_get_data [of ex] by (simp add: get_extra_def)
  qed
qed

lemma block_serialize_wire:
  "block_serialize lib (empty_block\<lparr>parent_hashes := parent_hashes b, cmds := cmds b, keys := keys b,
     vals := vals b, qc := qc b, extra := extra b\<rparr>) = block_serialize lib b"
  by (simp add: block_serialize_def split: option.split)

lemma block_roundtrip_reads:
  assumes "block_printable lib kind b"
  obtains bs where "block_serialize lib b = Inr bs"
    "reads (block_unserialize lib sha kind) bs (wire_block sha bs b)"
proof -
  obtain q where q: "qc b = Some q" "qc_ok lib kind q"
    using assms by (auto simp: block_printable_def split: option.splits)
  obtain qb where qb: "qc_serialize lib q = Inr qb" "reads (qc_unserialize lib kind) qb q"
    by (rule qc_roundtrip [OF q(2)])
  have kv: "length (keys b) = length (cmds b)" "length (vals b) = length (cmds b)"
    and lp: "length (parent_hashes b) < 2 ^ 32" and lc: "length (cmds b) < 2 ^ 32" and le: "length (extra b) < 2 ^ 32"
    using assms by (auto simp: block_printable_def)
  note u = unat_of_nat32 [OF lp] unat_of_nat32 [OF lc]
  have ks: "reads (replicatep (length (cmds b)) (get_int 4)) (concat (map (to_le 4) (keys b))) (keys b)"
    and vs: "reads (replicatep (length (cmds b)) (get_int 4)) (concat (map (to_le 4) (vals b))) (vals b)"
    using reads_ints [of "keys b"] reads_ints [of "vals b"] kv by simp_all
  define bs where "bs = to_le 4 (of_nat (length (parent_hashes b)) :: u32) @ concat (map hash_serialize (parent_hashes b)) @
     to_le 4 (of_nat (length (cmds b)) :: u32) @ concat (map hash_serialize (cmds b)) @
     concat (map (to_le 4) (keys b)) @ concat (map (to_le 4) (vals b)) @ qb @
     to_le 4 (of_nat (length (extra b)) :: u32) @ extra b"
  have ser: "block_serialize lib b = Inr bs" by (simp add: block_serialize_def q qb bs_def)
  have last: "reads (let b' = empty_block\<lparr>parent_hashes := parent_hashes b, cmds := cmds b, keys := keys b,
        vals := vals b, qc := Some q, extra := extra b\<rparr>
      in bindp (lift (block_hash lib sha b')) (\<lambda>h. ret (b'\<lparr>hash := h\<rparr>))) [] (wire_block sha bs b)"
    using block_serialize_wire [of lib b] ser
    by (simp add: Let_def block_hash_def q(1) reads_ret wire_block_def)
  have "reads (block_unserialize lib sha kind)
     (to_le 4 (of_nat (length (parent_hashes b)) :: u32) @ concat (map hash_serialize (parent_hashes b)) @
      to_le 4 (of_nat (length (cmds b)) :: u32) @ concat (map hash_serialize (cmds b)) @
      concat (map (to_le 4) (keys b)) @ concat (map (to_le 4) (vals b)) @ qb @
      to_le 4 (of_nat (length (extra b)) :: u32) @ extra b @ []) (wire_block sha bs b)"
    unfolding block_unserialize_def
    by (rule reads_bindp [OF reads_count], subst u(1), rule reads_bindp [OF reads_hashes],
        rule reads_bindp [OF reads_count], subst u(2), rule reads_bindp [OF reads_hashes],
        subst u(2), rule reads_bindp [OF ks], subst u(2), rule reads_bindp [OF vs],
        rule reads_bindp [OF qb(2)], rule reads_bindp [OF reads_count], rule reads_bindp [OF reads_extra [OF le]],
        rule last)
  then show ?thesis using that [OF ser] by (simp add: bs_def)
qed

section \<open>Caches\<close>

text \<open>The insert-only tables: an object is filed under its own key, an existing entry wins.\<close>

locale object_cache =
  fixes find :: "'k \<Rightarrow> 's \<Rightarrow> 'v option"
    and add :: "'v \<Rightarrow> 's \<Rightarrow> 'k \<times> 's"
    and key :: "'v \<Rightarrow> 'k"
  assumes add_key: "fst (add v s) = key v"
    and find_add: "find k (snd (add v s)) = (if k = key v \<and> find k s = None then Some v else find k s)"
begin

lemma add_found: "find (fst (add v s)) (snd (add v s)) \<noteq> None"
  by (simp add: add_key find_add)

lemma add_keeps: "find k s = Some w \<Longrightarrow> find k (snd (add v s)) = Some w"
  by (simp add: find_add)

lemma add_all_keeps: "find k s = Some w \<Longrightarrow> find k (fold (\<lambda>v s. snd (add v s)) vs s) = Some w"
  by (induction vs arbitrary: s) (simp_all add: add_keeps)

lemma add_all_first:
  assumes "find k s = None"
  shows "find k (fold (\<lambda>v s. snd (add v s)) vs s) = List.find (\<lambda>v. key v = k) vs"
  using assms
proof (induction vs arbitrary: s)
  case (Cons v vs)
  show ?case
  proof (cases "key v = k")
    case True
    then have "find k (snd (add v s)) = Some v" using Cons.prems by (simp add: find_add)
    then show ?thesis using True by (simp add: add_all_keeps)
  next
    case False
    then have "find k (snd (add v s)) = None" using Cons.prems by (simp add: find_add)
    then show ?thesis using False Cons.IH by simp
  qed
qed simp

text \<open>An invariant of cached objects that only concerns their own key is kept by insertion.\<close>

lemma add_keyed:
  assumes "\<And>k v. find k s = Some v \<Longrightarrow> key v = k"
  shows "find k (snd (add w s)) = Some v \<Longrightarrow> key v = k"
  using assms by (auto simp: find_add split: if_splits)

end

interpretation blks: object_cache find_blk add_blk hash
  by unfold_locales (auto simp: find_blk_def add_blk_def map_insert_def)

interpretation cmdc: object_cache find_cmd add_cmd cmd_hash
  by unfold_locales (auto simp: find_cmd_def add_cmd_def map_insert_def)

lemma find_blk_cid_sound:
  "find_blk_cid ks cid st = Some k \<Longrightarrow> k \<in> set ks \<and> (\<exists>b. find_blk k st = Some b \<and> cid_of_height (height b) = cid)"
  by (induction ks) (auto simp: find_blk_def split: option.splits if_splits)

lemma find_blk_cid_complete:
  assumes "set ks = dom (blk_cache st)"
  shows "find_blk_cid ks cid st = None \<longleftrightarrow> (\<forall>k b. find_blk k st = Some b \<longrightarrow> cid_of_height (height b) \<noteq> cid)"
proof -
  have "find_blk_cid ks cid st = None \<longleftrightarrow>
      (\<forall>k \<in> set ks. \<forall>b. blk_cache st k = Some b \<longrightarrow> cid_of_height (height b) \<noteq> cid)"
    by (induction ks) (auto split: option.splits)
  then show ?thesis using assms by (auto simp: find_blk_def dom_def)
qed

end
