(* ===== verification/Messages.thy ===== *)
theory Messages
  imports Entities
begin

text \<open>
  The protocol messages of \<^verbatim>\<open>consensus.h\<close> and \<^verbatim>\<open>client.h\<close> and their wire formats: \<open>Proposal\<close>, \<open>Vote\<close>,
  \<open>LComplain\<close>, \<open>RComplain\<close>, \<open>recs\<close>, \<open>Finality\<close>, \<open>CommandDummy\<close>, and the bodies of the network messages
  of \<^verbatim>\<open>hotstuff.cpp\<close> built from them. A reader that looks certificates or blocks up takes the
  certificate kind, the library and the storage as arguments in place of the \<open>hsc\<close> handle.
\<close>

section \<open>Votes and complaints\<close>

record vote =
  voter :: replica_id
  v_blk_hash :: u256
  v_cert :: part_cert

definition vote_serialize :: "secp \<Rightarrow> vote \<Rightarrow> byte list" where
  "vote_serialize lib v = to_le 2 (voter v) @ hash_serialize (v_blk_hash v) @ pc_serialize lib (v_cert v)"

definition vote_unserialize :: "secp \<Rightarrow> cert_kind \<Rightarrow> (data_stream, vote) prog" where
  "vote_unserialize lib kind =
     bindp (get_int 2) (\<lambda>r. bindp hash_unserialize (\<lambda>h. bindp (pc_unserialize lib kind) (\<lambda>pc.
     ret \<lparr>voter = r, v_blk_hash = h, v_cert = pc\<rparr>)))"

definition vote_verify :: "secp \<Rightarrow> replica_config \<Rightarrow> vote \<Rightarrow> err + bool" where
  "vote_verify lib cfg v =
     ebind (get_pubkey cfg (voter v)) (\<lambda>pk.
     ebind (pc_verify lib (v_cert v) pk) (\<lambda>ok.
     Inr (ok \<and> pc_obj_hash (v_cert v) = v_blk_hash v)))"

text \<open>\<open>LComplain\<close> and \<open>RComplain\<close> have the same members and the same code.\<close>

record complain =
  c_voter :: replica_id
  c_blk_height :: i32
  c_blk_hash :: u256
  c_cert :: part_cert

definition complain_serialize :: "secp \<Rightarrow> complain \<Rightarrow> byte list" where
  "complain_serialize lib c = to_le 2 (c_voter c) @ to_le 4 (c_blk_height c) @
     hash_serialize (c_blk_hash c) @ pc_serialize lib (c_cert c)"

definition complain_unserialize :: "secp \<Rightarrow> cert_kind \<Rightarrow> (data_stream, complain) prog" where
  "complain_unserialize lib kind =
     bindp (get_int 2) (\<lambda>r. bindp (get_int 4) (\<lambda>n. bindp hash_unserialize (\<lambda>h.
     bindp (pc_unserialize lib kind) (\<lambda>pc.
     ret \<lparr>c_voter = r, c_blk_height = n, c_blk_hash = h, c_cert = pc\<rparr>))))"

definition complain_verify :: "secp \<Rightarrow> replica_config \<Rightarrow> complain \<Rightarrow> err + bool" where
  "complain_verify lib cfg c =
     ebind (get_pubkey cfg (c_voter c)) (\<lambda>pk.
     ebind (pc_verify lib (c_cert c) pk) (\<lambda>ok.
     Inr (ok \<and> pc_obj_hash (c_cert c) = c_blk_hash c)))"

section \<open>Reconfiguration requests\<close>

record recs =
  r_cluster_number :: i32
  r_node_number :: i32
  r_reconfig_mode :: i32

definition recs_new :: recs where
  "recs_new = \<lparr>r_cluster_number = - 1, r_node_number = - 1, r_reconfig_mode = - 1\<rparr>"

definition recs_serialize :: "recs \<Rightarrow> byte list" where
  "recs_serialize r = to_le 4 (r_cluster_number r) @ to_le 4 (r_node_number r) @ to_le 4 (r_reconfig_mode r)"

definition recs_unserialize :: "(data_stream, recs) prog" where
  "recs_unserialize =
     bindp (get_int 4) (\<lambda>c. bindp (get_int 4) (\<lambda>n. bindp (get_int 4) (\<lambda>m.
     ret \<lparr>r_cluster_number = c, r_node_number = n, r_reconfig_mode = m\<rparr>)))"

definition recs_eq :: "recs \<Rightarrow> recs \<Rightarrow> bool" where
  "recs_eq a b \<longleftrightarrow> r_cluster_number a = r_cluster_number b \<and> r_node_number a = r_node_number b \<and>
     r_reconfig_mode a = r_reconfig_mode b"

text \<open>\<open>MsgRecsAggEchoReady\<close>: a request, the phase and the reconfiguration counter.\<close>

record recs_msg =
  rm_recs :: recs
  rm_type :: i32
  rm_reconfig_count :: i32

definition recs_msg_serialize :: "recs_msg \<Rightarrow> byte list" where
  "recs_msg_serialize m = recs_serialize (rm_recs m) @ to_le 4 (rm_type m) @ to_le 4 (rm_reconfig_count m)"

definition recs_msg_unserialize :: "(data_stream, recs_msg) prog" where
  "recs_msg_unserialize =
     bindp recs_unserialize (\<lambda>r. bindp (get_int 4) (\<lambda>t. bindp (get_int 4) (\<lambda>c.
     ret \<lparr>rm_recs = r, rm_type = t, rm_reconfig_count = c\<rparr>)))"

section \<open>Finality\<close>

record finality =
  f_rid :: replica_id
  f_decision :: "8 word"
  f_cmd_idx :: u32
  f_cmd_height :: u32
  f_cmd_hash :: u256
  f_blk_hash :: u256

definition finality_serialize :: "finality \<Rightarrow> byte list" where
  "finality_serialize f = to_le 2 (f_rid f) @ to_le 1 (f_decision f) @ to_le 4 (f_cmd_idx f) @
     to_le 4 (f_cmd_height f) @ hash_serialize (f_cmd_hash f) @
     (if f_decision f = 1 then hash_serialize (f_blk_hash f) else [])"

text \<open>The block hash of the default-constructed target (a null blob) stays when it is not on the
  wire.\<close>

definition finality_unserialize :: "(data_stream, finality) prog" where
  "finality_unserialize =
     bindp (get_int 2) (\<lambda>r. bindp (get_int 1) (\<lambda>d. bindp (get_int 4) (\<lambda>i. bindp (get_int 4) (\<lambda>hh.
     bindp hash_unserialize (\<lambda>c. bindp (if d = 1 then hash_unserialize else ret 0) (\<lambda>b.
     ret \<lparr>f_rid = r, f_decision = d, f_cmd_idx = i, f_cmd_height = hh, f_cmd_hash = c, f_blk_hash = b\<rparr>))))))"

section \<open>Client commands\<close>

definition cmd_reqsize :: nat where
  "cmd_reqsize = 1024"

record command_dummy =
  cd_cid :: u32
  cd_n :: u32
  cd_key :: u32
  cd_value :: u32
  cd_cluster_num :: u32
  cd_node_num :: u32
  cd_reconfig_mode :: u32
  cd_payload :: "byte list"
  cd_hash :: u256

definition command_serialize :: "command_dummy \<Rightarrow> byte list" where
  "command_serialize c = to_le 4 (cd_cid c) @ to_le 4 (cd_n c) @ to_le 4 (cd_key c) @ to_le 4 (cd_value c) @
     to_le 4 (cd_cluster_num c) @ to_le 4 (cd_node_num c) @ to_le 4 (cd_reconfig_mode c) @ cd_payload c"

definition command_hash :: "(byte list \<Rightarrow> byte list) \<Rightarrow> command_dummy \<Rightarrow> command_dummy" where
  "command_hash sha c = c\<lparr>cd_hash := get_hash sha (command_serialize c)\<rparr>"

text \<open>The constructors leave the payload array uninitialised (\<open>junk\<close>).\<close>

definition command_new ::
  "(byte list \<Rightarrow> byte list) \<Rightarrow> byte list \<Rightarrow> u32 \<Rightarrow> u32 \<Rightarrow> u32 \<Rightarrow> u32 \<Rightarrow> u32 \<Rightarrow> u32 \<Rightarrow> u32 \<Rightarrow> command_dummy" where
  "command_new sha junk cid n k v cn nn rm = command_hash sha
     \<lparr>cd_cid = cid, cd_n = n, cd_key = k, cd_value = v, cd_cluster_num = cn, cd_node_num = nn,
      cd_reconfig_mode = rm, cd_payload = junk, cd_hash = 0\<rparr>"

definition command_unserialize :: "(byte list \<Rightarrow> byte list) \<Rightarrow> (data_stream, command_dummy) prog" where
  "command_unserialize sha =
     bindp (get_int 4) (\<lambda>cid. bindp (get_int 4) (\<lambda>n. bindp (get_int 4) (\<lambda>k. bindp (get_int 4) (\<lambda>v.
     bindp (get_int 4) (\<lambda>cn. bindp (get_int 4) (\<lambda>nn. bindp (get_int 4) (\<lambda>rm.
     bindp (get_data_inplace cmd_reqsize) (\<lambda>p.
     ret (command_hash sha \<lparr>cd_cid = cid, cd_n = n, cd_key = k, cd_value = v, cd_cluster_num = cn,
       cd_node_num = nn, cd_reconfig_mode = rm, cd_payload = p, cd_hash = 0\<rparr>)))))))))"

text \<open>The accessors: \<open>get_cid\<close> returns the member \<open>n\<close>.\<close>

definition as_command :: "command_dummy \<Rightarrow> command" where
  "as_command c = \<lparr>cmd_hash = cd_hash c, cmd_cid = cd_n c, cmd_key = cd_key c, cmd_val = cd_value c,
     cmd_cluster_num = cd_cluster_num c, cmd_node_num = cd_node_num c, cmd_reconfig_mode = cd_reconfig_mode c\<rparr>"

section \<open>Proposals\<close>

text \<open>The peer set is kept in its iteration order; inserting an element that is present changes
  nothing.\<close>

record proposal =
  p_proposer :: replica_id
  p_blk :: "u256 option"
  p_cluster_number :: u32
  p_pre_amp_cluster_number :: u32
  p_other_cluster_block_height :: u32
  p_msg_type :: u32
  p_current_peer_set :: "i32 list"
  p_reconfig_count :: u32

text \<open>The three-argument constructor initialises neither the cluster numbers nor \<open>msg_type\<close> nor
  \<open>reconfig_count\<close>: they keep what the memory held (\<open>junk\<close>).\<close>

definition proposal_new3 :: "proposal \<Rightarrow> replica_id \<Rightarrow> u256 \<Rightarrow> proposal" where
  "proposal_new3 junk r b = junk\<lparr>p_proposer := r, p_blk := Some b, p_other_cluster_block_height := - 1,
     p_current_peer_set := []\<rparr>"

text \<open>The seven-argument constructor initialises all but \<open>reconfig_count\<close>.\<close>

definition proposal_new7 ::
  "proposal \<Rightarrow> replica_id \<Rightarrow> u256 option \<Rightarrow> u32 \<Rightarrow> u32 \<Rightarrow> u32 \<Rightarrow> u32 \<Rightarrow> proposal" where
  "proposal_new7 junk r b c pa och mt = \<lparr>p_proposer = r, p_blk = b, p_cluster_number = c,
     p_pre_amp_cluster_number = pa, p_other_cluster_block_height = och, p_msg_type = mt,
     p_current_peer_set = [], p_reconfig_count = p_reconfig_count junk\<rparr>"

definition proposal_new9 ::
  "replica_id \<Rightarrow> u256 option \<Rightarrow> u32 \<Rightarrow> u32 \<Rightarrow> u32 \<Rightarrow> u32 \<Rightarrow> i32 list \<Rightarrow> i32 \<Rightarrow> proposal" where
  "proposal_new9 r b c pa och mt peers rc = \<lparr>p_proposer = r, p_blk = b, p_cluster_number = c,
     p_pre_amp_cluster_number = pa, p_other_cluster_block_height = och, p_msg_type = mt,
     p_current_peer_set = peers, p_reconfig_count = rc\<rparr>"

definition peer_insert :: "i32 \<Rightarrow> i32 list \<Rightarrow> i32 list" where
  "peer_insert x xs = (if x \<in> set xs then xs else xs @ [x])"

definition proposal_head :: "proposal \<Rightarrow> byte list" where
  "proposal_head p = to_le 4 (p_cluster_number p) @ to_le 4 (p_pre_amp_cluster_number p) @
     to_le 4 (p_other_cluster_block_height p) @ to_le 4 (p_msg_type p) @ to_le 2 (p_proposer p)"

definition proposal_tail :: "proposal \<Rightarrow> byte list" where
  "proposal_tail p = to_le 8 (of_nat (length (p_current_peer_set p)) :: u64) @
     concat (map (to_le 4) (p_current_peer_set p)) @ to_le 4 (p_reconfig_count p)"

definition proposal_serialize :: "secp \<Rightarrow> entity_storage \<Rightarrow> proposal \<Rightarrow> err + byte list" where
  "proposal_serialize lib st p = (case p_blk p of None \<Rightarrow> Inl UndefinedBehaviour
     | Some k \<Rightarrow> (case find_blk k st of None \<Rightarrow> Inl UndefinedBehaviour
       | Some b \<Rightarrow> ebind (block_serialize lib b) (\<lambda>bs. Inr (proposal_head p @ bs @ proposal_tail p))))"

definition on_stream :: "(data_stream, 'a) prog \<Rightarrow> (data_stream \<times> 's, 'a) prog" where
  "on_stream m = (\<lambda>(d, s). case m d of (r, d') \<Rightarrow> (r, (d', s)))"

definition read_proposal_head :: "(data_stream, proposal) prog" where
  "read_proposal_head =
     bindp (get_int 4) (\<lambda>c. bindp (get_int 4) (\<lambda>pa. bindp (get_int 4) (\<lambda>och. bindp (get_int 4) (\<lambda>mt.
     bindp (get_int 2) (\<lambda>r. ret (proposal_new9 r None c pa och mt [] 0))))))"

definition read_proposal_tail :: "(data_stream, i32 list \<times> u32) prog" where
  "read_proposal_tail =
     bindp (get_int 8 :: (data_stream, u64) prog) (\<lambda>n. bindp (replicatep (unat n) (get_int 4)) (\<lambda>xs.
     bindp (get_int 4) (\<lambda>rc. ret (fold peer_insert xs [], rc))))"

text \<open>The block is filed in the storage before the rest of the message is read, unless the message
  type is 9; then the block pointer stays null.\<close>

definition proposal_unserialize ::
  "secp \<Rightarrow> (byte list \<Rightarrow> byte list) \<Rightarrow> cert_kind \<Rightarrow> (data_stream \<times> entity_storage, proposal) prog" where
  "proposal_unserialize lib sha kind =
     bindp (on_stream read_proposal_head) (\<lambda>p.
     bindp (on_stream (block_unserialize lib sha kind)) (\<lambda>b.
     bindp (if p_msg_type p \<noteq> 9
            then (\<lambda>(d, st). let (k, st') = add_blk b st in (Inr (Some k), (d, st')))
            else ret None) (\<lambda>k.
     bindp (on_stream read_proposal_tail) (\<lambda>(peers, rc).
     ret (p\<lparr>p_blk := k, p_current_peer_set := peers, p_reconfig_count := rc\<rparr>)))))"

section \<open>Block requests and responses\<close>

definition req_block_serialize :: "u256 list \<Rightarrow> byte list" where
  "req_block_serialize hs = to_le 4 (of_nat (length hs) :: u32) @ concat (map hash_serialize hs)"

definition req_block_unserialize :: "(data_stream, u256 list) prog" where
  "req_block_unserialize =
     bindp (get_int 4 :: (data_stream, u32) prog) (\<lambda>n. replicatep (unat n) hash_unserialize)"

fun blocks_serialize :: "secp \<Rightarrow> block list \<Rightarrow> err + byte list" where
  "blocks_serialize lib [] = Inr []"
| "blocks_serialize lib (b # bs) =
     ebind (block_serialize lib b) (\<lambda>x. ebind (blocks_serialize lib bs) (\<lambda>y. Inr (x @ y)))"

definition resp_block_serialize :: "secp \<Rightarrow> block list \<Rightarrow> err + byte list" where
  "resp_block_serialize lib bs =
     ebind (blocks_serialize lib bs) (\<lambda>x. Inr (to_le 4 (of_nat (length bs) :: u32) @ x))"

text \<open>Each block is filed as soon as it is parsed.\<close>

definition resp_block_parse ::
  "secp \<Rightarrow> (byte list \<Rightarrow> byte list) \<Rightarrow> cert_kind \<Rightarrow> (data_stream \<times> entity_storage, u256 list) prog" where
  "resp_block_parse lib sha kind =
     bindp (on_stream (get_int 4 :: (data_stream, u32) prog)) (\<lambda>n.
     replicatep (unat n)
       (bindp (on_stream (block_unserialize lib sha kind)) (\<lambda>b (d, st).
          let (k, st') = add_blk b st in (Inr k, (d, st')))))"

section \<open>Round trips\<close>

lemma reads_u16: "reads (get_int 2) (to_le 2 w) (w :: u16)"
  by (rule reads_get_int) simp

lemma reads_u8: "reads (get_int 1) (to_le 1 w) (w :: 8 word)"
  by (rule reads_get_int) simp

lemma reads_u64: "reads (get_int 8) (to_le 8 w) (w :: u64)"
  by (rule reads_get_int) simp

lemmas reads_ints_of_width = reads_u8 reads_u16 reads_count reads_u64

interpretation votes: wire_format "\<lambda>v. pc_ok lib kind (v_cert v)" "vote_serialize lib" "vote_unserialize lib kind"
  for lib kind
proof
  fix v :: vote
  assume "pc_ok lib kind (v_cert v)"
  then show "reads (vote_unserialize lib kind) (vote_serialize lib v) v"
    unfolding vote_unserialize_def vote_serialize_def
    by (intro reads_bindp [OF reads_u16] reads_bindp [OF hash_unserialize_reads]
        reads_final [OF pc_unserialize_reads]) simp_all
qed

interpretation complains: wire_format "\<lambda>c. pc_ok lib kind (c_cert c)" "complain_serialize lib"
  "complain_unserialize lib kind" for lib kind
proof
  fix c :: complain
  assume "pc_ok lib kind (c_cert c)"
  then show "reads (complain_unserialize lib kind) (complain_serialize lib c) c"
    unfolding complain_unserialize_def complain_serialize_def
    by (intro reads_bindp [OF reads_u16] reads_bindp [OF reads_count] reads_bindp [OF hash_unserialize_reads]
        reads_final [OF pc_unserialize_reads]) simp_all
qed

lemma recs_unserialize_reads: "reads recs_unserialize (recs_serialize r) r"
  unfolding recs_unserialize_def recs_serialize_def
  by (intro reads_bindp [OF reads_count] reads_final [OF reads_count]) simp

interpretation recsw: wire_format "\<lambda>_. True" recs_serialize recs_unserialize
  by unfold_locales (rule recs_unserialize_reads)

interpretation recs_msgs: wire_format "\<lambda>_. True" recs_msg_serialize recs_msg_unserialize
proof
  fix m :: recs_msg
  show "reads recs_msg_unserialize (recs_msg_serialize m) m"
    unfolding recs_msg_unserialize_def recs_msg_serialize_def
    by (intro reads_bindp [OF recs_unserialize_reads] reads_bindp [OF reads_count] reads_final [OF reads_count]) simp
qed

text \<open>The block hash of a negative decision is not transmitted.\<close>

interpretation fins: wire_format "\<lambda>f. f_decision f = 1 \<or> f_blk_hash f = 0" finality_serialize finality_unserialize
proof
  fix f :: finality
  assume ok: "f_decision f = 1 \<or> f_blk_hash f = 0"
  have b: "reads (if f_decision f = 1 then hash_unserialize else ret 0)
      (if f_decision f = 1 then hash_serialize (f_blk_hash f) else []) (f_blk_hash f)"
    using ok by (auto simp: hash_unserialize_reads reads_ret)
  show "reads finality_unserialize (finality_serialize f) f"
    unfolding finality_unserialize_def finality_serialize_def
    by (intro reads_bindp [OF reads_u16] reads_bindp [OF reads_u8] reads_bindp [OF reads_count]
        reads_bindp [OF hash_unserialize_reads] reads_final [OF b]) simp
qed

interpretation commands: wire_format "\<lambda>c. length (cd_payload c) = cmd_reqsize \<and> command_hash sha c = c"
  command_serialize "command_unserialize sha" for sha
proof
  fix c :: command_dummy
  assume ok: "length (cd_payload c) = cmd_reqsize \<and> command_hash sha c = c"
  have p: "reads (get_data_inplace cmd_reqsize) (cd_payload c) (cd_payload c)"
    using ok reads_get_data [of "cd_payload c"] by simp
  have c: "c = command_hash sha \<lparr>cd_cid = cd_cid c, cd_n = cd_n c, cd_key = cd_key c, cd_value = cd_value c,
      cd_cluster_num = cd_cluster_num c, cd_node_num = cd_node_num c, cd_reconfig_mode = cd_reconfig_mode c,
      cd_payload = cd_payload c, cd_hash = 0\<rparr>"
    using ok by (cases c) (simp add: command_hash_def command_serialize_def)
  show "reads (command_unserialize sha) (command_serialize c) c"
    unfolding command_unserialize_def command_serialize_def
    by (intro reads_bindp [OF reads_count] reads_final [OF p] c)
qed

interpretation req_blocks: wire_format "\<lambda>hs. length hs < 2 ^ 32" req_block_serialize req_block_unserialize
proof
  fix hs :: "u256 list"
  assume l: "length hs < 2 ^ 32"
  show "reads req_block_unserialize (req_block_serialize hs) hs"
    unfolding req_block_unserialize_def req_block_serialize_def
    by (rule reads_bindp [OF reads_count], subst unat_of_nat32 [OF l], rule reads_hashes)
qed

subsection \<open>Proposals\<close>

lemma fold_peer_insert: "distinct (ys @ xs) \<Longrightarrow> fold peer_insert xs ys = ys @ xs"
  by (induction xs arbitrary: ys) (simp_all add: peer_insert_def)

lemma proposal_head_reads:
  "reads read_proposal_head (proposal_head p) (p\<lparr>p_blk := None, p_current_peer_set := [], p_reconfig_count := 0\<rparr>)"
  unfolding read_proposal_head_def proposal_head_def
  by (intro reads_bindp [OF reads_count] reads_final [OF reads_u16]) (simp add: proposal_new9_def)

lemma proposal_tail_reads:
  assumes "distinct (p_current_peer_set p)" and "length (p_current_peer_set p) < 2 ^ 64"
  shows "reads read_proposal_tail (proposal_tail p) (p_current_peer_set p, p_reconfig_count p)"
proof -
  have u: "unat (of_nat (length (p_current_peer_set p)) :: u64) = length (p_current_peer_set p)"
    using assms(2) by (simp add: unat_of_nat)
  show ?thesis
    unfolding read_proposal_tail_def proposal_tail_def
    by (rule reads_bindp [OF reads_u64], subst u, rule reads_bindp [OF reads_ints], rule reads_final [OF reads_count])
      (use assms(1) fold_peer_insert [of "[]"] in simp)
qed

text \<open>Running an exact reader on the stream half of the state.\<close>

lemma on_stream_reads:
  assumes "reads m bs x" and "ds_bytes d = bs @ rest" and "offset d \<le> length (buffer d)"
  shows "on_stream m (d, st) = (Inr x, (d\<lparr>offset := offset d + length bs\<rparr>, st)) \<and>
    ds_bytes (d\<lparr>offset := offset d + length bs\<rparr>) = rest \<and>
    offset d + length bs \<le> length (buffer d)"
  using assms ds_bytes_advance [OF assms(2)] ds_bytes_length [OF assms(2,3)]
  by (simp add: on_stream_def reads_def)

definition proposal_printable :: "secp \<Rightarrow> cert_kind \<Rightarrow> block \<Rightarrow> proposal \<Rightarrow> bool" where
  "proposal_printable lib kind b p \<longleftrightarrow> block_printable lib kind b \<and> distinct (p_current_peer_set p) \<and>
     length (p_current_peer_set p) < 2 ^ 64"

lemma proposal_roundtrip:
  assumes "find_blk k st0 = Some b" and "p_blk p = Some k" and "proposal_printable lib kind b p"
  obtains bs bb where "proposal_serialize lib st0 p = Inr bs" "block_serialize lib b = Inr bb"
    "proposal_unserialize lib sha kind (put_data bs ds_new, st) =
      (let w = wire_block sha bb b
       in (Inr (p\<lparr>p_blk := if p_msg_type p = 9 then None else Some (hash w)\<rparr>),
           (\<lparr>buffer = bs, offset = length bs\<rparr>, if p_msg_type p = 9 then st else snd (add_blk w st))))"
proof -
  have pr: "block_printable lib kind b" using assms(3) by (simp add: proposal_printable_def)
  obtain bb where bb: "block_serialize lib b = Inr bb" "reads (block_unserialize lib sha kind) bb (wire_block sha bb b)"
    by (rule block_roundtrip_reads [OF pr])
  define bs where "bs = proposal_head p @ bb @ proposal_tail p"
  have ser: "proposal_serialize lib st0 p = Inr bs" using assms bb by (simp add: proposal_serialize_def bs_def)
  define d0 where "d0 = put_data bs ds_new"
  define d1 where "d1 = d0\<lparr>offset := offset d0 + length (proposal_head p)\<rparr>"
  define d2 where "d2 = d1\<lparr>offset := offset d1 + length bb\<rparr>"
  define d3 where "d3 = d2\<lparr>offset := offset d2 + length (proposal_tail p)\<rparr>"
  have b0: "ds_bytes d0 = proposal_head p @ bb @ proposal_tail p" "offset d0 \<le> length (buffer d0)"
    by (simp_all add: d0_def put_data_def ds_new_def ds_bytes_def bs_def)
  note r1 = on_stream_reads [OF proposal_head_reads b0, where st = st, folded d1_def]
  have b1: "ds_bytes d1 = bb @ proposal_tail p" "offset d1 \<le> length (buffer d1)" using r1 by (simp_all add: d1_def)
  note r2 = on_stream_reads [OF bb(2) b1, where st = st, folded d2_def]
  have b2: "ds_bytes d2 = proposal_tail p @ []" "offset d2 \<le> length (buffer d2)" using r2 by (simp_all add: d2_def)
  have "reads read_proposal_tail (proposal_tail p) (p_current_peer_set p, p_reconfig_count p)"
    using assms(3) by (intro proposal_tail_reads) (simp_all add: proposal_printable_def)
  then have r3: "on_stream read_proposal_tail (d2, st') = (Inr (p_current_peer_set p, p_reconfig_count p), (d3, st'))" for st' :: entity_storage
    unfolding d3_def by (rule on_stream_reads [OF _ b2, THEN conjunct1])
  have d3: "d3 = \<lparr>buffer = bs, offset = length bs\<rparr>"
    by (simp add: d3_def d2_def d1_def d0_def put_data_def ds_new_def bs_def)
  have "proposal_unserialize lib sha kind (d0, st) =
      (let w = wire_block sha bb b
       in (Inr (p\<lparr>p_blk := if p_msg_type p = 9 then None else Some (hash w)\<rparr>),
           (d3, if p_msg_type p = 9 then st else snd (add_blk w st))))"
    unfolding proposal_unserialize_def
    using r1 r2 r3 by (simp add: bindp_def ret_def Let_def add_blk_def)
  then show ?thesis using that [OF ser bb(1)] by (simp add: d3 d0_def)
qed

end
