(* ===== verification/Consensus_Core.thy ===== *)
theory Consensus_Core
  imports Messages
begin

text \<open>
  \<open>HotStuffCore\<close> (\<^verbatim>\<open>consensus.h\<close>, \<^verbatim>\<open>consensus.cpp\<close>): the protocol state machine. The state is an
  extensible record, so that \<open>HotStuffBase\<close> and the pace maker can add their own members; the
  virtual functions and the promise resolutions are the members of a \<open>vtable\<close>, which every
  operation that calls one of them takes as its first argument (\<open>vt_on_proposed\<close> and
  \<open>vt_on_proposal_received\<close> stand for \<^verbatim>\<open>on_propose_\<close> and \<^verbatim>\<open>on_receive_proposal_\<close>).

  Blocks are named by their hashes (see \<^verbatim>\<open>Entities\<close>). The fields \<open>qc_ref\<close> and \<open>parents\<close> that \<open>update\<close>
  binds as references are read once: no operation assigns them after delivery.
\<close>

section \<open>State\<close>

text \<open>Three fields are not members of the class. \<open>hqc_tail\<close> belongs to the pace maker (\<open>PMHighTail\<close>); it
  is kept here so that one invariant can speak about every block pointer of the replica. \<open>vote_log\<close>
  records each block the replica decided to vote for together with the lock it held then, \<open>own_name\<close>
  whether a proposal under the replica's own name was taken from the network; no operation reads
  them.\<close>

record core =
  b0 :: u256
  hqc :: "(u256 \<times> quorum_cert) option"
  b_lock :: u256
  b_exec :: u256
  vheight :: u32
  core_cluster_id :: i32
  priv_key :: "byte list"
  tails :: "u256 set"
  config :: replica_config
  vote_disabled :: bool
  core_id :: replica_id
  storage :: entity_storage
  hqc_tail :: u256
  vote_log :: "(u256 \<times> u256) list"
  own_name :: bool

record 's vtable =
  vt_do_decide :: "finality \<Rightarrow> i32 \<Rightarrow> i32 \<Rightarrow> ('s, unit) prog"
  vt_do_consensus :: "u256 \<Rightarrow> ('s, unit) prog"
  vt_do_broadcast_proposal :: "proposal \<Rightarrow> ('s, unit) prog"
  vt_do_broadcast_proposal_other_clusters :: "proposal \<Rightarrow> ('s, unit) prog"
  vt_send_LComplain :: "replica_id \<Rightarrow> complain \<Rightarrow> ('s, unit) prog"
  vt_send_RComplain :: "replica_id \<Rightarrow> complain \<Rightarrow> ('s, unit) prog"
  vt_send_RComplain_local :: "replica_id \<Rightarrow> complain \<Rightarrow> ('s, unit) prog"
  vt_get_leave_set :: "('s, i32 \<times> i32 list) prog"
  vt_start_remote_view_change_timer :: "int \<Rightarrow> u256 \<Rightarrow> ('s, unit) prog"
  vt_reset_remote_view_change_timer :: "int \<Rightarrow> ('s, unit) prog"
  vt_did_receive_mc :: "int \<Rightarrow> ('s, bool) prog"
  vt_update_finished_update_cids :: "int \<Rightarrow> ('s, unit) prog"
  vt_store_in_map_for_mc :: "u256 \<Rightarrow> ('s, unit) prog"
  vt_check_leader :: "('s, bool) prog"
  vt_do_vote :: "replica_id \<Rightarrow> vote \<Rightarrow> ('s, unit) prog"
  vt_create_part_cert :: "byte list \<Rightarrow> u256 \<Rightarrow> ('s, part_cert) prog"
  vt_create_quorum_cert :: "u256 \<Rightarrow> ('s, quorum_cert) prog"
  vt_on_hqc_update :: "('s, unit) prog"
  vt_on_qc_finish :: "u256 \<Rightarrow> ('s, unit) prog"
  vt_on_proposed :: "proposal \<Rightarrow> ('s, unit) prog"
  vt_on_proposal_received :: "proposal \<Rightarrow> ('s, unit) prog"

text \<open>Dereferencing a block pointer and assigning through it.\<close>

definition cache :: "'x core_scheme \<Rightarrow> u256 \<rightharpoonup> block" where
  "cache s = blk_cache (storage s)"

definition deref :: "u256 \<Rightarrow> ('x core_scheme, block) prog" where
  "deref k = (\<lambda>s. case cache s k of None \<Rightarrow> (Inl UndefinedBehaviour, s) | Some b \<Rightarrow> (Inr b, s))"

definition set_cache :: "(u256 \<rightharpoonup> block) \<Rightarrow> 'x core_scheme \<Rightarrow> 'x core_scheme" where
  "set_cache c s = s\<lparr>storage := (storage s)\<lparr>blk_cache := c\<rparr>\<rparr>"

definition assign :: "u256 \<Rightarrow> (block \<Rightarrow> block) \<Rightarrow> ('x core_scheme, unit) prog" where
  "assign k f = bindp (deref k) (\<lambda>b. modify (\<lambda>s. set_cache ((cache s)(k \<mapsto> f b)) s))"

definition parent0 :: "block \<Rightarrow> ('s, u256) prog" where
  "parent0 b = (case parents b of [] \<Rightarrow> throw UndefinedBehaviour | p # ps \<Rightarrow> ret p)"

section \<open>Construction and configuration\<close>

definition core_new ::
  "secp \<Rightarrow> (byte list \<Rightarrow> byte list) \<Rightarrow> replica_id \<Rightarrow> i32 \<Rightarrow> byte list \<Rightarrow> err + core" where
  "core_new lib sha rid cid sk =
     ebind (block_genesis lib sha True 1) (\<lambda>g.
     Inr \<lparr>b0 = hash g, hqc = None, b_lock = hash g, b_exec = hash g, vheight = 0, core_cluster_id = cid,
       priv_key = sk, tails = {hash g}, config = config_new, vote_disabled = False, core_id = rid,
       storage = snd (add_blk g storage_new), hqc_tail = hash g, vote_log = [],
       own_name = False\<rparr>)"

definition on_init :: "'x core_scheme vtable \<Rightarrow> u32 \<Rightarrow> ('x core_scheme, unit) prog" where
  "on_init vt nfaulty =
     seqp (modify (\<lambda>s. s\<lparr>config := (config s)\<lparr>nmajority :=
       nat ((int (nreplicas (config s)) - uint nfaulty) mod 2 ^ 64)\<rparr>\<rparr>))
     (bindp (gets b0) (\<lambda>g.
      bindp (deref g) (\<lambda>gb.
      bindp (vt_create_quorum_cert vt (hash gb)) (\<lambda>q.
      seqp (assign g (\<lambda>b. b\<lparr>qc := Some (qc_compute q)\<rparr>))
      (seqp (assign g (\<lambda>b. b\<lparr>self_qc := Some (qc_compute q)\<rparr>))
      (seqp (assign g (\<lambda>b. b\<lparr>qc_ref := Some g\<rparr>))
      (modify (\<lambda>s. s\<lparr>hqc := Some (g, qc_compute q)\<rparr>))))))))"

definition update_config_parameters :: "u256 list \<Rightarrow> ('x core_scheme, unit) prog" where
  "update_config_parameters peers =
     modify (\<lambda>s. s\<lparr>config := (config s)\<lparr>nreplicas := length peers + 1,
       nmajority := nat ((int (length peers + 1) - int (length peers div 3)) mod 2 ^ 64)\<rparr>\<rparr>)"

definition core_add_replica :: "replica_id \<Rightarrow> u256 \<Rightarrow> byte list \<Rightarrow> ('x core_scheme, unit) prog" where
  "core_add_replica rid peer pk =
     seqp (modify (\<lambda>s. s\<lparr>config := config_add_replica rid \<lparr>ri_id = rid, ri_peer_id = peer, ri_pubkey = pk\<rparr> (config s)\<rparr>))
     (bindp (gets b0) (\<lambda>g. assign g (\<lambda>b. b\<lparr>voted := insert rid (voted b)\<rparr>)))"

definition set_vote_disabled :: "bool \<Rightarrow> ('x core_scheme, unit) prog" where
  "set_vote_disabled f = modify (\<lambda>s. s\<lparr>vote_disabled := f\<rparr>)"

text \<open>Filing a block received from the network (\<open>hsc->storage->add_blk\<close>).\<close>

definition core_add_blk :: "block \<Rightarrow> ('x core_scheme, u256) prog" where
  "core_add_blk b = (\<lambda>s. let (k, st) = add_blk b (storage s) in (Inr k, s\<lparr>storage := st\<rparr>))"

section \<open>Delivery\<close>

definition sanity_check_delivered :: "u256 \<Rightarrow> ('x core_scheme, unit) prog" where
  "sanity_check_delivered k = bindp (deref k) (\<lambda>b. if \<not> delivered b then throw BlockNotDelivered else ret ())"

definition get_delivered_blk :: "u256 \<Rightarrow> ('x core_scheme, u256) prog" where
  "get_delivered_blk h = bindp (gets (\<lambda>s. find_blk h (storage s))) (\<lambda>r. case r of
      None \<Rightarrow> throw BlockNotDelivered
    | Some b \<Rightarrow> if \<not> delivered b then throw BlockNotDelivered else ret h)"

definition set_qc_ref :: "u256 \<Rightarrow> ('x core_scheme, unit) prog" where
  "set_qc_ref k = bindp (deref k) (\<lambda>b. case qc b of
      None \<Rightarrow> ret ()
    | Some q \<Rightarrow> bindp (gets (\<lambda>s. find_blk (qc_obj_hash q) (storage s))) (\<lambda>r. case r of
          None \<Rightarrow> throw QcBlockNotFetched
        | Some _ \<Rightarrow> assign k (\<lambda>b. b\<lparr>qc_ref := Some (qc_obj_hash q)\<rparr>)))"

definition on_deliver_blk :: "'x core_scheme vtable \<Rightarrow> u256 \<Rightarrow> ('x core_scheme, bool) prog" where
  "on_deliver_blk vt k = bindp (deref k) (\<lambda>b.
     if delivered b then ret False
     else
       seqp (assign k (\<lambda>b. b\<lparr>parents := []\<rparr>))
       (seqp (forp (parent_hashes b) (\<lambda>h. bindp (get_delivered_blk h) (\<lambda>p.
                assign k (\<lambda>b. b\<lparr>parents := parents b @ [p]\<rparr>))))
       (bindp (deref k) (\<lambda>b. bindp (parent0 b) (\<lambda>p. bindp (deref p) (\<lambda>pb.
        seqp (assign k (\<lambda>b. b\<lparr>height := height pb + 1\<rparr>))
       (seqp (set_qc_ref k)
       (seqp (modify (\<lambda>s. s\<lparr>tails := insert k (tails s - set (parents b))\<rparr>))
       (seqp (assign k (\<lambda>b. b\<lparr>delivered := True\<rparr>))
       (seqp (vt_store_in_map_for_mc vt k)
       (ret True)))))))))))"

section \<open>Walking up a branch\<close>

text \<open>\<open>for (b = b_start; b->height > h; b = b->parents[0])\<close>, collecting the blocks passed. The height
  drops by one at each step, so \<open>Suc\<close> of the starting height is enough fuel.\<close>

fun walk :: "nat \<Rightarrow> (u256 \<rightharpoonup> block) \<Rightarrow> u32 \<Rightarrow> u256 \<Rightarrow> u256 list \<Rightarrow> err + (u256 \<times> u256 list)" where
  "walk 0 c h k q = Inl OutOfFuel"
| "walk (Suc n) c h k q = (case c k of
      None \<Rightarrow> Inl UndefinedBehaviour
    | Some b \<Rightarrow> if height b > h
        then (case parents b of [] \<Rightarrow> Inl UndefinedBehaviour | p # ps \<Rightarrow> walk n c h p (q @ [k]))
        else Inr (k, q))"

definition walk_from :: "u256 \<Rightarrow> u32 \<Rightarrow> ('x core_scheme, u256 \<times> u256 list) prog" where
  "walk_from k h = bindp (deref k) (\<lambda>b. bindp (gets cache) (\<lambda>c. lift (walk (Suc (unat (height b))) c h k [])))"

section \<open>Chain update and commit\<close>

definition update_hqc :: "'x core_scheme vtable \<Rightarrow> u256 \<Rightarrow> quorum_cert option \<Rightarrow> ('x core_scheme, unit) prog" where
  "update_hqc vt k q = bindp (deref k) (\<lambda>b. bindp (gets hqc) (\<lambda>hq. case hq of
      None \<Rightarrow> throw UndefinedBehaviour
    | Some (h, _) \<Rightarrow> bindp (deref h) (\<lambda>hb.
        if height b > height hb
        then (case q of None \<Rightarrow> throw UndefinedBehaviour
              | Some q' \<Rightarrow> seqp (modify (\<lambda>s. s\<lparr>hqc := Some (k, q')\<rparr>)) (vt_on_hqc_update vt))
        else ret ())))"

definition decide_cmds :: "'x core_scheme vtable \<Rightarrow> replica_id \<Rightarrow> block \<Rightarrow> ('x core_scheme, unit) prog" where
  "decide_cmds vt rid b = forp [0..<length (cmds b)] (\<lambda>i.
     if i < length (keys b) \<and> i < length (vals b)
     then vt_do_decide vt \<lparr>f_rid = rid, f_decision = 1, f_cmd_idx = of_nat i, f_cmd_height = height b,
            f_cmd_hash = cmds b ! i, f_blk_hash = hash b\<rparr> (keys b ! i) (vals b ! i)
     else throw UndefinedBehaviour)"

text \<open>The body of the commit loop. The literal \<open>-6000\<close> is converted to \<open>uint32_t\<close> for the comparison
  with the height.\<close>

definition commit_blk :: "'x core_scheme vtable \<Rightarrow> u256 \<Rightarrow> ('x core_scheme, unit) prog" where
  "commit_blk vt k =
     seqp (assign k (\<lambda>b. b\<lparr>decision := 1\<rparr>))
     (seqp (vt_do_consensus vt k)
     (bindp (vt_get_leave_set vt) (\<lambda>(reconfig_c, leave_set).
      bindp (deref k) (\<lambda>b. bindp (gets core_id) (\<lambda>rid. bindp (gets core_cluster_id) (\<lambda>cid.
      bindp (vt_check_leader vt) (\<lambda>leader.
      seqp (whenp (leader \<and> \<not> (cid = 0 \<and> height b = - 6000))
             (vt_do_broadcast_proposal_other_clusters vt
                (proposal_new9 rid (Some k) cid cid (height b) 1 leave_set reconfig_c)))
     (seqp (vt_start_remote_view_change_timer vt (cid_of_height (height b)) k)
     (seqp (vt_update_finished_update_cids vt (cid_of_height (height b)))
     (bindp (vt_did_receive_mc vt (cid_of_height (height b))) (\<lambda>mc.
      whenp mc (seqp (decide_cmds vt rid b)
                     (vt_reset_remote_view_change_timer vt (cid_of_height (height b)))))))))))))))"

definition commit :: "'x core_scheme vtable \<Rightarrow> u256 \<Rightarrow> ('x core_scheme, unit) prog" where
  "commit vt k = bindp (gets b_exec) (\<lambda>e. bindp (deref e) (\<lambda>eb.
     bindp (walk_from k (height eb)) (\<lambda>(b, queue).
     if b \<noteq> e then throw SafetyBreached
     else seqp (forp (rev queue) (commit_blk vt)) (modify (\<lambda>s. s\<lparr>b_exec := k\<rparr>)))))"

text \<open>\<open>update\<close>: \<open>nblk = b*\<close>, \<open>blk2 = b''\<close>, \<open>blk1 = b'\<close>, \<open>blk = b\<close>; the second half, after the highest
  certificate has been updated.\<close>

definition update_lock :: "'x core_scheme vtable \<Rightarrow> u256 \<Rightarrow> ('x core_scheme, unit) prog" where
  "update_lock vt k2 = bindp (deref k2) (\<lambda>b2. case qc_ref b2 of None \<Rightarrow> ret () | Some k1 \<Rightarrow>
     bindp (deref k1) (\<lambda>b1. if decision b1 \<noteq> 0 then ret () else
     bindp (gets b_lock) (\<lambda>l. bindp (deref l) (\<lambda>lb.
     seqp (whenp (height b1 > height lb) (modify (\<lambda>s. s\<lparr>b_lock := k1\<rparr>)))
     (case qc_ref b1 of None \<Rightarrow> ret () | Some k \<Rightarrow>
     bindp (deref k) (\<lambda>b. if decision b \<noteq> 0 then ret () else
     bindp (parent0 b2) (\<lambda>p2. if p2 \<noteq> k1 then ret () else
     bindp (parent0 b1) (\<lambda>p1. if p1 \<noteq> k then ret () else commit vt k))))))))"

definition update :: "'x core_scheme vtable \<Rightarrow> u256 \<Rightarrow> ('x core_scheme, unit) prog" where
  "update vt n = bindp (deref n) (\<lambda>nb. case qc_ref nb of None \<Rightarrow> ret () | Some k2 \<Rightarrow>
     bindp (deref k2) (\<lambda>b2. if decision b2 \<noteq> 0 then ret () else
     seqp (update_hqc vt k2 (qc nb)) (update_lock vt k2)))"

section \<open>Proposals and votes\<close>

text \<open>The voting rule of \<open>on_receive_proposal\<close>.\<close>

definition vote_for :: "u256 \<Rightarrow> block \<Rightarrow> ('x core_scheme, bool) prog" where
  "vote_for k b = seqp (modify (\<lambda>s. s\<lparr>vheight := height b, vote_log := vote_log s @ [(k, b_lock s)]\<rparr>)) (ret True)"

definition qc_ref_above :: "block \<Rightarrow> u32 \<Rightarrow> ('x core_scheme, bool) prog" where
  "qc_ref_above b h = (case qc_ref b of None \<Rightarrow> ret False | Some r \<Rightarrow> bindp (deref r) (\<lambda>rb. ret (height rb > h)))"

definition form_opinion :: "u256 \<Rightarrow> ('x core_scheme, bool) prog" where
  "form_opinion k = bindp (deref k) (\<lambda>b. bindp (gets vheight) (\<lambda>vh.
     if height b > vh then
       bindp (gets b_lock) (\<lambda>l. bindp (deref l) (\<lambda>lb.
       bindp (qc_ref_above b (height lb)) (\<lambda>live.
         if live then vote_for k b
         else bindp (walk_from k (height lb)) (\<lambda>(x, _). if x = l then vote_for k b else ret False))))
     else ret False))"

definition on_receive_proposal :: "'x core_scheme vtable \<Rightarrow> proposal \<Rightarrow> ('x core_scheme, unit) prog" where
  "on_receive_proposal vt prop = (case p_blk prop of None \<Rightarrow> throw UndefinedBehaviour | Some k \<Rightarrow>
     bindp (gets core_id) (\<lambda>rid.
       let self_prop = (p_proposer prop = rid) in
       seqp (whenp (\<not> self_prop) (seqp (sanity_check_delivered k) (update vt k)))
       (bindp (form_opinion k) (\<lambda>opinion.
        bindp (deref k) (\<lambda>b.
        seqp (case qc_ref b of None \<Rightarrow> ret () | Some r \<Rightarrow> whenp (\<not> self_prop) (vt_on_qc_finish vt r))
        (seqp (vt_on_proposal_received vt prop)
        (bindp (gets vote_disabled) (\<lambda>dis.
         whenp (opinion \<and> \<not> dis)
           (bindp (gets priv_key) (\<lambda>sk.
            bindp (vt_create_part_cert vt sk (hash b)) (\<lambda>pc.
            vt_do_vote vt (p_proposer prop) \<lparr>voter = rid, v_blk_hash = hash b, v_cert = pc\<rparr>)))))))))))"

definition on_receive_vote :: "'x core_scheme vtable \<Rightarrow> vote \<Rightarrow> ('x core_scheme, unit) prog" where
  "on_receive_vote vt v = bindp (get_delivered_blk (v_blk_hash v)) (\<lambda>k.
     bindp (deref k) (\<lambda>b. bindp (gets (\<lambda>s. nmajority (config s))) (\<lambda>maj.
       let qsize = card (voted b) in
       if qsize \<ge> maj then ret ()
       else if voter v \<in> voted b then ret ()
       else
         seqp (assign k (\<lambda>b. b\<lparr>voted := insert (voter v) (voted b)\<rparr>))
         (bindp (case self_qc b of None \<Rightarrow> vt_create_quorum_cert vt (hash b) | Some q \<Rightarrow> ret q) (\<lambda>q.
          seqp (assign k (\<lambda>b. b\<lparr>self_qc := Some q\<rparr>))
         (bindp (lift (qc_add_part q (voter v) (v_cert v))) (\<lambda>q'.
          seqp (assign k (\<lambda>b. b\<lparr>self_qc := Some q'\<rparr>))
         (whenp (qsize + 1 = maj)
            (seqp (update_hqc vt k (Some (qc_compute q')))
                  (vt_on_qc_finish vt k))))))))))"

text \<open>The block of a new proposal. \<open>add_blk\<close> returns the cached block if one with this hash exists.\<close>

definition make_blk ::
  "secp \<Rightarrow> (byte list \<Rightarrow> byte list) \<Rightarrow> u256 list \<Rightarrow> i32 list \<Rightarrow> i32 list \<Rightarrow> u256 list \<Rightarrow> byte list \<Rightarrow>
   ('x core_scheme, u256) prog" where
  "make_blk lib sha cs ks vs ps ex =
     bindp (mapp (\<lambda>p. bindp (deref p) (\<lambda>b. ret (hash b))) ps) (\<lambda>hashes.
     bindp (deref (hd ps)) (\<lambda>p0. bindp (gets hqc) (\<lambda>hq. case hq of
         None \<Rightarrow> throw UndefinedBehaviour
       | Some (h, q) \<Rightarrow>
           bindp (lift (block_new lib sha hashes cs ks vs (Some q) ex (height p0 + 1) (Some h) None 0)) core_add_blk)))"

definition on_propose ::
  "'x core_scheme vtable \<Rightarrow> secp \<Rightarrow> (byte list \<Rightarrow> byte list) \<Rightarrow> proposal \<Rightarrow> u256 list \<Rightarrow> i32 list \<Rightarrow> i32 list \<Rightarrow>
   u256 list \<Rightarrow> byte list \<Rightarrow> ('x core_scheme, u256) prog" where
  "on_propose vt lib sha junk cs ks vs ps ex =
     (if ps = [] then throw EmptyParents else
      seqp (modify (\<lambda>s. s\<lparr>tails := tails s - set ps\<rparr>))
      (bindp (make_blk lib sha cs ks vs ps ex) (\<lambda>k.
       bindp (vt_create_quorum_cert vt k) (\<lambda>q.
       seqp (assign k (\<lambda>b. b\<lparr>self_qc := Some q\<rparr>))
      (seqp (on_deliver_blk vt k)
      (seqp (update vt k)
      (bindp (gets core_id) (\<lambda>rid. bindp (deref k) (\<lambda>b. bindp (gets vheight) (\<lambda>vh.
         let prop = proposal_new3 junk rid k in
         if height b \<le> vh then throw NotHigherThanVheight
         else seqp (on_receive_proposal vt prop)
             (seqp (vt_on_proposed vt prop)
             (seqp (vt_do_broadcast_proposal vt prop) (ret k)))))))))))))"

section \<open>Complaints\<close>

definition on_receive_LComplain :: "'x core_scheme vtable \<Rightarrow> complain \<Rightarrow> ('x core_scheme, unit) prog" where
  "on_receive_LComplain vt v = bindp (get_delivered_blk (c_blk_hash v)) (\<lambda>k.
     bindp (deref k) (\<lambda>b. bindp (gets (\<lambda>s. nmajority (config s))) (\<lambda>maj.
       let qsize = card (lcomplains b) in
       if qsize > maj then ret ()
       else if c_voter v \<in> lcomplains b then ret ()
       else
         seqp (assign k (\<lambda>b. b\<lparr>lcomplains := insert (c_voter v) (lcomplains b)\<rparr>))
         (whenp (qsize + 1 = maj)
            (bindp (gets priv_key) (\<lambda>sk. bindp (gets core_id) (\<lambda>rid.
             bindp (vt_create_part_cert vt sk (c_blk_hash v)) (\<lambda>pc.
             vt_send_RComplain vt rid
               \<lparr>c_voter = rid, c_blk_height = c_blk_height v, c_blk_hash = c_blk_hash v, c_cert = pc\<rparr>))))))))"

definition start_local_complain :: "'x core_scheme vtable \<Rightarrow> i32 \<Rightarrow> u256 \<Rightarrow> ('x core_scheme, unit) prog" where
  "start_local_complain vt ht h =
     bindp (gets priv_key) (\<lambda>sk. bindp (gets core_id) (\<lambda>rid.
     bindp (vt_create_part_cert vt sk h) (\<lambda>pc.
       let c = \<lparr>c_voter = rid, c_blk_height = ht, c_blk_hash = h, c_cert = pc\<rparr> in
       seqp (vt_send_LComplain vt rid c) (on_receive_LComplain vt c))))"

definition on_receive_RComplain :: "'x core_scheme vtable \<Rightarrow> complain \<Rightarrow> ('x core_scheme, unit) prog" where
  "on_receive_RComplain vt v = bindp (get_delivered_blk (c_blk_hash v)) (\<lambda>k.
     bindp (deref k) (\<lambda>b. bindp (gets core_id) (\<lambda>rid.
       let qsize = card (rcomplains b) in
       if qsize \<ge> 1 then ret ()
       else if c_voter v \<in> rcomplains b then ret ()
       else
         seqp (assign k (\<lambda>b. b\<lparr>rcomplains := insert (c_voter v) (rcomplains b)\<rparr>))
         (whenp (qsize + 1 = 1) (vt_send_RComplain_local vt rid v)))))"

definition get_recs_majority :: "'x core_scheme \<Rightarrow> i32" where
  "get_recs_majority s = of_nat (nmajority (config s))"

end
