(* ===== verification/Block_Tree.thy ===== *)
theory Block_Tree
  imports Consensus_Core
begin

text \<open>
  The block tree in the cache: ancestry along first parents, well-formedness of the blocks, and the
  extension order on caches (blocks are added, undelivered blocks get delivered, delivered blocks
  keep their links and heights). The walking loop of the protocol is shown to terminate on
  well-formed trees and to compute ancestry.
\<close>

section \<open>Ancestry, heights and well-formed blocks\<close>

inductive anc :: "(u256 \<rightharpoonup> block) \<Rightarrow> u256 \<Rightarrow> u256 \<Rightarrow> bool" for c where
  anc_refl: "anc c k k"
| anc_step: "c k = Some b \<Longrightarrow> parents b = p # ps \<Longrightarrow> anc c a p \<Longrightarrow> anc c a k"

inductive_cases anc_cases: "anc c a k"

definition hgt :: "(u256 \<rightharpoonup> block) \<Rightarrow> u256 \<Rightarrow> u32" where
  "hgt c k = (case c k of None \<Rightarrow> 0 | Some b \<Rightarrow> height b)"

definition is_delivered :: "(u256 \<rightharpoonup> block) \<Rightarrow> u256 \<Rightarrow> bool" where
  "is_delivered c k \<longleftrightarrow> (case c k of None \<Rightarrow> False | Some b \<Rightarrow> delivered b)"

definition linked :: "(u256 \<rightharpoonup> block) \<Rightarrow> block \<Rightarrow> bool" where
  "linked c b \<longleftrightarrow> parents b = parent_hashes b \<and> parents b \<noteq> [] \<and> (\<forall>p \<in> set (parents b). is_delivered c p) \<and>
     height b = hgt c (hd (parents b)) + 1 \<and> qc_ref b = map_option qc_obj_hash (qc b)"

definition blk_ok :: "(u256 \<rightharpoonup> block) \<Rightarrow> u256 \<Rightarrow> u256 \<Rightarrow> block \<Rightarrow> bool" where
  "blk_ok c g k b \<longleftrightarrow> hash b = k \<and>
     (\<forall>r. qc_ref b = Some r \<longrightarrow> c r \<noteq> None \<and> (\<exists>q. qc b = Some q \<and> qc_obj_hash q = r)) \<and>
     (\<forall>q. self_qc b = Some q \<longrightarrow> qc_obj_hash q = k) \<and>
     (if k = g then delivered b \<and> height b = 0 \<and> parents b = [] \<and> (\<forall>r. qc_ref b = Some r \<longrightarrow> r = g)
      else if delivered b then linked c b
      else height b = 0 \<and> qc_ref b = None)"

definition cache_ok :: "(u256 \<rightharpoonup> block) \<Rightarrow> u256 \<Rightarrow> bool" where
  "cache_ok c g \<longleftrightarrow> c g \<noteq> None \<and> (\<forall>k b. c k = Some b \<longrightarrow> blk_ok c g k b)"

section \<open>The extension order\<close>

definition blk_ext :: "block \<Rightarrow> block \<Rightarrow> bool" where
  "blk_ext b b' \<longleftrightarrow> parent_hashes b' = parent_hashes b \<and> cmds b' = cmds b \<and> keys b' = keys b \<and> vals b' = vals b \<and>
     hash b' = hash b \<and> (parent_hashes b \<noteq> [] \<longrightarrow> qc b' = qc b) \<and>
     (delivered b \<longrightarrow> delivered b' \<and> parents b' = parents b \<and> height b' = height b) \<and>
     (height b \<noteq> 0 \<longrightarrow> height b' = height b) \<and>
     (\<forall>r. qc_ref b = Some r \<longrightarrow> qc_ref b' = Some r) \<and>
     (delivered b \<and> parent_hashes b \<noteq> [] \<longrightarrow> qc_ref b' = qc_ref b) \<and>
     (decision b \<noteq> 0 \<longrightarrow> decision b' \<noteq> 0) \<and> voted b \<subseteq> voted b'"

definition cache_ext :: "(u256 \<rightharpoonup> block) \<Rightarrow> (u256 \<rightharpoonup> block) \<Rightarrow> bool" where
  "cache_ext c c' \<longleftrightarrow> (\<forall>k b. c k = Some b \<longrightarrow> (\<exists>b'. c' k = Some b' \<and> blk_ext b b'))"

lemma blk_ext_refl [simp]: "blk_ext b b"
  by (simp add: blk_ext_def)

lemma blk_ext_trans: "blk_ext a b \<Longrightarrow> blk_ext b c \<Longrightarrow> blk_ext a c"
  unfolding blk_ext_def by (elim conjE) (intro conjI, simp_all)

lemma cache_ext_refl [simp]: "cache_ext c c"
  by (simp add: cache_ext_def)

lemma cache_ext_trans: "cache_ext c d \<Longrightarrow> cache_ext d e \<Longrightarrow> cache_ext c e"
  unfolding cache_ext_def by (meson blk_ext_trans)

lemma cache_extD:
  assumes "cache_ext c c'" and "c k = Some b"
  obtains b' where "c' k = Some b'" "blk_ext b b'"
  using assms by (auto simp: cache_ext_def)

lemma cache_ext_upd: "c k = Some b \<Longrightarrow> blk_ext b b' \<Longrightarrow> cache_ext c (c(k \<mapsto> b'))"
  by (auto simp: cache_ext_def)

lemma cache_ext_new: "c k = None \<Longrightarrow> cache_ext c (c(k \<mapsto> b))"
  by (auto simp: cache_ext_def)

lemma ext_dom: "cache_ext c c' \<Longrightarrow> c k \<noteq> None \<Longrightarrow> c' k \<noteq> None"
  by (auto simp: cache_ext_def)

lemma ext_delivered: "cache_ext c c' \<Longrightarrow> is_delivered c k \<Longrightarrow> is_delivered c' k"
  by (fastforce simp: cache_ext_def is_delivered_def blk_ext_def split: option.splits)

lemma ext_hgt_delivered: "cache_ext c c' \<Longrightarrow> is_delivered c k \<Longrightarrow> hgt c' k = hgt c k"
  by (fastforce simp: cache_ext_def is_delivered_def hgt_def blk_ext_def split: option.splits)

lemma ext_hgt_nonzero: "cache_ext c c' \<Longrightarrow> hgt c k \<noteq> 0 \<Longrightarrow> hgt c' k = hgt c k"
  by (fastforce simp: cache_ext_def hgt_def blk_ext_def split: option.splits)

lemma ext_hgt_mono: "cache_ext c c' \<Longrightarrow> hgt c k \<le> hgt c' k"
  by (cases "hgt c k = 0") (simp_all add: ext_hgt_nonzero)

lemma ext_parents:
  assumes "cache_ext c c'" and "is_delivered c k" and "c k = Some b" and "c' k = Some b'"
  shows "parents b' = parents b"
proof -
  obtain b'' where "c' k = Some b''" "blk_ext b b''" using assms(1,3) by (rule cache_extD)
  then show ?thesis using assms(2-4) by (simp add: blk_ext_def is_delivered_def)
qed

lemma linked_ext: "cache_ext c c' \<Longrightarrow> linked c b \<Longrightarrow> linked c' b"
  by (auto simp: linked_def ext_delivered ext_hgt_delivered)

lemma blk_ok_ext: "cache_ext c c' \<Longrightarrow> blk_ok c g k b \<Longrightarrow> blk_ok c' g k b"
  using ext_dom [of c c'] by (auto simp: blk_ok_def linked_ext ext_delivered ext_hgt_delivered)

lemma cache_ok_upd:
  assumes "cache_ok c g" and "cache_ext c (c(k \<mapsto> b'))" and "blk_ok (c(k \<mapsto> b')) g k b'"
  shows "cache_ok (c(k \<mapsto> b')) g"
  using assms by (auto simp: cache_ok_def intro: blk_ok_ext)

lemma cache_okD: "cache_ok c g \<Longrightarrow> c k = Some b \<Longrightarrow> blk_ok c g k b"
  by (simp add: cache_ok_def)

lemma tall_delivered: "cache_ok c g \<Longrightarrow> hgt c k \<noteq> 0 \<Longrightarrow> is_delivered c k"
  by (fastforce simp: cache_ok_def blk_ok_def hgt_def is_delivered_def split: option.splits if_splits)

lemma delivered_genesis: "cache_ok c g \<Longrightarrow> is_delivered c g"
  by (auto simp: cache_ok_def blk_ok_def is_delivered_def)

lemma delivered_parent:
  assumes "cache_ok c g" and "is_delivered c k" and "c k = Some b" and "parents b = p # ps"
  shows "is_delivered c p \<and> height b = hgt c p + 1"
proof -
  have b: "blk_ok c g k b" using assms(1,3) by (rule cache_okD)
  then have "k \<noteq> g" using assms(4) by (auto simp: blk_ok_def)
  then have "linked c b" using b assms(2,3) by (simp add: blk_ok_def is_delivered_def split: if_splits)
  then show ?thesis using assms(4) by (simp add: linked_def)
qed

lemma anc_delivered:
  assumes "anc c a k" and "cache_ok c g" and "is_delivered c k"
  shows "is_delivered c a"
  using assms by (induction) (auto dest: delivered_parent)

lemma anc_trans: "anc c b k \<Longrightarrow> anc c a b \<Longrightarrow> anc c a k"
  by (induction rule: anc.induct) (auto intro: anc.intros)

text \<open>Ancestry of delivered blocks is not affected by extending the cache.\<close>

lemma anc_ext_iff:
  assumes "cache_ok c g" and "cache_ext c c'" and "is_delivered c k"
  shows "anc c' a k \<longleftrightarrow> anc c a k"
proof
  assume "anc c' a k"
  then show "anc c a k" using assms(3)
  proof induction
    case (anc_step k b p ps)
    obtain b1 where b1: "c k = Some b1" using anc_step.prems by (auto simp: is_delivered_def split: option.splits)
    have p: "parents b1 = p # ps"
      using ext_parents [OF assms(2) anc_step.prems b1] anc_step by metis
    then have "is_delivered c p" using delivered_parent [OF assms(1) anc_step.prems b1] by blast
    then show ?case using anc_step.IH anc.anc_step [of c, OF b1 p] by blast
  qed (rule anc_refl)
next
  assume "anc c a k"
  then show "anc c' a k" using assms(3)
  proof induction
    case (anc_step k b p ps)
    have "is_delivered c p" using delivered_parent [OF assms(1) anc_step.prems] anc_step by blast
    moreover obtain b' where "c' k = Some b'" "parents b' = parents b"
      using cache_extD [OF assms(2) anc_step.hyps(1)] ext_parents [OF assms(2) anc_step.prems anc_step.hyps(1)] by metis
    ultimately show ?case using anc_step by (auto intro: anc.intros)
  qed (rule anc_refl)
qed

section \<open>The walking loop\<close>

lemma height_pred:
  fixes h x p :: u32
  assumes "h = p + 1" and "x < h"
  shows "unat h = Suc (unat p)" and "x \<le> p"
proof -
  have "h \<noteq> 0" using assms(2) by (metis word_not_simps(1))
  then have "p \<noteq> - 1" using assms(1) by auto
  then show u: "unat h = Suc (unat p)" using assms(1) unat_succ32 by blast
  then show "x \<le> p" using assms(2) by (simp add: word_less_nat_alt word_le_nat_alt)
qed

text \<open>From a delivered block the loop terminates within the fuel, passes exactly the blocks from the
  start down to the first one whose height is not above the bound, each followed by its parent.\<close>

definition path_to :: "(u256 \<rightharpoonup> block) \<Rightarrow> u256 \<Rightarrow> u256 list \<Rightarrow> u256 \<Rightarrow> bool" where
  "path_to c k q x \<longleftrightarrow> (case q of [] \<Rightarrow> k = x | y # _ \<Rightarrow> k = y) \<and>
     (\<forall>i < length q. \<exists>b ps. c (q ! i) = Some b \<and> parents b = (if Suc i < length q then q ! Suc i else x) # ps)"

lemma path_to_Nil [simp]: "path_to c k [] x \<longleftrightarrow> k = x"
  by (simp add: path_to_def)

lemma path_to_Cons:
  "path_to c k (y # q) x \<longleftrightarrow> y = k \<and> (\<exists>b p ps. c k = Some b \<and> parents b = p # ps \<and> path_to c p q x)"
proof (cases q)
  case Nil
  then show ?thesis by (auto simp: path_to_def)
next
  case (Cons z zs)
  show ?thesis
    unfolding path_to_def Cons by (simp add: All_less_Suc2) auto
qed

lemma walk_correct:
  assumes "cache_ok c g" and "is_delivered c k" and "unat (hgt c k) < n"
  shows "\<exists>x q. walk n c h k acc = Inr (x, acc @ q) \<and> path_to c k q x \<and> is_delivered c x \<and> hgt c x \<le> h \<and>
    (\<forall>y \<in> set q. h < hgt c y \<and> is_delivered c y) \<and> (h \<le> hgt c k \<longrightarrow> hgt c x = h)"
  using assms(2,3)
proof (induction n arbitrary: k acc)
  case (Suc n)
  obtain b where b: "c k = Some b" "delivered b"
    using Suc.prems by (auto simp: is_delivered_def split: option.splits)
  show ?case
  proof (cases "h < height b")
    case False
    then show ?thesis using b Suc.prems
      by (intro exI [of _ k] exI [of _ "[]"]) (auto simp: hgt_def)
  next
    case True
    then have "height b \<noteq> 0" by (metis word_not_simps(1))
    then have "k \<noteq> g" and lk: "linked c b" using cache_okD [OF assms(1) b(1)] b by (auto simp: blk_ok_def split: if_splits)
    then obtain p ps where p: "parents b = p # ps" by (cases "parents b") (auto simp: linked_def)
    then have dp: "is_delivered c p" and hp: "height b = hgt c p + 1" using lk by (auto simp: linked_def)
    have u: "unat (height b) = Suc (unat (hgt c p))" and le: "h \<le> hgt c p"
      using height_pred [OF hp True] by auto
    have "unat (hgt c p) < n" using Suc.prems(2) u b by (simp add: hgt_def)
    then obtain x q where "walk n c h p (acc @ [k]) = Inr (x, (acc @ [k]) @ q)" "path_to c p q x"
      "is_delivered c x" "hgt c x \<le> h" "\<forall>y \<in> set q. h < hgt c y \<and> is_delivered c y" "hgt c x = h"
      using Suc.IH [OF dp] le by blast
    then show ?thesis
      using b p True Suc.prems by (intro exI [of _ x] exI [of _ "k # q"]) (auto simp: path_to_Cons hgt_def)
  qed
qed simp

lemma path_anc: "path_to c k q x \<Longrightarrow> anc c x k"
  by (induction q arbitrary: k) (auto simp: path_to_Cons intro: anc.intros)

text \<open>The ancestors of the start are the blocks on the path and the ancestors of its end.\<close>

lemma anc_path: "path_to c k q x \<Longrightarrow> anc c a k \<longleftrightarrow> a \<in> set q \<or> anc c a x"
proof (induction q arbitrary: k)
  case (Cons y q)
  then obtain b p ps where k: "y = k" "c k = Some b" "parents b = p # ps" "path_to c p q x"
    by (auto simp: path_to_Cons)
  then have "anc c a k \<longleftrightarrow> a = k \<or> anc c a p"
    by (auto intro: anc.intros elim: anc_cases)
  then show ?case using Cons.IH [OF k(4)] k(1) by auto
qed simp

lemma path_dom: "path_to c k q x \<Longrightarrow> y \<in> set q \<Longrightarrow> c y \<noteq> None"
  by (induction q arbitrary: k) (auto simp: path_to_Cons)

section \<open>Heights along a branch\<close>

text \<open>Block heights are 32-bit numbers; along a branch they grow as long as none of them has wrapped
  around to zero.\<close>

definition nowrap :: "(u256 \<rightharpoonup> block) \<Rightarrow> u256 \<Rightarrow> bool" where
  "nowrap c g \<longleftrightarrow> (\<forall>k. is_delivered c k \<longrightarrow> k \<noteq> g \<longrightarrow> hgt c k \<noteq> 0)"

lemma nowrap_ext: "cache_ext c c' \<Longrightarrow> nowrap c' g \<Longrightarrow> nowrap c g"
  unfolding nowrap_def by (metis ext_delivered ext_hgt_delivered)

lemma delivered_linked:
  assumes "cache_ok c g" and "is_delivered c k" and "k \<noteq> g"
  obtains b p ps where "c k = Some b" "delivered b" "parents b = p # ps" "parent_hashes b = p # ps"
    "is_delivered c p" "height b = hgt c p + 1"
proof -
  obtain b where b: "c k = Some b" "delivered b" using assms(2) by (auto simp: is_delivered_def split: option.splits)
  then have "linked c b" using cache_okD [OF assms(1) b(1)] assms(3) by (simp add: blk_ok_def)
  then obtain p ps where p: "parents b = p # ps" "parent_hashes b = p # ps" "is_delivered c p" "height b = hgt c p + 1"
    unfolding linked_def by (cases "parents b") fastforce+
  show ?thesis by (rule that [OF b p])
qed

lemma parent_hgt:
  assumes "cache_ok c g" and "nowrap c g" and "is_delivered c k" and "c k = Some b" and "parents b = p # ps"
  shows "hgt c p < hgt c k"
proof -
  have "k \<noteq> g" using assms(1,4,5) by (auto simp: cache_ok_def blk_ok_def)
  then have h: "hgt c k \<noteq> 0" using assms(2,3) by (simp add: nowrap_def)
  have e: "hgt c k = hgt c p + 1" using delivered_parent [OF assms(1,3-5)] assms(4) by (simp add: hgt_def)
  then have "0 < hgt c k" using h by (simp add: word_gt_0)
  then have "unat (hgt c k) = Suc (unat (hgt c p))" by (rule height_pred(1) [OF e])
  then show ?thesis by (simp add: word_less_nat_alt)
qed

lemma anc_hgt:
  assumes "anc c a k" and "cache_ok c g" and "nowrap c g" and "is_delivered c k"
  shows "hgt c a \<le> hgt c k \<and> (a \<noteq> k \<longrightarrow> hgt c a < hgt c k)"
  using assms
proof induction
  case (anc_step k b p ps)
  have "hgt c p < hgt c k" using parent_hgt [OF anc_step.prems(1,2,3) anc_step.hyps(1,2)] .
  moreover have "is_delivered c p" using delivered_parent [OF anc_step.prems(1,3) anc_step.hyps(1,2)] by blast
  ultimately show ?case using anc_step.IH anc_step.prems by fastforce
qed simp

text \<open>Two ancestors of a block lie on one branch.\<close>

lemma anc_linear:
  assumes "anc c a k" and "anc c b k"
  shows "anc c a b \<or> anc c b a"
  using assms
proof induction
  case (anc_step k x p ps)
  then show ?case by (cases "b = k") (auto elim: anc_cases intro: anc.intros)
qed simp

lemma anc_genesis: "cache_ok c g \<Longrightarrow> anc c a g \<Longrightarrow> a = g"
  by (erule anc_cases) (auto simp: cache_ok_def blk_ok_def)

section \<open>Rules of the votes and locks\<close>

text \<open>The voting rule: the voted block \<open>k\<close> carries a certificate for a block above the lock \<open>l\<close>, or extends
  the lock.\<close>

definition vote_rule :: "(u256 \<rightharpoonup> block) \<Rightarrow> u256 \<Rightarrow> u256 \<Rightarrow> bool" where
  "vote_rule c k l \<longleftrightarrow> (\<exists>b r. c k = Some b \<and> qc_ref b = Some r \<and> hgt c l < hgt c r) \<or> anc c l k"

text \<open>The locking rule: a replica that votes for \<open>k\<close> holds a lock \<open>l\<close> at least as high as the block two
  certificates below \<open>k\<close>, when these certificates refer to ancestors.\<close>

definition lock_rule :: "(u256 \<rightharpoonup> block) \<Rightarrow> u256 \<Rightarrow> u256 \<Rightarrow> bool" where
  "lock_rule c k l \<longleftrightarrow> (\<forall>b r2 b2 r1. c k = Some b \<longrightarrow> qc_ref b = Some r2 \<longrightarrow> anc c r2 k \<longrightarrow>
     c r2 = Some b2 \<longrightarrow> qc_ref b2 = Some r1 \<longrightarrow> anc c r1 r2 \<longrightarrow> hgt c r1 \<le> hgt c l)"

text \<open>The lock is the genesis block or a block some block carries a certificate for.\<close>

definition lock_cert :: "(u256 \<rightharpoonup> block) \<Rightarrow> u256 \<Rightarrow> u256 \<Rightarrow> bool" where
  "lock_cert c g l \<longleftrightarrow> l = g \<or> (\<exists>m b. c m = Some b \<and> qc_ref b = Some l)"

lemma lock_cert_ext: "cache_ext c c' \<Longrightarrow> lock_cert c g l \<Longrightarrow> lock_cert c' g l"
  unfolding lock_cert_def cache_ext_def blk_ext_def by blast

text \<open>A committed block: three certificates in a row on direct children.\<close>

definition commit_wit :: "(u256 \<rightharpoonup> block) \<Rightarrow> u256 \<Rightarrow> bool" where
  "commit_wit c k \<longleftrightarrow> (\<exists>n nb k2 b2 k1 b1 ps qs. c n = Some nb \<and> qc_ref nb = Some k2 \<and> c k2 = Some b2 \<and>
     qc_ref b2 = Some k1 \<and> parents b2 = k1 # ps \<and> c k1 = Some b1 \<and> qc_ref b1 = Some k \<and> parents b1 = k # qs)"

lemma ext_qc_ref:
  assumes "cache_ok c g" and "cache_ext c c'" and "is_delivered c k" and "k \<noteq> g" and "c k = Some b" and "c' k = Some b'"
  shows "qc_ref b' = qc_ref b"
proof -
  obtain b'' where "c' k = Some b''" "blk_ext b b''" using cache_extD [OF assms(2,5)] .
  moreover have "parent_hashes b \<noteq> []" "delivered b"
    using delivered_linked [OF assms(1,3,4)] assms(5) by fastforce+
  ultimately show ?thesis using assms(6) by (simp add: blk_ext_def)
qed

lemma vote_rule_ext:
  assumes "cache_ok c g" and "cache_ext c c'" and "is_delivered c k" and "is_delivered c l" and "vote_rule c k l"
  shows "vote_rule c' k l"
proof (cases "anc c l k")
  case True
  then show ?thesis using anc_ext_iff [OF assms(1-3)] by (simp add: vote_rule_def)
next
  case False
  then obtain b r where b: "c k = Some b" "qc_ref b = Some r" "hgt c l < hgt c r" using assms(5) by (auto simp: vote_rule_def)
  then have "hgt c r \<noteq> 0" by auto
  then have "hgt c' l < hgt c' r" using b(3) ext_hgt_nonzero [OF assms(2)] ext_hgt_delivered [OF assms(2,4)] by simp
  moreover obtain b' where "c' k = Some b'" "qc_ref b' = Some r"
    using cache_extD [OF assms(2) b(1)] b(2) by (auto simp: blk_ext_def)
  ultimately show ?thesis by (auto simp: vote_rule_def)
qed

lemma lock_rule_ext:
  assumes "cache_ok c g" and "cache_ext c c'" and "is_delivered c k" and "k \<noteq> g" and "is_delivered c l"
    and "lock_rule c k l" and "cache_ok c' g"
  shows "lock_rule c' k l"
  unfolding lock_rule_def
proof (intro allI impI)
  fix b' r2 b2' r1
  assume a: "c' k = Some b'" "qc_ref b' = Some r2" "anc c' r2 k" "c' r2 = Some b2'" "qc_ref b2' = Some r1" "anc c' r1 r2"
  obtain b where b: "c k = Some b" using assms(3) by (auto simp: is_delivered_def split: option.splits)
  have q: "qc_ref b = Some r2" using ext_qc_ref [OF assms(1-4) b a(1)] a(2) by simp
  have r2: "anc c r2 k" using anc_ext_iff [OF assms(1-3)] a(3) by simp
  then have d2: "is_delivered c r2" using anc_delivered assms(1,3) by blast
  have hl: "hgt c' l = hgt c l" by (rule ext_hgt_delivered [OF assms(2,5)])
  show "hgt c' r1 \<le> hgt c' l"
  proof (cases "r2 = g")
    case True
    then have "r1 = g" using anc_genesis [OF assms(7)] a(6) by simp
    then have "hgt c' r1 = 0" using assms(7) by (auto simp: cache_ok_def blk_ok_def hgt_def)
    then show ?thesis by simp
  next
    case False
    obtain b2 where b2: "c r2 = Some b2" using d2 by (auto simp: is_delivered_def split: option.splits)
    have q2: "qc_ref b2 = Some r1" using ext_qc_ref [OF assms(1,2) d2 False b2 a(4)] a(5) by simp
    have r1: "anc c r1 r2" using anc_ext_iff [OF assms(1,2) d2] a(6) by simp
    then have "is_delivered c r1" using anc_delivered assms(1) d2 by blast
    then have "hgt c' r1 = hgt c r1" by (rule ext_hgt_delivered [OF assms(2)])
    moreover have "hgt c r1 \<le> hgt c l" using assms(6) b q r2 b2 q2 r1 unfolding lock_rule_def by blast
    ultimately show ?thesis using hl by simp
  qed
qed

lemma commit_wit_ext:
  assumes ok: "cache_ok c g" and ext: "cache_ext c c'" and wit: "commit_wit c k"
  shows "commit_wit c' k"
proof -
  obtain n nb k2 b2 k1 b1 ps qs where w: "c n = Some nb" "qc_ref nb = Some k2" "c k2 = Some b2"
    "qc_ref b2 = Some k1" "parents b2 = k1 # ps" "c k1 = Some b1" "qc_ref b1 = Some k" "parents b1 = k # qs"
    using wit unfolding commit_wit_def by blast
  have keep: "\<exists>x'. c' y = Some x' \<and> qc_ref x' = Some r \<and> parents x' = p # rs"
    if "c y = Some x" "qc_ref x = Some r" "parents x = p # rs" for y x r p rs
  proof -
    have "delivered x" using cache_okD [OF ok that(1)] that(2) by (auto simp: blk_ok_def split: if_splits)
    then show ?thesis using cache_extD [OF ext that(1)] that by (fastforce simp: blk_ext_def)
  qed
  obtain nb' where nb': "c' n = Some nb'" "blk_ext nb nb'" using cache_extD [OF ext w(1)] .
  have "qc_ref nb' = Some k2" using nb'(2) w(2) by (simp add: blk_ext_def)
  then show ?thesis using nb'(1) keep [OF w(3-5)] keep [OF w(6-8)] unfolding commit_wit_def by metis
qed

end
