(* ===== verification/Core_Invariant.thy ===== *)
theory Core_Invariant
  imports Block_Tree
begin

text \<open>
  The invariant of the protocol state and the order along which it evolves, and the contract
  \<open>core_host\<close> between \<open>HotStuffCore\<close> and the code it calls back: under the contract every operation of
  the core keeps the invariant and moves forward in the order, also when it ends with an exception
  (message handlers catch exceptions and the replica goes on). The only outcomes without guarantee
  are the fatal ones.
\<close>

section \<open>Weakest preconditions of the heap operations\<close>

lemma cache_set_cache [simp]: "cache (set_cache c s) = c"
  by (simp add: cache_def set_cache_def)

lemma set_cache_fields [simp]:
  "b0 (set_cache c s) = b0 s" "hqc (set_cache c s) = hqc s" "b_lock (set_cache c s) = b_lock s"
  "b_exec (set_cache c s) = b_exec s" "vheight (set_cache c s) = vheight s" "vote_log (set_cache c s) = vote_log s"
  "core_id (set_cache c s) = core_id s" "config (set_cache c s) = config s" "tails (set_cache c s) = tails s"
  "core_cluster_id (set_cache c s) = core_cluster_id s" "priv_key (set_cache c s) = priv_key s"
  "vote_disabled (set_cache c s) = vote_disabled s" "hqc_tail (set_cache c s) = hqc_tail s"
  "own_name (set_cache c s) = own_name s"
  by (simp_all add: set_cache_def)

lemma cache_upd_fields [simp]:
  "cache (s\<lparr>hqc := a\<rparr>) = cache s" "cache (s\<lparr>b_lock := l\<rparr>) = cache s" "cache (s\<lparr>b_exec := e\<rparr>) = cache s"
  "cache (s\<lparr>vheight := v\<rparr>) = cache s" "cache (s\<lparr>tails := t\<rparr>) = cache s" "cache (s\<lparr>config := cf\<rparr>) = cache s"
  "cache (s\<lparr>vote_log := vl\<rparr>) = cache s" "cache (s\<lparr>vote_disabled := d\<rparr>) = cache s"
  "cache (s\<lparr>hqc_tail := ht\<rparr>) = cache s" "cache (s\<lparr>own_name := on\<rparr>) = cache s"
  by (simp_all add: cache_def)

lemma set_cache_set_cache [simp]: "set_cache c (set_cache d s) = set_cache c s"
  by (simp add: set_cache_def)

lemma wp_deref [wp_simps]:
  "wp (deref k) Q E s = (case cache s k of None \<Rightarrow> E UndefinedBehaviour s | Some b \<Rightarrow> Q b s)"
  by (simp add: wp_def deref_def split: option.split)

lemma wp_assign [wp_simps]:
  "wp (assign k f) Q E s = (case cache s k of None \<Rightarrow> E UndefinedBehaviour s
     | Some b \<Rightarrow> Q () (set_cache ((cache s)(k \<mapsto> f b)) s))"
  by (simp add: assign_def wp_simps split: option.split)

lemma wp_parent0 [wp_simps]:
  "wp (parent0 b) Q E s = (case parents b of [] \<Rightarrow> E UndefinedBehaviour s | p # ps \<Rightarrow> Q p s)"
  by (simp add: parent0_def wp_simps split: list.split)

lemma wp_case_prod [wp_simps]: "wp (case x of (a, b) \<Rightarrow> f a b) Q E s = (case x of (a, b) \<Rightarrow> wp (f a b) Q E s)"
  by (simp split: prod.split)

lemma wp_let [wp_simps]: "wp (let x = v in f x) Q E s = (let x = v in wp (f x) Q E s)"
  by simp

section \<open>Invariant and order\<close>

text \<open>The votes: in strictly growing height, each according to the voting rule. The locks: the lock is not
  below the last executed block and every vote was made according to the locking rule, as long as
  heights have not wrapped around and no proposal under the own name came from the network. The
  last executed block has been committed.\<close>

definition votes_ok :: "(u256 \<rightharpoonup> block) \<Rightarrow> u256 \<Rightarrow> u32 \<Rightarrow> u256 \<Rightarrow> (u256 \<times> u256) list \<Rightarrow> bool" where
  "votes_ok c g vh lk vl \<longleftrightarrow>
     sorted_wrt (\<lambda>p q. hgt c (fst p) < hgt c (fst q) \<and> hgt c (snd p) \<le> hgt c (snd q)) vl \<and>
     (\<forall>(k, l) \<in> set vl. is_delivered c k \<and> is_delivered c l \<and> hgt c k \<noteq> 0 \<and> hgt c k \<le> vh \<and>
        hgt c l \<le> hgt c lk \<and> vote_rule c k l \<and> lock_cert c g l)"

definition log_inv :: "'x core_scheme \<Rightarrow> bool" where
  "log_inv s \<longleftrightarrow> votes_ok (cache s) (b0 s) (vheight s) (b_lock s) (vote_log s) \<and>
     lock_cert (cache s) (b0 s) (b_lock s) \<and>
     (nowrap (cache s) (b0 s) \<longrightarrow> hgt (cache s) (b_exec s) \<le> hgt (cache s) (b_lock s) \<and>
        (own_name s \<or> (\<forall>(k, l) \<in> set (vote_log s). lock_rule (cache s) k l))) \<and>
     (b_exec s = b0 s \<or> commit_wit (cache s) (b_exec s))"

definition core_inv :: "'x core_scheme \<Rightarrow> bool" where
  "core_inv s \<longleftrightarrow> cache_ok (cache s) (b0 s) \<and> is_delivered (cache s) (b_lock s) \<and> is_delivered (cache s) (b_exec s) \<and>
     is_delivered (cache s) (hqc_tail s) \<and>
     (\<forall>k q. hqc s = Some (k, q) \<longrightarrow> is_delivered (cache s) k \<and> qc_obj_hash q = k) \<and>
     (\<forall>k b. cache s k = Some b \<longrightarrow> (decision b \<noteq> 0 \<longleftrightarrow> anc (cache s) k (b_exec s))) \<and>
     log_inv s"

definition hqc_height :: "'x core_scheme \<Rightarrow> u32" where
  "hqc_height s = (case hqc s of None \<Rightarrow> 0 | Some (k, _) \<Rightarrow> hgt (cache s) k)"

definition core_le :: "'x core_scheme \<Rightarrow> 'x core_scheme \<Rightarrow> bool" where
  "core_le s t \<longleftrightarrow> b0 t = b0 s \<and> cache_ext (cache s) (cache t) \<and> vheight s \<le> vheight t \<and>
     hgt (cache s) (b_lock s) \<le> hgt (cache t) (b_lock t) \<and> hqc_height s \<le> hqc_height t \<and>
     (hqc s \<noteq> None \<longrightarrow> hqc t \<noteq> None) \<and>
     anc (cache t) (b_exec s) (b_exec t) \<and> (\<exists>vs. vote_log t = vote_log s @ vs) \<and> (own_name s \<longrightarrow> own_name t)"

text \<open>The part of the state the two relations speak about.\<close>

definition view :: "'x core_scheme \<Rightarrow> _" where
  "view s = (b0 s, hqc s, b_lock s, b_exec s, vheight s, vote_log s, hqc_tail s, own_name s, cache s)"

lemma view_eq: "view s = view t \<longleftrightarrow> b0 s = b0 t \<and> hqc s = hqc t \<and> b_lock s = b_lock t \<and> b_exec s = b_exec t \<and>
    vheight s = vheight t \<and> vote_log s = vote_log t \<and> hqc_tail s = hqc_tail t \<and> own_name s = own_name t \<and> cache s = cache t"
  by (simp add: view_def)

lemma core_inv_view: "view s = view t \<Longrightarrow> core_inv s \<longleftrightarrow> core_inv t"
  by (simp add: view_eq core_inv_def log_inv_def)

lemma hqc_height_view: "view s = view t \<Longrightarrow> hqc_height s = hqc_height t"
  by (simp add: view_eq hqc_height_def split: option.split)

lemma core_le_view: "view s = view s' \<Longrightarrow> view t = view t' \<Longrightarrow> core_le s t \<longleftrightarrow> core_le s' t'"
  using hqc_height_view [of s s'] hqc_height_view [of t t'] by (simp add: view_eq core_le_def)

lemma core_le_refl: "core_le s s"
  by (simp add: core_le_def anc_refl)

lemma core_le_trans:
  assumes "core_inv t" and "core_le s t" and "core_le t u"
  shows "core_le s u"
proof -
  have "is_delivered (cache t) (b_exec t)" and ok: "cache_ok (cache t) (b0 t)"
    using assms(1) by (simp_all add: core_inv_def)
  then have "anc (cache u) (b_exec s) (b_exec t)"
    using assms(2,3) anc_ext_iff [OF ok, of "cache u" "b_exec t"] by (simp add: core_le_def)
  then have "anc (cache u) (b_exec s) (b_exec u)"
    using assms(3) anc_trans by (auto simp: core_le_def)
  then show ?thesis
    using assms(2,3) by (auto simp: core_le_def intro: cache_ext_trans)
qed

text \<open>The votes and locks under the single assignments.\<close>

lemma votes_ok_ext:
  assumes "cache_ok c g" and "cache_ext c c'" and "is_delivered c lk" and "votes_ok c g vh lk vl"
  shows "votes_ok c' g vh lk vl"
proof -
  have d: "is_delivered c k" "is_delivered c l" if "(k, l) \<in> set vl" for k l
    using assms(4) that by (auto simp: votes_ok_def)
  have h: "hgt c' (fst p) = hgt c (fst p)" "hgt c' (snd p) = hgt c (snd p)" if "p \<in> set vl" for p
    using d [of "fst p" "snd p"] that ext_hgt_delivered [OF assms(2)] by simp_all
  have "sorted_wrt (\<lambda>p q. hgt c (fst p) < hgt c (fst q) \<and> hgt c (snd p) \<le> hgt c (snd q)) vl"
    using assms(4) by (simp add: votes_ok_def)
  then have "sorted_wrt (\<lambda>p q. hgt c' (fst p) < hgt c' (fst q) \<and> hgt c' (snd p) \<le> hgt c' (snd q)) vl"
    by (rule sorted_wrt_mono_rel [rotated]) (simp add: h)
  moreover have "is_delivered c' k \<and> is_delivered c' l \<and> hgt c' k \<noteq> 0 \<and> hgt c' k \<le> vh \<and> hgt c' l \<le> hgt c' lk \<and>
      vote_rule c' k l \<and> lock_cert c' g l" if kl: "(k, l) \<in> set vl" for k l
  proof -
    have "hgt c k \<noteq> 0" "hgt c k \<le> vh" "hgt c l \<le> hgt c lk" "vote_rule c k l" "lock_cert c g l"
      using assms(4) kl by (auto simp: votes_ok_def)
    then show ?thesis
      using h [OF kl] d [OF kl] vote_rule_ext [OF assms(1,2)] ext_delivered [OF assms(2)] lock_cert_ext [OF assms(2)]
        ext_hgt_delivered [OF assms(2,3)] by simp
  qed
  ultimately show ?thesis by (auto simp: votes_ok_def)
qed

lemma log_inv_cache:
  assumes inv: "log_inv s" and ok: "cache_ok (cache s) (b0 s)" and ok': "cache_ok c (b0 s)" and ext: "cache_ext (cache s) c"
    and dlv: "is_delivered (cache s) (b_exec s)" "is_delivered (cache s) (b_lock s)"
  shows "log_inv (set_cache c s)"
proof -
  have v: "votes_ok (cache s) (b0 s) (vheight s) (b_lock s) (vote_log s)" using inv by (simp add: log_inv_def)
  have rule: "lock_rule c k l" if "(k, l) \<in> set (vote_log s)" "lock_rule (cache s) k l" for k l
  proof -
    have "is_delivered (cache s) k" "hgt (cache s) k \<noteq> 0" "is_delivered (cache s) l"
      using v that(1) by (auto simp: votes_ok_def)
    moreover have "hgt (cache s) (b0 s) = 0" using ok by (auto simp: cache_ok_def blk_ok_def hgt_def)
    ultimately show ?thesis using lock_rule_ext [OF ok ext _ _ _ that(2) ok'] by auto
  qed
  have "nowrap c (b0 s) \<longrightarrow> hgt c (b_exec s) \<le> hgt c (b_lock s) \<and>
      (own_name s \<or> (\<forall>(k, l) \<in> set (vote_log s). lock_rule c k l))"
    using inv nowrap_ext [OF ext, of "b0 s"] rule ext_hgt_delivered [OF ext dlv(1)] ext_hgt_delivered [OF ext dlv(2)]
    by (auto simp: log_inv_def)
  moreover have "b_exec s = b0 s \<or> commit_wit c (b_exec s)"
    using inv commit_wit_ext [OF ok ext] by (auto simp: log_inv_def)
  moreover have "lock_cert c (b0 s) (b_lock s)" using inv lock_cert_ext [OF ext] by (simp add: log_inv_def)
  ultimately show ?thesis using votes_ok_ext [OF ok ext dlv(2) v] by (simp add: log_inv_def)
qed

lemma log_inv_fields [simp]:
  "log_inv (s\<lparr>hqc := a\<rparr>) = log_inv s" "log_inv (s\<lparr>hqc_tail := b\<rparr>) = log_inv s"
  by (simp_all add: log_inv_def)

text \<open>Changing the cache only.\<close>

lemma core_step_cache:
  assumes inv: "core_inv s" and ok: "cache_ok c (b0 s)" and ext: "cache_ext (cache s) c"
    and dec: "\<And>k b'. c k = Some b' \<Longrightarrow> decision b' \<noteq> 0 \<Longrightarrow> \<exists>b. cache s k = Some b \<and> decision b \<noteq> 0"
  shows "core_inv (set_cache c s) \<and> core_le s (set_cache c s)"
proof -
  have ok0: "cache_ok (cache s) (b0 s)" and ex: "is_delivered (cache s) (b_exec s)"
    using inv by (simp_all add: core_inv_def)
  note anc_iff = anc_ext_iff [OF ok0 ext ex]
  have "decision b' \<noteq> 0 \<longleftrightarrow> anc c k (b_exec s)" if b': "c k = Some b'" for k b'
  proof
    assume "decision b' \<noteq> 0"
    then show "anc c k (b_exec s)" using dec [OF b'] inv anc_iff by (auto simp: core_inv_def)
  next
    assume a: "anc c k (b_exec s)"
    then have "is_delivered (cache s) k" using anc_iff anc_delivered [OF _ ok0 ex] by blast
    then obtain b where b: "cache s k = Some b" by (auto simp: is_delivered_def split: option.splits)
    then have "decision b \<noteq> 0" using a anc_iff inv by (simp add: core_inv_def)
    moreover obtain b'' where "c k = Some b''" "blk_ext b b''" using cache_extD [OF ext b] .
    ultimately show "decision b' \<noteq> 0" using b' by (simp add: blk_ext_def)
  qed
  moreover have "\<And>k q. hqc s = Some (k, q) \<Longrightarrow> is_delivered c k \<and> qc_obj_hash q = k" "is_delivered c (b_lock s)" "is_delivered c (hqc_tail s)"
    using inv ext_delivered [OF ext] unfolding core_inv_def by blast+
  ultimately have "core_inv (set_cache c s)"
    using ok ext_delivered [OF ext ex] inv log_inv_cache [OF _ ok0 ok ext ex] unfolding core_inv_def by simp
  moreover have "core_le s (set_cache c s)"
    using ext ext_hgt_mono [OF ext] by (auto simp: core_le_def hqc_height_def anc_refl split: option.split)
  ultimately show ?thesis ..
qed

lemma core_step_blk:
  assumes "core_inv s" and "cache s k = Some b" and "blk_ext b b'" and "decision b' = decision b"
    and "blk_ok ((cache s)(k \<mapsto> b')) (b0 s) k b'"
  shows "core_inv (set_cache ((cache s)(k \<mapsto> b')) s) \<and> core_le s (set_cache ((cache s)(k \<mapsto> b')) s)"
  using assms by (intro core_step_cache cache_ok_upd cache_ext_upd)
    (auto simp: core_inv_def split: if_splits)

text \<open>A block field that the tree does not depend on.\<close>

lemma blk_ok_same_links:
  assumes "blk_ok c g k b" and "hash b' = hash b" and "qc_ref b' = qc_ref b" and "qc b' = qc b"
    and "\<And>q. self_qc b' = Some q \<Longrightarrow> qc_obj_hash q = k"
    and "delivered b' = delivered b" and "parents b' = parents b" and "parent_hashes b' = parent_hashes b"
    and "height b' = height b"
  shows "blk_ok c g k b'"
proof -
  have "linked c b' = linked c b" using assms by (simp add: linked_def)
  then show ?thesis using assms unfolding blk_ok_def by simp
qed

lemma core_step_field:
  assumes inv: "core_inv s" and b: "cache s k = Some b"
    and f: "b' = b\<lparr>voted := v, lcomplains := lc, rcomplains := rc, self_qc := sq\<rparr>" and "voted b \<subseteq> v"
    and sq: "\<And>q. sq = Some q \<Longrightarrow> qc_obj_hash q = k"
  shows "core_inv (set_cache ((cache s)(k \<mapsto> b')) s) \<and> core_le s (set_cache ((cache s)(k \<mapsto> b')) s)"
proof -
  have ext: "blk_ext b b'" using f assms(4) by (simp add: blk_ext_def)
  have "blk_ok (cache s) (b0 s) k b" using inv b by (auto simp: core_inv_def intro: cache_okD)
  then have "blk_ok ((cache s)(k \<mapsto> b')) (b0 s) k b"
    by (rule blk_ok_ext [rotated]) (rule cache_ext_upd [of "cache s", OF b ext])
  then have "blk_ok ((cache s)(k \<mapsto> b')) (b0 s) k b'"
    by (rule blk_ok_same_links) (use f sq in simp_all)
  then show ?thesis using inv b ext f by (intro core_step_blk) simp_all
qed

section \<open>Quiet and steady programs\<close>

text \<open>Outcomes without guarantee: undefined behaviour, a failed assertion, exhausted fuel, and a
  delivery whose certificate refers to a block that has not been fetched, which the documentation of
  \<open>on_deliver_blk\<close> tells callers to exclude (the half-delivered block keeps its height).\<close>

definition fatal :: "err \<Rightarrow> bool" where
  "fatal e \<longleftrightarrow> e = UndefinedBehaviour \<or> e = OutOfFuel \<or> e = AssertFailed \<or> e = QcBlockNotFetched"

definition keeps :: "'x core_scheme \<Rightarrow> 'x core_scheme \<Rightarrow> bool" where
  "keeps s0 t \<longleftrightarrow> core_inv t \<and> core_le s0 t"

text \<open>\<open>quiet\<close>: does not touch the protocol state and does not throw; \<open>pure_prog\<close>, \<open>quiet_result\<close>: computes
  a value with a property, with or without exceptions; \<open>steady\<close>: keeps the invariant and moves
  forward.\<close>

definition quiet :: "('x core_scheme, 'a) prog \<Rightarrow> bool" where
  "quiet m \<longleftrightarrow> (\<forall>s v. view s = v \<longrightarrow> wp m (\<lambda>_ t. view t = v) (\<lambda>e _. fatal e) s)"

definition pure_prog :: "('a \<Rightarrow> bool) \<Rightarrow> ('x core_scheme, 'a) prog \<Rightarrow> bool" where
  "pure_prog P m \<longleftrightarrow> (\<forall>s v. view s = v \<longrightarrow> wp m (\<lambda>a t. view t = v \<and> P a) (\<lambda>e t. fatal e \<or> view t = v) s)"

definition quiet_result :: "('a \<Rightarrow> bool) \<Rightarrow> ('x core_scheme, 'a) prog \<Rightarrow> bool" where
  "quiet_result P m \<longleftrightarrow> (\<forall>s v. view s = v \<longrightarrow> wp m (\<lambda>a t. view t = v \<and> P a) (\<lambda>e t. fatal e) s)"

definition steady :: "('x core_scheme, 'a) prog \<Rightarrow> bool" where
  "steady m \<longleftrightarrow> (\<forall>s0 s. keeps s0 s \<longrightarrow> wp m (\<lambda>_. keeps s0) (\<lambda>e t. fatal e \<or> keeps s0 t) s)"

named_theorems quiet_intros "composition of quiet programs"
named_theorems steady_intros "composition of steady programs"

lemma fatal_simps [simp]: "fatal UndefinedBehaviour" "fatal OutOfFuel" "fatal AssertFailed" "fatal QcBlockNotFetched"
  by (simp_all add: fatal_def)

lemma keeps_refl: "core_inv s \<Longrightarrow> keeps s s"
  by (simp add: keeps_def core_le_refl)

lemma keeps_trans: "keeps s t \<Longrightarrow> core_inv u \<and> core_le t u \<Longrightarrow> keeps s u"
  by (auto simp: keeps_def intro: core_le_trans)

lemma keeps_view: "keeps s0 s \<Longrightarrow> view t = view s \<Longrightarrow> keeps s0 t"
  using core_inv_view core_le_view [of s0 s0 t s] by (auto simp: keeps_def)

lemma keeps_inv: "keeps s0 s \<Longrightarrow> core_inv s"
  by (simp add: keeps_def)

lemma wp_quiet:
  assumes "quiet m" and "view s = v" and "\<And>a t. view t = v \<Longrightarrow> Q a t" and "\<And>e t. fatal e \<Longrightarrow> E e t"
  shows "wp m Q E s"
  using assms(1,2) unfolding quiet_def by (metis (mono_tags, lifting) wp_mono assms(3,4))

lemma wp_pure:
  assumes "pure_prog P m" and "view s = v" and "\<And>a t. view t = v \<Longrightarrow> P a \<Longrightarrow> Q a t"
    and "\<And>e t. fatal e \<or> view t = v \<Longrightarrow> E e t"
  shows "wp m Q E s"
proof -
  have "wp m (\<lambda>a t. view t = v \<and> P a) (\<lambda>e t. fatal e \<or> view t = v) s"
    using assms(1,2) unfolding pure_prog_def by blast
  then show ?thesis by (rule wp_mono) (use assms(3,4) in blast)+
qed

lemma wp_quiet_result:
  assumes "quiet_result P m" and "view s = v" and "\<And>a t. view t = v \<Longrightarrow> P a \<Longrightarrow> Q a t" and "\<And>e t. fatal e \<Longrightarrow> E e t"
  shows "wp m Q E s"
proof -
  have "wp m (\<lambda>a t. view t = v \<and> P a) (\<lambda>e t. fatal e) s"
    using assms(1,2) unfolding quiet_result_def by blast
  then show ?thesis by (rule wp_mono) (use assms(3,4) in blast)+
qed

lemma quiet_result_pure: "quiet_result P m \<Longrightarrow> pure_prog P m"
  unfolding pure_prog_def by (intro allI impI) (erule wp_quiet_result, auto)

lemma wp_steady:
  assumes "steady m" and "keeps s0 s" and "\<And>a t. keeps s0 t \<Longrightarrow> Q a t" and "\<And>e t. fatal e \<or> keeps s0 t \<Longrightarrow> E e t"
  shows "wp m Q E s"
proof -
  have "wp m (\<lambda>_. keeps s0) (\<lambda>e t. fatal e \<or> keeps s0 t) s" using assms(1,2) by (simp add: steady_def)
  then show ?thesis by (rule wp_mono) (use assms(3,4) in blast)+
qed

lemma quiet_ret [quiet_intros]: "quiet (ret a)"
  by (simp add: quiet_def wp_simps)

lemma quiet_gets [quiet_intros]: "quiet (gets f)"
  by (simp add: quiet_def wp_simps)

lemma quiet_fatal [quiet_intros]: "fatal e \<Longrightarrow> quiet (throw e)"
  by (simp add: quiet_def wp_simps)

lemma quiet_deref [quiet_intros]: "quiet (deref k)"
  by (simp add: quiet_def wp_simps split: option.split)

lemma quiet_bindp [quiet_intros]:
  assumes "quiet m" and "\<And>a. quiet (f a)"
  shows "quiet (bindp m f)"
  unfolding quiet_def wp_bindp
  by (intro allI impI) (rule wp_quiet [OF assms(1)], assumption, rule wp_quiet [OF assms(2)], auto)

lemma quiet_seqp [quiet_intros]: "quiet m \<Longrightarrow> quiet n \<Longrightarrow> quiet (seqp m n)"
  unfolding seqp_def by (rule quiet_bindp)

lemma quiet_whenp [quiet_intros]: "quiet m \<Longrightarrow> quiet (whenp c m)"
  by (simp add: whenp_def quiet_ret)

lemma quiet_if [quiet_intros]: "quiet m \<Longrightarrow> quiet n \<Longrightarrow> quiet (if c then m else n)"
  by simp

lemma quiet_case_prod [quiet_intros]: "(\<And>a b. quiet (f a b)) \<Longrightarrow> quiet (case x of (a, b) \<Rightarrow> f a b)"
  by (simp split: prod.split)

lemma quiet_forp [quiet_intros]: "(\<And>x. quiet (f x)) \<Longrightarrow> quiet (forp xs f)"
  by (induction xs) (simp_all add: quiet_intros)

lemma quiet_steady: "quiet m \<Longrightarrow> steady m"
  unfolding steady_def
  by (intro allI impI) (rule wp_quiet [OF _ refl], assumption, auto intro: keeps_view)

lemma pure_steady: "pure_prog P m \<Longrightarrow> steady m"
  unfolding steady_def
  by (intro allI impI) (rule wp_pure [OF _ refl], assumption, auto intro: keeps_view)

lemma steady_throw [steady_intros]: "steady (throw e)"
  by (simp add: steady_def wp_simps)

lemma steady_bindp [steady_intros]:
  assumes "steady m" and "\<And>a. steady (f a)"
  shows "steady (bindp m f)"
  unfolding steady_def wp_bindp
  by (intro allI impI) (rule wp_steady [OF assms(1)], assumption, rule wp_steady [OF assms(2)], auto)

lemma steady_seqp [steady_intros]: "steady m \<Longrightarrow> steady n \<Longrightarrow> steady (seqp m n)"
  unfolding seqp_def by (rule steady_bindp)

lemma steady_whenp [steady_intros]: "(c \<Longrightarrow> steady m) \<Longrightarrow> steady (whenp c m)"
  by (cases c) (simp_all add: whenp_def quiet_ret quiet_steady)

lemma steady_if [steady_intros]: "(c \<Longrightarrow> steady m) \<Longrightarrow> (\<not> c \<Longrightarrow> steady n) \<Longrightarrow> steady (if c then m else n)"
  by simp

lemma steady_case_option [steady_intros]:
  "(x = None \<Longrightarrow> steady m) \<Longrightarrow> (\<And>y. x = Some y \<Longrightarrow> steady (f y)) \<Longrightarrow> steady (case x of None \<Rightarrow> m | Some y \<Rightarrow> f y)"
  by (simp split: option.split)

lemma steady_case_prod [steady_intros]: "(\<And>a b. steady (f a b)) \<Longrightarrow> steady (case x of (a, b) \<Rightarrow> f a b)"
  by (simp split: prod.split)

lemma steady_basic [steady_intros]: "steady (ret a)" "steady (gets f)" "steady (deref k)"
  by (simp_all add: quiet_steady quiet_intros)

lemma steady_lift [steady_intros]: "steady (lift x)"
  by (simp add: steady_def wp_simps split: sum.split)

text \<open>A program whose behaviour depends on facts about the current state.\<close>

lemma steadyI:
  assumes "\<And>s. core_inv s \<Longrightarrow> wp m (\<lambda>_ t. core_inv t \<and> core_le s t) (\<lambda>e t. fatal e \<or> core_inv t \<and> core_le s t) s"
  shows "steady m"
  unfolding steady_def
proof (intro allI impI)
  fix s0 s :: "'a core_scheme"
  assume k: "keeps s0 s"
  have "wp m (\<lambda>_ t. core_inv t \<and> core_le s t) (\<lambda>e t. fatal e \<or> core_inv t \<and> core_le s t) s"
    using assms k by (simp add: keeps_def)
  then show "wp m (\<lambda>_. keeps s0) (\<lambda>e t. fatal e \<or> keeps s0 t) s"
    by (rule wp_mono) (use keeps_trans [OF k] in auto)
qed

section \<open>Delivery\<close>

lemma wp_get_delivered_blk [wp_simps]:
  "wp (get_delivered_blk h) Q E s = (if is_delivered (cache s) h then Q h s else E BlockNotDelivered s)"
  by (simp add: get_delivered_blk_def wp_simps is_delivered_def find_blk_def cache_def split: option.split)

lemma set_cache_same: "cache s = c \<Longrightarrow> set_cache c s = s"
  by (auto simp: set_cache_def cache_def)

lemma set_cache_triv: "cache s k = Some b \<Longrightarrow> set_cache ((cache s)(k \<mapsto> b)) s = s"
  by (rule set_cache_same) auto

lemma is_delivered_upd:
  "c k = Some b \<Longrightarrow> delivered b' = delivered b \<Longrightarrow> is_delivered (c(k \<mapsto> b')) h = is_delivered c h"
  by (simp add: is_delivered_def)

text \<open>The loop that collects the parents: it stops at the first hash whose block is not delivered.\<close>

lemma deliver_parents:
  assumes "cache s k = Some b"
  shows "wp (forp hs (\<lambda>h. bindp (get_delivered_blk h) (\<lambda>p. assign k (\<lambda>b. b\<lparr>parents := parents b @ [p]\<rparr>))))
    (\<lambda>_ t. t = set_cache ((cache s)(k \<mapsto> b\<lparr>parents := parents b @ hs\<rparr>)) s \<and> (\<forall>h \<in> set hs. is_delivered (cache s) h))
    (\<lambda>e t. e = BlockNotDelivered \<and> (\<exists>ps. t = set_cache ((cache s)(k \<mapsto> b\<lparr>parents := ps\<rparr>)) s) \<and>
       \<not> (\<forall>h \<in> set hs. is_delivered (cache s) h)) s"
  using assms
proof (induction hs arbitrary: s b)
  case Nil
  have "b\<lparr>parents := parents b\<rparr> = b" by simp
  then show ?case unfolding forp.simps wp_ret append_Nil2 by (simp only: set_cache_triv [OF Nil]) simp
next
  case (Cons h hs)
  show ?case
  proof (cases "is_delivered (cache s) h")
    case True
    let ?b = "b\<lparr>parents := parents b @ [h]\<rparr>" and ?s = "set_cache ((cache s)(k \<mapsto> b\<lparr>parents := parents b @ [h]\<rparr>)) s"
    have d: "is_delivered ((cache s)(k \<mapsto> ?b)) x = is_delivered (cache s) x" for x
      by (rule is_delivered_upd [of "cache s", OF Cons.prems]) simp
    have k: "cache ?s k = Some ?b" by simp
    show ?thesis
      unfolding forp.simps wp_seqp wp_bindp wp_get_delivered_blk wp_assign Cons.prems option.case if_P [OF True]
      by (rule wp_mono [OF Cons.IH [OF k]]) (use True in \<open>simp_all only: d cache_set_cache set_cache_set_cache fun_upd_upd, auto\<close>)
  next
    case False
    have "b\<lparr>parents := parents b\<rparr> = b" by simp
    then have "s = set_cache ((cache s)(k \<mapsto> b\<lparr>parents := parents b\<rparr>)) s"
      by (simp only: set_cache_triv [OF Cons.prems])
    then have "\<exists>ps. s = set_cache ((cache s)(k \<mapsto> b\<lparr>parents := ps\<rparr>)) s" ..
    then show ?thesis
      unfolding forp.simps wp_seqp wp_bindp wp_get_delivered_blk if_not_P [OF False] using False by simp
  qed
qed

lemma core_inv_blk: "core_inv s \<Longrightarrow> cache s k = Some b \<Longrightarrow> blk_ok (cache s) (b0 s) k b"
  by (auto simp: core_inv_def intro: cache_okD)

text \<open>The block after delivery.\<close>

definition delivered_blk :: "(u256 \<rightharpoonup> block) \<Rightarrow> block \<Rightarrow> block" where
  "delivered_blk c b = b\<lparr>parents := parent_hashes b, height := hgt c (hd (parent_hashes b)) + 1,
     qc_ref := (case qc b of None \<Rightarrow> qc_ref b | Some q \<Rightarrow> Some (qc_obj_hash q)), delivered := True\<rparr>"

definition deliverable :: "(u256 \<rightharpoonup> block) \<Rightarrow> block \<Rightarrow> bool" where
  "deliverable c b \<longleftrightarrow> parent_hashes b \<noteq> [] \<and> (\<forall>h \<in> set (parent_hashes b). is_delivered c h) \<and>
     (\<forall>q. qc b = Some q \<longrightarrow> c (qc_obj_hash q) \<noteq> None)"

lemma delivered_blk_ok:
  assumes ext: "cache_ext c (c(k \<mapsto> delivered_blk c b))" and "hash b = k" and "k \<noteq> g" and d: "deliverable c b"
    and "\<And>q. self_qc b = Some q \<Longrightarrow> qc_obj_hash q = k" and "qc b = None \<Longrightarrow> qc_ref b = None"
  shows "blk_ok (c(k \<mapsto> delivered_blk c b)) g k (delivered_blk c b)"
proof -
  let ?b = "delivered_blk c b"
  have "linked c ?b" using d assms(6) by (auto simp: linked_def delivered_blk_def deliverable_def split: option.split)
  then have "linked (c(k \<mapsto> ?b)) ?b" by (rule linked_ext [OF ext])
  moreover have "(c(k \<mapsto> ?b)) r \<noteq> None \<and> (\<exists>q. qc ?b = Some q \<and> qc_obj_hash q = r)" if "qc_ref ?b = Some r" for r
    using that d assms(6) by (auto simp: delivered_blk_def deliverable_def split: option.splits)
  ultimately show ?thesis
    using assms(2,3,5) unfolding blk_ok_def by (simp add: delivered_blk_def)
qed

lemma core_step_links:
  assumes inv: "core_inv s" and b: "cache s k = Some b" and nd: "\<not> delivered b" and d: "deliverable (cache s) b"
  shows "core_inv (set_cache ((cache s)(k \<mapsto> delivered_blk (cache s) b)) s) \<and>
    core_le s (set_cache ((cache s)(k \<mapsto> delivered_blk (cache s) b)) s)"
proof -
  have ok: "blk_ok (cache s) (b0 s) k b" by (rule core_inv_blk [OF inv b])
  then have f: "k \<noteq> b0 s" "height b = 0" "qc_ref b = None" "hash b = k"
    using nd by (auto simp: blk_ok_def split: if_splits)
  have ext: "blk_ext b (delivered_blk (cache s) b)" using nd f by (simp add: blk_ext_def delivered_blk_def)
  have "blk_ok ((cache s)(k \<mapsto> delivered_blk (cache s) b)) (b0 s) k (delivered_blk (cache s) b)"
    using ok f d by (intro delivered_blk_ok [OF cache_ext_upd [of "cache s", OF b ext]]) (auto simp: blk_ok_def)
  then show ?thesis by (intro core_step_blk [OF inv b ext]) (simp_all add: delivered_blk_def)
qed

text \<open>A failed attempt leaves an arbitrary prefix of the parents behind.\<close>

lemma core_step_parents:
  assumes inv: "core_inv s" and b: "cache s k = Some b" and nd: "\<not> delivered b"
  shows "core_inv (set_cache ((cache s)(k \<mapsto> b\<lparr>parents := ps\<rparr>)) s) \<and>
    core_le s (set_cache ((cache s)(k \<mapsto> b\<lparr>parents := ps\<rparr>)) s)"
proof -
  let ?b = "b\<lparr>parents := ps\<rparr>"
  have ok: "blk_ok (cache s) (b0 s) k b" by (rule core_inv_blk [OF inv b])
  have kg: "k \<noteq> b0 s" using ok nd by (auto simp: blk_ok_def)
  have ext: "blk_ext b ?b" using nd by (simp add: blk_ext_def)
  have "blk_ok ((cache s)(k \<mapsto> ?b)) (b0 s) k b"
    by (rule blk_ok_ext [OF cache_ext_upd [of "cache s", OF b ext] ok])
  then have "blk_ok ((cache s)(k \<mapsto> ?b)) (b0 s) k ?b"
    using kg nd by (simp add: blk_ok_def)
  then show ?thesis by (intro core_step_blk [OF inv b ext]) simp_all
qed

lemma find_blk_storage [simp]: "find_blk h (storage s) = cache s h"
  by (simp add: find_blk_def cache_def)

lemma deliver_links:
  assumes b: "cache s k = Some b" and nd: "\<not> delivered b"
  shows "wp (seqp (assign k (\<lambda>b. b\<lparr>parents := []\<rparr>))
      (forp hs (\<lambda>h. bindp (get_delivered_blk h) (\<lambda>p. assign k (\<lambda>b. b\<lparr>parents := parents b @ [p]\<rparr>)))))
    (\<lambda>_ t. t = set_cache ((cache s)(k \<mapsto> b\<lparr>parents := hs\<rparr>)) s \<and> (\<forall>h \<in> set hs. is_delivered (cache s) h))
    (\<lambda>e t. e = BlockNotDelivered \<and> (\<exists>ps. t = set_cache ((cache s)(k \<mapsto> b\<lparr>parents := ps\<rparr>)) s) \<and>
       \<not> (\<forall>h \<in> set hs. is_delivered (cache s) h)) s"
proof -
  let ?b = "b\<lparr>parents := []\<rparr>" and ?s = "set_cache ((cache s)(k \<mapsto> b\<lparr>parents := []\<rparr>)) s"
  have d: "is_delivered ((cache s)(k \<mapsto> ?b)) x = is_delivered (cache s) x" for x
    by (rule is_delivered_upd [of "cache s", OF b]) simp
  have k: "cache ?s k = Some ?b" by simp
  have r: "(?b)\<lparr>parents := ps\<rparr> = b\<lparr>parents := ps\<rparr>" for ps by simp
  have e: "parents ?b @ hs = hs" by simp
  show ?thesis
    unfolding wp_seqp wp_assign b option.case
    by (rule wp_mono [OF deliver_parents [OF k]])
      (simp only: d cache_set_cache set_cache_set_cache fun_upd_upd r e, blast)+
qed

text \<open>A deliverable block is delivered, with exactly the fields filled in; nothing else changes.\<close>

lemma wp_quiet_store: "quiet m \<Longrightarrow> wp m (\<lambda>_ u. view u = view t) (\<lambda>e _. fatal e) t"
  by (simp add: quiet_def)

lemma deliver_success:
  assumes b: "cache s k = Some b" and nd: "\<not> delivered b" and d: "deliverable (cache s) b"
    and st: "\<And>t. cache t k \<noteq> None \<Longrightarrow> wp (vt_store_in_map_for_mc vt k) (\<lambda>_ u. view u = view t) (\<lambda>e _. F e) t"
  shows "wp (on_deliver_blk vt k)
    (\<lambda>r t. r \<and> view t = view (set_cache ((cache s)(k \<mapsto> delivered_blk (cache s) b)) s)) (\<lambda>e _. F e) s"
proof -
  obtain p ps where ph: "parent_hashes b = p # ps" using d by (cases "parent_hashes b") (auto simp: deliverable_def)
  then obtain pb where pb: "cache s p = Some pb" "delivered pb"
    using d by (auto simp: deliverable_def is_delivered_def split: option.splits)
  then have pk: "p \<noteq> k" "height pb = hgt (cache s) p" using b nd by (auto simp: hgt_def)
  define b1 where "b1 = b\<lparr>parents := parent_hashes b, height := hgt (cache s) p + 1\<rparr>"
  have d1: "delivered_blk (cache s) b = b1\<lparr>qc_ref := (case qc b of None \<Rightarrow> qc_ref b | Some q \<Rightarrow> Some (qc_obj_hash q)), delivered := True\<rparr>"
    by (simp add: delivered_blk_def b1_def ph)
  let ?Q = "\<lambda>r t. r \<and> view t = view (set_cache ((cache s)(k \<mapsto> delivered_blk (cache s) b)) s)"
  have fin: "wp (seqp (modify (\<lambda>s. s\<lparr>tails := insert k (tails s - T)\<rparr>)) (seqp (assign k (\<lambda>b. b\<lparr>delivered := True\<rparr>))
      (seqp (vt_store_in_map_for_mc vt k) (ret True)))) ?Q (\<lambda>e _. F e) (set_cache ((cache s)(k \<mapsto> b2)) s)"
    if "b2\<lparr>delivered := True\<rparr> = delivered_blk (cache s) b" for b2 T
  proof -
    have v: "view (set_cache ((cache s)(k \<mapsto> b2\<lparr>delivered := True\<rparr>)) ((set_cache ((cache s)(k \<mapsto> b2)) s)\<lparr>tails := X\<rparr>))
        = view (set_cache ((cache s)(k \<mapsto> delivered_blk (cache s) b)) s)" for X
      using that by (simp add: view_eq)
    show ?thesis
      by (simp only: wp_seqp wp_modify wp_assign cache_upd_fields cache_set_cache fun_upd_same option.case fun_upd_upd)
        (rule wp_mono [OF st], simp_all only: wp_ret simp_thms v, simp)
  qed
  have qcr: "wp (set_qc_ref k) (\<lambda>_. wp (seqp (modify (\<lambda>s. s\<lparr>tails := insert k (tails s - T)\<rparr>)) (seqp (assign k (\<lambda>b. b\<lparr>delivered := True\<rparr>))
      (seqp (vt_store_in_map_for_mc vt k) (ret True)))) ?Q (\<lambda>e _. F e)) (\<lambda>e _. F e) (set_cache ((cache s)(k \<mapsto> b1)) s)" for T
  proof (cases "qc b")
    case None
    then have "qc b1 = None" "b1\<lparr>delivered := True\<rparr> = delivered_blk (cache s) b" by (simp_all add: b1_def delivered_blk_def ph)
    then show ?thesis using fin [of b1 T] by (simp add: set_qc_ref_def wp_bindp wp_deref wp_ret del: fun_upd_apply fun_upd_same)
        (simp add: wp_ret)
  next
    case (Some q)
    then have q: "qc b1 = Some q" "((cache s)(k \<mapsto> b1)) (qc_obj_hash q) \<noteq> None" using d by (auto simp: b1_def deliverable_def)
    then obtain x where x: "((cache s)(k \<mapsto> b1)) (qc_obj_hash q) = Some x" by blast
    have "b1\<lparr>qc_ref := Some (qc_obj_hash q), delivered := True\<rparr> = delivered_blk (cache s) b"
      by (simp add: d1 Some)
    then have "wp (seqp (modify (\<lambda>s. s\<lparr>tails := insert k (tails s - T)\<rparr>)) (seqp (assign k (\<lambda>b. b\<lparr>delivered := True\<rparr>))
      (seqp (vt_store_in_map_for_mc vt k) (ret True)))) ?Q (\<lambda>e _. F e)
      (set_cache ((cache s)(k \<mapsto> b1\<lparr>qc_ref := Some (qc_obj_hash q)\<rparr>)) s)" by (intro fin) simp
    then show ?thesis
      unfolding set_qc_ref_def wp_bindp wp_deref cache_set_cache fun_upd_same option.case q(1) wp_gets find_blk_storage x
        wp_assign set_cache_set_cache fun_upd_upd .
  qed
  let ?t = "set_cache ((cache s)(k \<mapsto> b\<lparr>parents := parent_hashes b\<rparr>)) s"
  have tk: "cache ?t k = Some (b\<lparr>parents := parent_hashes b\<rparr>)" "((cache s)(k \<mapsto> b\<lparr>parents := parent_hashes b\<rparr>)) p = Some pb" using pk pb by simp_all
  have par: "parents (b\<lparr>parents := parent_hashes b\<rparr>) = p # ps" by (simp add: ph)
  have b1': "b\<lparr>parents := parent_hashes b, height := height pb + 1\<rparr> = b1" by (simp add: b1_def pk)
  have rest: "wp (bindp (deref k) (\<lambda>b. bindp (parent0 b) (\<lambda>p. bindp (deref p) (\<lambda>pb.
          seqp (assign k (\<lambda>b. b\<lparr>height := height pb + 1\<rparr>)) (seqp (set_qc_ref k)
          (seqp (modify (\<lambda>s. s\<lparr>tails := insert k (tails s - set (parents b))\<rparr>))
          (seqp (assign k (\<lambda>b. b\<lparr>delivered := True\<rparr>)) (seqp (vt_store_in_map_for_mc vt k) (ret True))))))))) ?Q (\<lambda>e _. F e) ?t"
    unfolding wp_bindp wp_deref tk option.case wp_parent0 par list.case wp_seqp [of "assign k _" "seqp (set_qc_ref k) _"] wp_assign
      cache_set_cache fun_upd_same set_cache_set_cache fun_upd_upd b1' wp_seqp [of "set_qc_ref k"]
    by (rule qcr)
  have all: "\<forall>h \<in> set (parent_hashes b). is_delivered (cache s) h" using d by (simp add: deliverable_def)
  have "wp (seqp (seqp (assign k (\<lambda>b. b\<lparr>parents := []\<rparr>)) (forp (parent_hashes b) (\<lambda>h.
          bindp (get_delivered_blk h) (\<lambda>p. assign k (\<lambda>b. b\<lparr>parents := parents b @ [p]\<rparr>)))))
        (bindp (deref k) (\<lambda>b. bindp (parent0 b) (\<lambda>p. bindp (deref p) (\<lambda>pb.
          seqp (assign k (\<lambda>b. b\<lparr>height := height pb + 1\<rparr>)) (seqp (set_qc_ref k)
          (seqp (modify (\<lambda>s. s\<lparr>tails := insert k (tails s - set (parents b))\<rparr>))
          (seqp (assign k (\<lambda>b. b\<lparr>delivered := True\<rparr>)) (seqp (vt_store_in_map_for_mc vt k) (ret True)))))))))) ?Q (\<lambda>e _. F e) s"
    unfolding wp_seqp [of "seqp _ _"]
    by (rule wp_mono [OF deliver_links [OF b nd]]) (use rest all in blast)+
  then show ?thesis
    using b nd by (simp add: on_deliver_blk_def wp_simps del: fun_upd_apply)
qed

text \<open>If some parent is not delivered, the exception leaves only a prefix of the parents behind.\<close>

lemma deliver_failure:
  assumes b: "cache s k = Some b" and nd: "\<not> delivered b" and np: "\<not> (\<forall>h \<in> set (parent_hashes b). is_delivered (cache s) h)"
  shows "wp (on_deliver_blk vt k) (\<lambda>_ _. False)
    (\<lambda>e t. e = BlockNotDelivered \<and> (\<exists>ps. t = set_cache ((cache s)(k \<mapsto> b\<lparr>parents := ps\<rparr>)) s)) s"
proof -
  have "wp (seqp (seqp (assign k (\<lambda>b. b\<lparr>parents := []\<rparr>)) (forp (parent_hashes b) (\<lambda>h.
          bindp (get_delivered_blk h) (\<lambda>p. assign k (\<lambda>b. b\<lparr>parents := parents b @ [p]\<rparr>))))) m) (\<lambda>_ _. False)
      (\<lambda>e t. e = BlockNotDelivered \<and> (\<exists>ps. t = set_cache ((cache s)(k \<mapsto> b\<lparr>parents := ps\<rparr>)) s)) s" for m :: "('a core_scheme, bool) prog"
    unfolding wp_seqp [of "seqp _ _"]
    by (rule wp_mono [OF deliver_links [OF b nd]]) (use np in blast)+
  then show ?thesis
    using b nd by (simp add: on_deliver_blk_def wp_simps del: fun_upd_apply)
qed

lemma deliver_no_qc:
  assumes b: "cache s k = Some b" and nd: "\<not> delivered b" and all: "\<forall>h \<in> set (parent_hashes b). is_delivered (cache s) h"
    and ph: "parent_hashes b = p # ps" and q: "qc b = Some q" "cache s (qc_obj_hash q) = None"
  shows "wp (on_deliver_blk vt k) (\<lambda>_ _. False) (\<lambda>e _. e = QcBlockNotFetched) s"
proof -
  obtain pb where pb: "cache s p = Some pb" "delivered pb"
    using all ph by (auto simp: is_delivered_def split: option.splits)
  then have pk: "p \<noteq> k" using b nd by auto
  have qk: "qc_obj_hash q \<noteq> k" using b q by auto
  let ?t = "set_cache ((cache s)(k \<mapsto> b\<lparr>parents := parent_hashes b\<rparr>)) s"
  have rest: "wp (bindp (deref k) (\<lambda>b. bindp (parent0 b) (\<lambda>p. bindp (deref p) (\<lambda>pb.
          seqp (assign k (\<lambda>b. b\<lparr>height := height pb + 1\<rparr>)) (seqp (set_qc_ref k) (m b)))))) (\<lambda>_ _. False)
          (\<lambda>e _. e = QcBlockNotFetched) ?t" for m :: "block \<Rightarrow> ('a core_scheme, bool) prog"
    using pk pb ph q qk by (simp add: wp_bindp wp_deref wp_parent0 wp_seqp wp_assign set_qc_ref_def wp_gets wp_throw)
  have "wp (seqp (seqp (assign k (\<lambda>b. b\<lparr>parents := []\<rparr>)) (forp (parent_hashes b) (\<lambda>h.
          bindp (get_delivered_blk h) (\<lambda>p. assign k (\<lambda>b. b\<lparr>parents := parents b @ [p]\<rparr>)))))
        (bindp (deref k) (\<lambda>b. bindp (parent0 b) (\<lambda>p. bindp (deref p) (\<lambda>pb.
          seqp (assign k (\<lambda>b. b\<lparr>height := height pb + 1\<rparr>)) (seqp (set_qc_ref k) (m b))))))) (\<lambda>_ _. False)
          (\<lambda>e _. e = QcBlockNotFetched) s" for m :: "block \<Rightarrow> ('a core_scheme, bool) prog"
    unfolding wp_seqp [of "seqp _ _"]
    by (rule wp_mono [OF deliver_links [OF b nd]]) (elim conjE, hypsubst, rule rest, use all in blast)
  from this [of "\<lambda>b. seqp (modify (\<lambda>s. s\<lparr>tails := insert k (tails s - set (parents b))\<rparr>))
       (seqp (assign k (\<lambda>b. b\<lparr>delivered := True\<rparr>)) (seqp (vt_store_in_map_for_mc vt k) (ret True)))"]
  show ?thesis
    using b nd by (simp add: on_deliver_blk_def wp_simps del: fun_upd_apply)
qed

lemma on_deliver_blk_steady:
  assumes st: "quiet (vt_store_in_map_for_mc vt k)"
  shows "steady (on_deliver_blk vt k)"
proof (rule steadyI)
  fix s :: "'a core_scheme"
  assume inv: "core_inv s"
  let ?Q = "\<lambda>_ t. core_inv t \<and> core_le s t" and ?E = "\<lambda>e t. fatal e \<or> core_inv t \<and> core_le s t"
  show "wp (on_deliver_blk vt k) ?Q ?E s"
  proof (cases "cache s k")
    case None
    then show ?thesis by (simp add: on_deliver_blk_def wp_simps)
  next
    case (Some b)
    consider "delivered b" | "\<not> delivered b" "\<not> (\<forall>h \<in> set (parent_hashes b). is_delivered (cache s) h)"
      | "\<not> delivered b" "parent_hashes b = []" | "\<not> delivered b" "deliverable (cache s) b"
      | p ps q where "\<not> delivered b" "\<forall>h \<in> set (parent_hashes b). is_delivered (cache s) h" "parent_hashes b = p # ps"
          "qc b = Some q" "cache s (qc_obj_hash q) = None"
      unfolding deliverable_def by (metis list.exhaust not_None_eq)
    then show ?thesis
    proof cases
      case 1
      then show ?thesis using Some inv by (simp add: on_deliver_blk_def wp_simps core_le_refl)
    next
      case 2
      show ?thesis
        by (rule wp_mono [OF deliver_failure [OF Some 2]]) (use core_step_parents [OF inv Some 2(1)] in blast)+
    next
      case 3
      then show ?thesis using Some by (simp add: on_deliver_blk_def wp_simps)
    next
      case 4
      have "core_inv t \<and> core_le s t" if "view t = view (set_cache ((cache s)(k \<mapsto> delivered_blk (cache s) b)) s)" for t
        using core_step_links [OF inv Some 4] core_inv_view [OF that] core_le_view [of s s, OF refl that] by simp
      then show ?thesis
        by (intro wp_mono [OF deliver_success [OF Some 4 wp_quiet_store [OF st]]]) blast+
    next
      case 5
      show ?thesis by (rule wp_mono [OF deliver_no_qc [OF Some 5]]) simp_all
    qed
  qed
qed

lemma on_deliver_blk_delivers:
  assumes st: "quiet (vt_store_in_map_for_mc vt k)"
  shows "wp (on_deliver_blk vt k) (\<lambda>_ t. is_delivered (cache t) k) (\<lambda>_ _. True) s"
proof (cases "cache s k")
  case None
  then show ?thesis by (simp add: on_deliver_blk_def wp_simps)
next
  case (Some b)
  consider "delivered b" | "\<not> delivered b" "\<not> (\<forall>h \<in> set (parent_hashes b). is_delivered (cache s) h)"
    | "\<not> delivered b" "parent_hashes b = []" | "\<not> delivered b" "deliverable (cache s) b"
    | p ps q where "\<not> delivered b" "\<forall>h \<in> set (parent_hashes b). is_delivered (cache s) h" "parent_hashes b = p # ps"
        "qc b = Some q" "cache s (qc_obj_hash q) = None"
    unfolding deliverable_def by (metis list.exhaust not_None_eq)
  then show ?thesis
  proof cases
    case 1
    then show ?thesis using Some by (simp add: on_deliver_blk_def wp_simps is_delivered_def)
  next
    case 2
    show ?thesis by (rule wp_mono [OF deliver_failure [OF Some 2]]) simp_all
  next
    case 3
    then show ?thesis using Some by (simp add: on_deliver_blk_def wp_simps)
  next
    case 4
    show ?thesis
      by (rule wp_mono [OF deliver_success [OF Some 4 wp_quiet_store [OF st]]]) (auto simp: view_eq is_delivered_def delivered_blk_def)
  next
    case 5
    show ?thesis by (rule wp_mono [OF deliver_no_qc [OF Some 5]]) simp_all
  qed
qed

section \<open>The contract with the callbacks\<close>

text \<open>
  \<open>HotStuffBase\<close> and the pace maker implement the callbacks. Those of the commit loop must leave the
  protocol state alone, since the loop assigns \<open>b_exec\<close> only after it; certificate creation computes
  a certificate for the given hash; all others may call back into the core, which keeps the
  invariant.
\<close>

locale core_host =
  fixes vt :: "'x core_scheme vtable"
  assumes decide_quiet: "quiet (vt_do_decide vt f kk vv)"
    and consensus_quiet: "quiet (vt_do_consensus vt k)"
    and other_clusters_quiet: "quiet (vt_do_broadcast_proposal_other_clusters vt prop)"
    and leave_set_quiet: "quiet (vt_get_leave_set vt)"
    and start_timer_quiet: "quiet (vt_start_remote_view_change_timer vt cid k)"
    and reset_timer_quiet: "quiet (vt_reset_remote_view_change_timer vt cid)"
    and did_receive_quiet: "quiet (vt_did_receive_mc vt cid)"
    and finished_quiet: "quiet (vt_update_finished_update_cids vt cid)"
    and store_quiet: "quiet (vt_store_in_map_for_mc vt k)"
    and leader_quiet: "quiet (vt_check_leader vt)"
    and part_cert_pure: "pure_prog (\<lambda>_. True) (vt_create_part_cert vt sk h)"
    and quorum_cert_quiet: "quiet_result (\<lambda>q. qc_obj_hash q = h) (vt_create_quorum_cert vt h)"
    and hqc_update_steady: "steady (vt_on_hqc_update vt)"
    and qc_finish_steady: "steady (vt_on_qc_finish vt k)"
    and proposed_keeps: "keeps s0 s \<Longrightarrow> p_blk prop = Some k \<Longrightarrow> is_delivered (cache s) k \<Longrightarrow>
          wp (vt_on_proposed vt prop) (\<lambda>_. keeps s0) (\<lambda>e t. fatal e \<or> keeps s0 t) s"
    and proposal_received_steady: "steady (vt_on_proposal_received vt prop)"
    and vote_steady: "steady (vt_do_vote vt r v)"
    and broadcast_steady: "steady (vt_do_broadcast_proposal vt prop)"
    and LComplain_steady: "steady (vt_send_LComplain vt r cm)"
    and RComplain_steady: "steady (vt_send_RComplain vt r cm)"
    and RComplain_local_steady: "steady (vt_send_RComplain_local vt r cm)"
begin

lemmas quorum_cert_pure = quiet_result_pure [OF quorum_cert_quiet]

lemmas commit_quiet = decide_quiet consensus_quiet other_clusters_quiet leave_set_quiet start_timer_quiet
  reset_timer_quiet did_receive_quiet finished_quiet leader_quiet

lemmas host_steady = hqc_update_steady qc_finish_steady proposal_received_steady vote_steady
  broadcast_steady LComplain_steady RComplain_steady RComplain_local_steady
  pure_steady [OF part_cert_pure] pure_steady [OF quorum_cert_pure]

lemma deliver_steady: "steady (on_deliver_blk vt k)"
  by (rule on_deliver_blk_steady) (rule store_quiet)

end

end
