(* ===== verification/Core_Safety.thy ===== *)
theory Core_Safety
  imports Core_Invariant
begin

text \<open>
  The operations of \<open>HotStuffCore\<close> under the callback contract: highest certificate, lock, commit,
  voting rule, proposals, votes and complaints. Each keeps the invariant and moves forward; the
  commit step is characterised exactly.
\<close>

section \<open>Single assignments\<close>

lemma core_step_hqc:
  assumes "core_inv s" and "is_delivered (cache s) k" and "qc_obj_hash q = k" and "hqc_height s \<le> hgt (cache s) k"
  shows "core_inv (s\<lparr>hqc := Some (k, q)\<rparr>) \<and> core_le s (s\<lparr>hqc := Some (k, q)\<rparr>)"
  using assms by (simp add: core_inv_def core_le_def hqc_height_def anc_refl)

lemma core_step_lock:
  assumes "core_inv s" and "is_delivered (cache s) k" and "hgt (cache s) (b_lock s) \<le> hgt (cache s) k"
    and "lock_cert (cache s) (b0 s) k"
  shows "core_inv (s\<lparr>b_lock := k\<rparr>) \<and> core_le s (s\<lparr>b_lock := k\<rparr>)"
proof -
  have "hqc_height (s\<lparr>b_lock := k\<rparr>) = hqc_height s" by (simp add: hqc_height_def split: option.split)
  moreover have "votes_ok (cache s) (b0 s) (vheight s) k (vote_log s)"
    using assms(1) order_trans [OF _ assms(3)] by (fastforce simp: core_inv_def log_inv_def votes_ok_def)
  then have "log_inv (s\<lparr>b_lock := k\<rparr>)"
    using assms order_trans [OF _ assms(3)] by (auto simp: core_inv_def log_inv_def)
  ultimately show ?thesis using assms by (simp add: core_inv_def core_le_def anc_refl)
qed

text \<open>The lock a vote for \<open>k\<close> would be recorded with follows the locking rule.\<close>

definition lock_ready :: "'x core_scheme \<Rightarrow> u256 \<Rightarrow> bool" where
  "lock_ready s k \<longleftrightarrow> own_name s \<or> (nowrap (cache s) (b0 s) \<longrightarrow> lock_rule (cache s) k (b_lock s))"

lemma core_step_vote:
  assumes inv: "core_inv s" and b: "cache s k = Some b" "vheight s < height b"
    and rule: "vote_rule (cache s) k (b_lock s)" and ready: "lock_ready s k"
  shows "core_inv (s\<lparr>vheight := height b, vote_log := vote_log s @ [(k, b_lock s)]\<rparr>) \<and>
    core_le s (s\<lparr>vheight := height b, vote_log := vote_log s @ [(k, b_lock s)]\<rparr>)"
proof -
  let ?t = "s\<lparr>vheight := height b, vote_log := vote_log s @ [(k, b_lock s)]\<rparr>"
  have h: "hgt (cache s) k = height b" using b by (simp add: hgt_def)
  then have nz: "hgt (cache s) k \<noteq> 0" using b(2) by auto
  have dk: "is_delivered (cache s) k" using inv nz by (auto simp: core_inv_def intro: tall_delivered)
  have v: "votes_ok (cache s) (b0 s) (vheight s) (b_lock s) (vote_log s)" and dl: "is_delivered (cache s) (b_lock s)"
    and lc: "lock_cert (cache s) (b0 s) (b_lock s)"
    using inv by (auto simp: core_inv_def log_inv_def)
  have "votes_ok (cache s) (b0 s) (height b) (b_lock s) (vote_log s @ [(k, b_lock s)])"
    using v dk dl nz h rule lc b(2) unfolding votes_ok_def sorted_wrt_append by fastforce
  moreover have "nowrap (cache s) (b0 s) \<longrightarrow> own_name s \<or> (\<forall>(k', l) \<in> set (vote_log s @ [(k, b_lock s)]). lock_rule (cache s) k' l)"
    using inv ready by (auto simp: core_inv_def log_inv_def lock_ready_def)
  ultimately have "log_inv ?t" using inv by (simp add: core_inv_def log_inv_def)
  moreover have "hqc_height ?t = hqc_height s" by (simp add: hqc_height_def split: option.split)
  ultimately show ?thesis using inv b(2) by (simp add: core_inv_def core_le_def anc_refl)
qed

lemma lock_ready_keeps:
  assumes "keeps s t" and "core_inv s" and "b_lock t = b_lock s" and "is_delivered (cache s) k" and "k \<noteq> b0 s" and "lock_ready s k"
  shows "lock_ready t k"
proof -
  have ext: "cache_ext (cache s) (cache t)" and g: "b0 t = b0 s" and o: "own_name s \<longrightarrow> own_name t"
    using assms(1) by (auto simp: keeps_def core_le_def)
  have ok: "cache_ok (cache s) (b0 s)" "cache_ok (cache t) (b0 s)" "is_delivered (cache s) (b_lock s)"
    using assms(1,2) g by (auto simp: keeps_def core_inv_def)
  show ?thesis
    using assms(3-6) o g nowrap_ext [OF ext] lock_rule_ext [OF ok(1) ext assms(4,5) ok(3) _ ok(2)] by (auto simp: lock_ready_def)
qed

section \<open>Marking the committed blocks\<close>

definition mark :: "u256 set \<Rightarrow> (u256 \<rightharpoonup> block) \<Rightarrow> (u256 \<rightharpoonup> block)" where
  "mark S c = (\<lambda>k. map_option (\<lambda>b. if k \<in> S then b\<lparr>decision := 1\<rparr> else b) (c k))"

lemma mark_empty [simp]: "mark {} c = c"
  by (simp add: mark_def option.map_ident)

lemma mark_upd: "c k = Some b \<Longrightarrow> mark S (c(k \<mapsto> b\<lparr>decision := 1\<rparr>)) = mark (insert k S) c"
  by (auto simp: mark_def fun_eq_iff)

lemma mark_ext: "cache_ext c (mark S c)"
  by (auto simp: cache_ext_def mark_def blk_ext_def)

lemma mark_ok:
  assumes "cache_ok c g"
  shows "cache_ok (mark S c) g"
  unfolding cache_ok_def
proof (intro conjI allI impI)
  show "mark S c g \<noteq> None" using assms by (simp add: cache_ok_def mark_def)
next
  fix k b' assume "mark S c k = Some b'"
  then obtain b where b: "c k = Some b" "b' = (if k \<in> S then b\<lparr>decision := 1\<rparr> else b)" by (auto simp: mark_def)
  have ok: "blk_ok (mark S c) g k b" by (rule blk_ok_ext [OF mark_ext cache_okD [OF assms b(1)]])
  have "\<And>q. self_qc b = Some q \<Longrightarrow> qc_obj_hash q = k"
    using cache_okD [OF assms b(1)] by (simp add: blk_ok_def)
  then show "blk_ok (mark S c) g k b'"
    using b(2) by (intro blk_ok_same_links [OF ok]) (auto split: if_splits)
qed

text \<open>Committing the path from the new head down to the last executed block.\<close>

lemma core_step_commit:
  assumes inv: "core_inv s" and dlv: "is_delivered (cache s) k" and path: "path_to (cache s) k q (b_exec s)"
    and wit: "commit_wit (cache s) k" and low: "nowrap (cache s) (b0 s) \<Longrightarrow> hgt (cache s) k \<le> hgt (cache s) (b_lock s)"
    and t: "view t = view ((set_cache (mark (set q) (cache s)) s)\<lparr>b_exec := k\<rparr>)"
  shows "core_inv t \<and> core_le s t"
proof -
  let ?c = "cache s" and ?m = "mark (set q) (cache s)" and ?t = "(set_cache (mark (set q) (cache s)) s)\<lparr>b_exec := k\<rparr>"
  have ok: "cache_ok ?c (b0 s)" and ex: "is_delivered ?c (b_exec s)" using inv by (auto simp: core_inv_def)
  have anc_m: "anc ?m a k \<longleftrightarrow> anc ?c a k" for a by (rule anc_ext_iff [OF ok mark_ext dlv])
  have "decision b' \<noteq> 0 \<longleftrightarrow> anc ?m x k" if "?m x = Some b'" for x b'
  proof -
    obtain b where b: "?c x = Some b" "b' = (if x \<in> set q then b\<lparr>decision := 1\<rparr> else b)"
      using \<open>?m x = Some b'\<close> by (auto simp: mark_def)
    then have "decision b' \<noteq> 0 \<longleftrightarrow> x \<in> set q \<or> anc ?c x (b_exec s)"
      using inv by (auto simp: core_inv_def)
    also have "\<dots> \<longleftrightarrow> anc ?m x k" using anc_path [OF path, of x] anc_m by simp
    finally show ?thesis .
  qed
  moreover have "cache_ok ?m (b0 s)" "is_delivered ?m k" "is_delivered ?m (b_lock s)" "is_delivered ?m (hqc_tail s)"
    "\<And>h x. hqc s = Some (h, x) \<Longrightarrow> is_delivered ?m h \<and> qc_obj_hash x = h"
    using inv mark_ok [OF ok] dlv ext_delivered [OF mark_ext]
    unfolding core_inv_def by blast+
  moreover have "log_inv ?t"
  proof -
    have lk: "is_delivered ?c (b_lock s)" using inv by (simp add: core_inv_def)
    have m: "log_inv (set_cache ?m s)" using inv by (intro log_inv_cache ok mark_ok mark_ext ex lk) (simp add: core_inv_def)
    have "hgt ?m k = hgt ?c k" "hgt ?m (b_lock s) = hgt ?c (b_lock s)"
      using ext_hgt_delivered [OF mark_ext dlv] ext_hgt_delivered [OF mark_ext lk] by simp_all
    then show ?thesis
      using m low nowrap_ext [OF mark_ext, of _ _ "b0 s"] commit_wit_ext [OF ok mark_ext wit] by (simp add: log_inv_def)
  qed
  ultimately have "core_inv ?t" by (simp add: core_inv_def)
  moreover have "core_le s ?t"
    using mark_ext [of ?c "set q"] ext_hgt_mono [OF mark_ext] path_anc [OF path] anc_m
    by (auto simp: core_le_def hqc_height_def split: option.split)
  ultimately show ?thesis using core_inv_view [OF t] core_le_view [of s s, OF refl t] by simp
qed

section \<open>Composition with facts about the values read\<close>

lemma steady_deref_ok:
  assumes "\<And>c g b. blk_ok c g k b \<Longrightarrow> steady (f b)"
  shows "steady (bindp (deref k) f)"
proof (rule steadyI)
  fix s :: "'a core_scheme"
  assume inv: "core_inv s"
  show "wp (bindp (deref k) f) (\<lambda>_ t. core_inv t \<and> core_le s t) (\<lambda>e t. fatal e \<or> core_inv t \<and> core_le s t) s"
  proof (cases "cache s k")
    case (Some b)
    then have "steady (f b)" using assms core_inv_blk [OF inv] by blast
    then show ?thesis
      using Some keeps_refl [OF inv] unfolding wp_bindp wp_deref by (auto simp: keeps_def intro: wp_steady)
  qed (simp add: wp_bindp wp_deref)
qed

lemma steady_pure:
  assumes "pure_prog P m" and "\<And>a. P a \<Longrightarrow> steady (f a)"
  shows "steady (bindp m f)"
  unfolding steady_def wp_bindp
  by (intro allI impI) (rule wp_pure [OF assms(1) refl], rule wp_steady [OF assms(2)], auto intro: keeps_view)

lemma steady_lift_bindp: "(\<And>a. x = Inr a \<Longrightarrow> steady (f a)) \<Longrightarrow> steady (bindp (lift x) f)"
  by (cases x) (simp_all add: steady_throw)

lemma steady_delivered_bindp: "steady (f h) \<Longrightarrow> steady (bindp (get_delivered_blk h) f)"
  unfolding steady_def wp_bindp wp_get_delivered_blk by simp

lemma steady_field:
  assumes f: "\<And>b. f b = b\<lparr>voted := V b, lcomplains := L b, rcomplains := R b, self_qc := S b\<rparr>"
    and V: "\<And>b. voted b \<subseteq> V b" and S: "\<And>b. S b = self_qc b \<or> (\<exists>q. S b = Some q \<and> qc_obj_hash q = k)"
  shows "steady (assign k f)"
proof (rule steadyI)
  fix s :: "'a core_scheme"
  assume inv: "core_inv s"
  have "core_inv (set_cache ((cache s)(k \<mapsto> f b)) s) \<and> core_le s (set_cache ((cache s)(k \<mapsto> f b)) s)"
    if b: "cache s k = Some b" for b
    using core_inv_blk [OF inv b] S [of b] by (intro core_step_field [OF inv b f V]) (auto simp: blk_ok_def)
  then show "wp (assign k f) (\<lambda>_ t. core_inv t \<and> core_le s t) (\<lambda>e t. fatal e \<or> core_inv t \<and> core_le s t) s"
    by (simp add: wp_assign split: option.split)
qed

lemma steady_voted [steady_intros]: "steady (assign k (\<lambda>b. b\<lparr>voted := insert r (voted b)\<rparr>))"
  by (rule steady_field [where V = "\<lambda>b. insert r (voted b)" and L = "lcomplains" and R = "rcomplains" and S = self_qc]) auto

lemma steady_lcomplains [steady_intros]: "steady (assign k (\<lambda>b. b\<lparr>lcomplains := insert r (lcomplains b)\<rparr>))"
  by (rule steady_field [where V = "voted" and L = "\<lambda>b. insert r (lcomplains b)" and R = "rcomplains" and S = self_qc]) auto

lemma steady_rcomplains [steady_intros]: "steady (assign k (\<lambda>b. b\<lparr>rcomplains := insert r (rcomplains b)\<rparr>))"
  by (rule steady_field [where V = "voted" and L = "lcomplains" and R = "\<lambda>b. insert r (rcomplains b)" and S = self_qc]) auto

lemma steady_self_qc: "qc_obj_hash q = k \<Longrightarrow> steady (assign k (\<lambda>b. b\<lparr>self_qc := Some q\<rparr>))"
  by (rule steady_field [where V = voted and L = lcomplains and R = rcomplains and S = "\<lambda>_. Some q"]) auto

lemma qc_add_part_obj: "qc_add_part q r pc = Inr q' \<Longrightarrow> qc_obj_hash q' = qc_obj_hash q"
  by (cases q) (auto simp: ebind_eq_Inr split: if_splits part_cert.splits)

lemma steady_sanity [steady_intros]: "steady (sanity_check_delivered k)"
  unfolding sanity_check_delivered_def by (intro steady_intros)

section \<open>New blocks\<close>

lemma core_add_blk_wp:
  "wp (core_add_blk b) Q E s = Q (hash b) (set_cache (map_insert (hash b) b (cache s)) s)"
  by (simp add: wp_def core_add_blk_def add_blk_def set_cache_def cache_def)

lemma core_step_new:
  assumes inv: "core_inv s" and ok: "cache s (hash b) = None \<Longrightarrow> blk_ok (cache s) (b0 s) (hash b) b" and dec: "decision b = 0"
  shows "core_inv (set_cache (map_insert (hash b) b (cache s)) s) \<and>
    core_le s (set_cache (map_insert (hash b) b (cache s)) s)"
proof (cases "cache s (hash b)")
  case None
  let ?c = "(cache s)(hash b \<mapsto> b)"
  have ext: "cache_ext (cache s) ?c" by (rule cache_ext_new [of "cache s", OF None])
  have "cache_ok ?c (b0 s)"
    using inv blk_ok_ext [OF ext ok [OF None]] by (intro cache_ok_upd [OF _ ext]) (simp_all add: core_inv_def)
  then have "core_inv (set_cache ?c s) \<and> core_le s (set_cache ?c s)"
    by (rule core_step_cache [OF inv _ ext]) (use dec in \<open>auto split: if_splits\<close>)
  then show ?thesis using None by (simp add: map_insert_def)
next
  case (Some b')
  then have "map_insert (hash b) b (cache s) = cache s" by (simp add: map_insert_def)
  then show ?thesis using inv core_le_refl by (simp add: set_cache_same)
qed

text \<open>A block as \<open>unserialize\<close> builds it.\<close>

definition fresh_block :: "block \<Rightarrow> bool" where
  "fresh_block b \<longleftrightarrow> \<not> delivered b \<and> height b = 0 \<and> qc_ref b = None \<and> self_qc b = None \<and> decision b = 0"

lemma wire_block_fresh: "fresh_block (wire_block sha bs b)"
  by (simp add: fresh_block_def wire_block_def empty_block_def)

lemma core_add_blk_steady:
  assumes "fresh_block b"
  shows "steady (core_add_blk b)"
proof (rule steadyI)
  fix s :: "'a core_scheme"
  assume inv: "core_inv s"
  have "blk_ok (cache s) (b0 s) (hash b) b" if n: "cache s (hash b) = None"
  proof -
    have "hash b \<noteq> b0 s" using n inv by (auto simp: core_inv_def cache_ok_def)
    then show ?thesis using assms by (simp add: blk_ok_def fresh_block_def)
  qed
  then show "wp (core_add_blk b) (\<lambda>_ t. core_inv t \<and> core_le s t) (\<lambda>e t. fatal e \<or> core_inv t \<and> core_le s t) s"
    using core_step_new [OF inv, of b] assms by (simp add: core_add_blk_wp fresh_block_def)
qed

lemma mapp_hashes:
  assumes "core_inv s" and "\<And>p. p \<in> set ps \<Longrightarrow> cache s p \<noteq> None"
  shows "wp (mapp (\<lambda>p. bindp (deref p) (\<lambda>b. ret (hash b))) ps) Q E s = Q ps s"
  using assms(2)
proof (induction ps arbitrary: Q)
  case (Cons p ps)
  then obtain b where b: "cache s p = Some b" by fastforce
  then have "hash b = p" using core_inv_blk [OF assms(1)] by (simp add: blk_ok_def)
  then show ?case using Cons b by (simp add: wp_simps)
qed (simp add: wp_simps)

lemma block_new_fields:
  assumes "block_new lib sha ps cs ks vs q ex h r sq d = Inr b"
  shows "parent_hashes b = ps" "parents b = ps" "cmds b = cs" "keys b = ks" "vals b = vs" "qc b = q" "height b = h" "qc_ref b = r"
    "self_qc b = sq" "decision b = d" "\<not> delivered b"
  using assms by (auto simp: block_new_def Let_def ebind_eq_Inr empty_block_def)

text \<open>The block of a proposal: its links are set although it is not delivered yet.\<close>

definition proposed_blk :: "(u256 \<rightharpoonup> block) \<Rightarrow> u256 list \<Rightarrow> u256 \<Rightarrow> quorum_cert \<Rightarrow> block \<Rightarrow> bool" where
  "proposed_blk c ps h q b \<longleftrightarrow> parent_hashes b = ps \<and> parents b = ps \<and> qc b = Some q \<and> height b = hgt c (hd ps) + 1 \<and>
     qc_ref b = Some h \<and> self_qc b = None \<and> decision b = 0 \<and> \<not> delivered b"

lemma make_blk_wp:
  assumes inv: "core_inv s" and ps: "ps \<noteq> []" "\<And>p. p \<in> set ps \<Longrightarrow> cache s p \<noteq> None"
  shows "wp (make_blk lib sha cs ks vs ps ex)
    (\<lambda>k t. \<exists>h q b. hqc s = Some (h, q) \<and> hash b = k \<and> proposed_blk (cache s) ps h q b \<and>
        t = set_cache (map_insert k b (cache s)) s)
    (\<lambda>e t. fatal e \<or> t = s) s"
proof -
  obtain p0 where p0: "cache s (hd ps) = Some p0" using ps(2) [of "hd ps"] ps(1) by auto
  have mh: "wp (mapp (\<lambda>p. bindp (deref p) (\<lambda>b. ret (hash b))) ps) Q E s = Q ps s" for Q E
    by (rule mapp_hashes [OF inv ps(2)])
  have pr: "proposed_blk (cache s) ps h q b"
    if "block_new lib sha ps cs ks vs (Some q) ex (height p0 + 1) (Some h) None 0 = Inr b" for h q b
    using block_new_fields [OF that] p0 by (simp add: proposed_blk_def hgt_def)
  show ?thesis
    unfolding make_blk_def wp_bindp [of "mapp _ _"] mh wp_bindp wp_deref p0 option.case wp_gets
    using pr by (auto simp: wp_simps core_add_blk_wp split: option.split sum.split simp del: fun_upd_apply)
qed

section \<open>Start-up\<close>

lemma core_new_inv:
  assumes "core_new lib sha rid cid sk = Inr s"
  shows "core_inv s" and "hqc s = None" and "\<exists>g. cache s (b0 s) = Some g \<and> qc_ref g = None \<and> parent_hashes g = []"
proof -
  obtain g where g: "block_genesis lib sha True 1 = Inr g"
    and s: "b0 s = hash g" "b_lock s = hash g" "b_exec s = hash g" "hqc_tail s = hash g" "hqc s = None" "cache s = [hash g \<mapsto> g]" "vote_log s = []"
    using assms by (auto simp: core_new_def ebind_eq_Inr cache_def add_blk_def storage_new_def map_insert_def)
  have f: "delivered g" "height g = 0" "parents g = []" "qc_ref g = None" "self_qc g = None" "decision g = 1" "parent_hashes g = []"
    using g by (auto simp: block_genesis_def Let_def ebind_eq_Inr empty_block_def)
  show "core_inv s" "hqc s = None" "\<exists>g. cache s (b0 s) = Some g \<and> qc_ref g = None \<and> parent_hashes g = []"
    using s f by (auto simp: core_inv_def log_inv_def votes_ok_def lock_cert_def cache_ok_def blk_ok_def is_delivered_def intro: anc_refl split: if_splits)
qed

lemma walk_from_wp:
  assumes inv: "core_inv s" and dlv: "is_delivered (cache s) k"
  obtains x q where "path_to (cache s) k q x" "is_delivered (cache s) x" "hgt (cache s) x \<le> h"
    "\<forall>y \<in> set q. h < hgt (cache s) y" "\<And>Q E. wp (walk_from k h) Q E s = Q (x, q) s"
proof -
  obtain b where b: "cache s k = Some b" using dlv by (auto simp: is_delivered_def split: option.splits)
  then have hb: "hgt (cache s) k = height b" by (simp add: hgt_def)
  have "cache_ok (cache s) (b0 s)" using inv by (simp add: core_inv_def)
  then obtain x q where w: "walk (Suc (unat (height b))) (cache s) h k [] = Inr (x, [] @ q)"
    and p: "path_to (cache s) k q x" "is_delivered (cache s) x" "hgt (cache s) x \<le> h" "\<forall>y \<in> set q. h < hgt (cache s) y"
    using walk_correct [of "cache s" "b0 s" k "Suc (unat (height b))" h "[]"] dlv hb by auto
  have "wp (walk_from k h) Q E s = Q (x, q) s" for Q E
    by (simp only: walk_from_def wp_bindp wp_deref b option.case wp_gets wp_lift w sum.case append_Nil)
  then show ?thesis using that p by blast
qed

text \<open>The voting rule: a vote is recorded with the lock held, and only if it follows the rule.\<close>

lemma form_opinion_keeps:
  assumes inv: "core_inv s" and ready: "hgt (cache s) k \<noteq> 0 \<Longrightarrow> lock_ready s k"
  shows "wp (form_opinion k) (\<lambda>_. keeps s) (\<lambda>e t. fatal e \<or> keeps s t) s"
proof (cases "cache s k")
  case None
  then show ?thesis by (simp add: form_opinion_def wp_simps)
next
  case (Some b)
  obtain lb where lb: "cache s (b_lock s) = Some lb"
    using inv by (auto simp: core_inv_def is_delivered_def split: option.splits)
  show ?thesis
  proof (cases "vheight s < height b")
    case False
    then show ?thesis using Some keeps_refl [OF inv] by (simp add: form_opinion_def wp_simps)
  next
    case True
    have nz: "hgt (cache s) k \<noteq> 0" using True Some by (auto simp: hgt_def)
    have dk: "is_delivered (cache s) k" using inv nz by (auto simp: core_inv_def intro: tall_delivered)
    have vote: "keeps s (s\<lparr>vheight := height b, vote_log := vote_log s @ [(k, b_lock s)]\<rparr>)"
      if "vote_rule (cache s) k (b_lock s)"
      using core_step_vote [OF inv Some True that ready [OF nz]] by (simp add: keeps_def)
    obtain x q where p: "path_to (cache s) k q x"
      and w: "\<And>Q E. wp (walk_from k (height lb)) Q E s = Q (x, q) s"
      by (rule walk_from_wp [OF inv dk, of "height lb"]) blast
    have walk: "vote_rule (cache s) k (b_lock s)" if "x = b_lock s"
      using path_anc [OF p] that by (simp add: vote_rule_def)
    have live: "vote_rule (cache s) k (b_lock s)" if "qc_ref b = Some r" "cache s r = Some rb" "height lb < height rb" for r rb
      using that Some lb by (auto simp: vote_rule_def hgt_def)
    show ?thesis
      using Some True lb vote walk live keeps_refl [OF inv]
      by (auto simp: form_opinion_def vote_for_def qc_ref_above_def wp_bindp wp_gets wp_deref wp_if wp_ret wp_seqp
          wp_modify wp_case_option w split: option.split)
  qed
qed

context core_host
begin

lemma commit_blk_wp:
  assumes "cache s k = Some b"
  shows "wp (commit_blk vt k) (\<lambda>_ t. view t = view (set_cache ((cache s)(k \<mapsto> b\<lparr>decision := 1\<rparr>)) s)) (\<lambda>e _. fatal e) s"
  unfolding commit_blk_def decide_cmds_def wp_seqp [of "assign _ _"] wp_assign assms option.case
  by (rule wp_quiet [OF _ refl]) (intro quiet_intros commit_quiet fatal_simps, assumption+)

lemma commit_loop_wp:
  assumes "\<And>y. y \<in> set q \<Longrightarrow> cache s y \<noteq> None"
  shows "wp (forp q (commit_blk vt)) (\<lambda>_ t. view t = view (set_cache (mark (set q) (cache s)) s)) (\<lambda>e _. fatal e) s"
  using assms
proof (induction q arbitrary: s)
  case Nil
  then show ?case by (simp add: wp_ret set_cache_same)
next
  case (Cons k q)
  then obtain b where b: "cache s k = Some b" by fastforce
  show ?case
    unfolding forp.simps wp_seqp
  proof (rule wp_mono [OF commit_blk_wp [OF b]])
    fix t :: "'x core_scheme"
    assume t: "view t = view (set_cache ((cache s)(k \<mapsto> b\<lparr>decision := 1\<rparr>)) s)"
    then have c: "cache t = (cache s)(k \<mapsto> b\<lparr>decision := 1\<rparr>)" by (simp add: view_eq)
    have IH: "wp (forp q (commit_blk vt)) (\<lambda>_ u. view u = view (set_cache (mark (set q) (cache t)) t)) (\<lambda>e _. fatal e) t"
      by (rule Cons.IH) (use Cons.prems c in simp)
    have "view (set_cache (mark (set q) (cache t)) t) = view (set_cache (mark (set (k # q)) (cache s)) s)"
      using t c mark_upd [of "cache s", OF b] by (simp add: view_eq)
    then show "wp (forp q (commit_blk vt)) (\<lambda>_ t. view t = view (set_cache (mark (set (k # q)) (cache s)) s)) (\<lambda>e _. fatal e) t"
      using IH by simp
  qed
qed

text \<open>The commit step: either the branch of the new head does not end in the last executed block, and
  nothing has changed when the exception is raised, or exactly the blocks between the two are
  decided and the head is the last executed block.\<close>

lemma commit_wp:
  assumes inv: "core_inv s" and dlv: "is_delivered (cache s) k"
  obtains x q where "path_to (cache s) k q x" "\<forall>y \<in> set q. hgt (cache s) (b_exec s) < hgt (cache s) y"
    "hgt (cache s) x \<le> hgt (cache s) (b_exec s)" "wp (commit vt k)
      (\<lambda>_ t. x = b_exec s \<and> view t = view ((set_cache (mark (set q) (cache s)) s)\<lparr>b_exec := k\<rparr>))
      (\<lambda>e t. fatal e \<or> e = SafetyBreached \<and> x \<noteq> b_exec s \<and> t = s) s"
proof -
  obtain eb where eb: "cache s (b_exec s) = Some eb"
    using inv by (auto simp: core_inv_def is_delivered_def split: option.splits)
  then have heb: "height eb = hgt (cache s) (b_exec s)" by (simp add: hgt_def)
  obtain x q where p: "path_to (cache s) k q x" "\<forall>y \<in> set q. height eb < hgt (cache s) y" "hgt (cache s) x \<le> height eb"
    and w: "\<And>Q E. wp (walk_from k (height eb)) Q E s = Q (x, q) s"
    by (rule walk_from_wp [OF inv dlv, of "height eb"]) blast
  have loop: "wp (forp (rev q) (commit_blk vt)) (\<lambda>_ t. view t = view (set_cache (mark (set q) (cache s)) s)) (\<lambda>e _. fatal e) s"
    using commit_loop_wp [of "rev q" s] path_dom [OF p(1)] by simp
  have "wp (commit vt k)
      (\<lambda>_ t. x = b_exec s \<and> view t = view ((set_cache (mark (set q) (cache s)) s)\<lparr>b_exec := k\<rparr>))
      (\<lambda>e t. fatal e \<or> e = SafetyBreached \<and> x \<noteq> b_exec s \<and> t = s) s"
  proof (cases "x = b_exec s")
    case True
    show ?thesis
      unfolding commit_def wp_bindp wp_gets wp_deref eb option.case w prod.case True
      by (simp add: wp_simps) (rule wp_mono [OF loop], simp_all add: view_eq wp_modify)
  next
    case False
    then show ?thesis
      by (simp add: commit_def wp_bindp wp_gets wp_deref eb w wp_throw)
  qed
  then show ?thesis using that p heb by simp
qed

lemma commit_keeps:
  assumes inv: "core_inv s" and dlv: "is_delivered (cache s) k" and wit: "commit_wit (cache s) k"
    and low: "nowrap (cache s) (b0 s) \<Longrightarrow> hgt (cache s) k \<le> hgt (cache s) (b_lock s)"
  shows "wp (commit vt k) (\<lambda>_ t. keeps s t \<and> b_lock t = b_lock s) (\<lambda>e t. fatal e \<or> keeps s t) s"
proof -
  obtain x q where p: "path_to (cache s) k q x"
    and w: "wp (commit vt k)
      (\<lambda>_ t. x = b_exec s \<and> view t = view ((set_cache (mark (set q) (cache s)) s)\<lparr>b_exec := k\<rparr>))
      (\<lambda>e t. fatal e \<or> e = SafetyBreached \<and> x \<noteq> b_exec s \<and> t = s) s"
    by (rule commit_wp [OF inv dlv]) blast
  have "keeps s t \<and> b_lock t = b_lock s" if "x = b_exec s" "view t = view ((set_cache (mark (set q) (cache s)) s)\<lparr>b_exec := k\<rparr>)" for t
    using core_step_commit [OF inv dlv _ wit low that(2)] p that by (simp add: keeps_def view_eq)
  then show ?thesis
    by (intro wp_mono [OF w]) (use keeps_refl [OF inv] in auto)
qed

lemma update_hqc_steady:
  assumes "\<And>q'. q = Some q' \<Longrightarrow> qc_obj_hash q' = k"
  shows "steady (update_hqc vt k q)"
proof (rule steadyI)
  fix s :: "'x core_scheme"
  assume inv: "core_inv s"
  have "wp (vt_on_hqc_update vt) (\<lambda>_ t. core_inv t \<and> core_le s t) (\<lambda>e t. fatal e \<or> core_inv t \<and> core_le s t)
      (s\<lparr>hqc := Some (k, q')\<rparr>)"
    if "cache s k = Some b" "hqc s = Some (h, x)" "cache s h = Some hb" "height hb < height b" "q = Some q'"
    for b h x hb q'
  proof (rule wp_steady [OF hqc_update_steady])
    have h: "hqc_height s \<le> hgt (cache s) k" using that by (simp add: hqc_height_def hgt_def)
    have "hgt (cache s) k \<noteq> 0" using that by (auto simp: hgt_def)
    then have "is_delivered (cache s) k" using inv by (auto simp: core_inv_def intro: tall_delivered)
    then show "keeps s (s\<lparr>hqc := Some (k, q')\<rparr>)"
      using core_step_hqc [OF inv] h that assms by (simp add: keeps_def)
  qed (simp_all add: keeps_def)
  then show "wp (update_hqc vt k q) (\<lambda>_ t. core_inv t \<and> core_le s t) (\<lambda>e t. fatal e \<or> core_inv t \<and> core_le s t) s"
    using inv core_le_refl by (auto simp: update_hqc_def wp_simps split: option.splits)
qed

text \<open>The second half of \<open>update\<close> for a block \<open>n\<close> with a certificate for \<open>k2\<close>: when it returns, the lock is as high
  as the locking rule asks for a vote on \<open>n\<close>.\<close>

lemma lock_assign_keeps:
  assumes inv: "core_inv s" and b: "cache s k1 = Some b1" "cache s (b_lock s) = Some lb" and h: "height lb < height b1"
    and q: "cache s k2 = Some b2" "qc_ref b2 = Some k1"
  shows "keeps s (s\<lparr>b_lock := k1\<rparr>)"
proof -
  have "hgt (cache s) k1 \<noteq> 0" using b h by (auto simp: hgt_def)
  then have "is_delivered (cache s) k1" using inv by (auto simp: core_inv_def intro: tall_delivered)
  moreover have "lock_cert (cache s) (b0 s) k1" using q by (auto simp: lock_cert_def)
  ultimately show ?thesis using b h core_step_lock [OF inv, of k1] by (simp add: keeps_def hgt_def)
qed

lemma lock_ready_one:
  assumes n: "cache s n = Some nb" "qc_ref nb = Some k2" "cache s k2 = Some b2"
    and r: "\<And>k1. qc_ref b2 = Some k1 \<Longrightarrow> nowrap (cache s) (b0 s) \<Longrightarrow> anc (cache s) k1 k2 \<Longrightarrow> hgt (cache s) k1 \<le> hgt (cache s) (b_lock s)"
  shows "lock_ready s n"
  using assms by (auto simp: lock_ready_def lock_rule_def)

lemma decided_low:
  assumes "core_inv s" and "nowrap (cache s) (b0 s)" and "cache s k = Some b" and "decision b \<noteq> 0"
  shows "hgt (cache s) k \<le> hgt (cache s) (b_lock s)"
proof -
  have "anc (cache s) k (b_exec s)" "cache_ok (cache s) (b0 s)" "is_delivered (cache s) (b_exec s)"
    "hgt (cache s) (b_exec s) \<le> hgt (cache s) (b_lock s)"
    using assms by (auto simp: core_inv_def log_inv_def)
  then show ?thesis using anc_hgt [of "cache s" k "b_exec s" "b0 s"] assms(2) by (meson order_trans)
qed

lemma update_commit_keeps:
  assumes inv: "core_inv s" and n: "cache s n = Some nb" "qc_ref nb = Some k2" "cache s k2 = Some b2"
    and b2: "qc_ref b2 = Some k1" "parents b2 = k1 # ps" and b1: "cache s k1 = Some b1" "qc_ref b1 = Some k" "parents b1 = k # qs"
    and lk: "hgt (cache s) k1 \<le> hgt (cache s) (b_lock s)"
  shows "wp (commit vt k) (\<lambda>_ t. keeps s t \<and> b_lock t = b_lock s) (\<lambda>e t. fatal e \<or> keeps s t) s"
proof (rule commit_keeps [OF inv])
  have ok: "cache_ok (cache s) (b0 s)" using inv by (simp add: core_inv_def)
  have "blk_ok (cache s) (b0 s) k1 b1" using inv b1(1) by (rule core_inv_blk)
  then have d1: "is_delivered (cache s) k1" using b1 by (auto simp: blk_ok_def is_delivered_def split: if_splits)
  then show "is_delivered (cache s) k" using delivered_parent [OF ok _ b1(1,3)] by blast
  show "commit_wit (cache s) k" unfolding commit_wit_def using n b2 b1 by blast
  show "hgt (cache s) k \<le> hgt (cache s) (b_lock s)" if "nowrap (cache s) (b0 s)"
    using parent_hgt [OF ok that d1 b1(1,3)] lk by (meson order_trans less_imp_le)
qed

lemma update_lock_keeps:
  assumes inv: "core_inv s" and n: "cache s n = Some nb" "qc_ref nb = Some k2" "is_delivered (cache s) n"
  shows "wp (update_lock vt k2) (\<lambda>_ t. keeps s t \<and> (n \<noteq> b0 s \<longrightarrow> lock_ready t n)) (\<lambda>e t. fatal e \<or> keeps s t) s"
proof (cases "cache s k2")
  case None
  then show ?thesis by (simp add: update_lock_def wp_simps)
next
  case (Some b2)
  note ready = lock_ready_one [OF n(1,2) Some]
  show ?thesis
  proof (cases "qc_ref b2")
    case None
    then have "lock_ready s n" by (intro ready) simp
    then show ?thesis using Some None keeps_refl [OF inv] by (simp add: update_lock_def wp_simps)
  next
    case (Some k1)
    note k1 = this
    have "blk_ok (cache s) (b0 s) k2 b2" using inv \<open>cache s k2 = Some b2\<close> by (rule core_inv_blk)
    then obtain b1 where b1: "cache s k1 = Some b1" using k1 by (auto simp: blk_ok_def)
    obtain lb where lb: "cache s (b_lock s) = Some lb"
      using inv by (auto simp: core_inv_def is_delivered_def split: option.splits)
    show ?thesis
    proof (cases "decision b1 \<noteq> 0")
      case True
      have "lock_ready s n" using k1 decided_low [OF inv _ b1 True] by (intro ready) simp
      then show ?thesis using \<open>cache s k2 = Some b2\<close> k1 b1 True keeps_refl [OF inv] by (simp add: update_lock_def wp_simps)
    next
      case False
      define u where "u = (if height lb < height b1 then s\<lparr>b_lock := k1\<rparr> else s)"
      have ku: "keeps s u" using lock_assign_keeps [OF inv b1 lb _ \<open>cache s k2 = Some b2\<close> k1] keeps_refl [OF inv] by (simp add: u_def)
      have cu: "cache u = cache s" and gu: "b0 u = b0 s" by (simp_all add: u_def)
      have lu: "hgt (cache u) k1 \<le> hgt (cache u) (b_lock u)" using b1 lb by (auto simp: u_def hgt_def)
      have ru: "lock_ready u n"
        by (rule lock_ready_one [of u, unfolded cu, OF n(1,2) \<open>cache s k2 = Some b2\<close>]) (use k1 lu cu in simp)
      have fin: "wp (commit vt k) (\<lambda>_ t. keeps s t \<and> (n \<noteq> b0 s \<longrightarrow> lock_ready t n)) (\<lambda>e t. fatal e \<or> keeps s t) u"
        if "qc_ref b1 = Some k" "parents b2 = k1 # ps" "parents b1 = k # qs" for k ps qs
      proof (rule wp_mono [OF update_commit_keeps [of u, unfolded cu gu, OF keeps_inv [OF ku] n(1,2) \<open>cache s k2 = Some b2\<close> k1 that(2) b1 that(1,3)]])
        show "hgt (cache s) k1 \<le> hgt (cache s) (b_lock u)" using lu cu by simp
      next
        fix t assume t: "keeps u t \<and> b_lock t = b_lock u"
        then show "keeps s t \<and> (n \<noteq> b0 s \<longrightarrow> lock_ready t n)"
          using keeps_trans [OF ku] lock_ready_keeps [OF _ keeps_inv [OF ku], of t n] n(3) ru cu gu by (auto simp: keeps_def)
      next
        fix e t assume "fatal e \<or> keeps u t"
        then show "fatal e \<or> keeps s t" using keeps_trans [OF ku] by (auto simp: keeps_def)
      qed
      have "wp (case qc_ref b1 of None \<Rightarrow> ret () | Some k \<Rightarrow> bindp (deref k) (\<lambda>b. if decision b \<noteq> 0 then ret () else
          bindp (parent0 b2) (\<lambda>p2. if p2 \<noteq> k1 then ret () else bindp (parent0 b1) (\<lambda>p1. if p1 \<noteq> k then ret () else commit vt k))))
          (\<lambda>_ t. keeps s t \<and> (n \<noteq> b0 s \<longrightarrow> lock_ready t n)) (\<lambda>e t. fatal e \<or> keeps s t) u"
        using ku ru fin by (auto simp: wp_simps split: option.split list.split)
      then show ?thesis
        using \<open>cache s k2 = Some b2\<close> k1 b1 False lb
        by (simp add: update_lock_def wp_bindp wp_deref wp_case_option wp_seqp wp_whenp wp_modify wp_gets wp_if u_def split: if_splits)
    qed
  qed
qed

lemma update_keeps:
  assumes inv: "core_inv s" and dn: "is_delivered (cache s) n"
  shows "wp (update vt n) (\<lambda>_ t. keeps s t \<and> (n \<noteq> b0 s \<longrightarrow> lock_ready t n)) (\<lambda>e t. fatal e \<or> keeps s t) s"
proof -
  obtain nb where nb: "cache s n = Some nb" using dn by (auto simp: is_delivered_def split: option.splits)
  have ok: "cache_ok (cache s) (b0 s)" and okn: "blk_ok (cache s) (b0 s) n nb"
    using inv nb by (auto simp: core_inv_def intro: cache_okD)
  show ?thesis
  proof (cases "qc_ref nb")
    case None
    then have "lock_ready s n" using nb by (simp add: lock_ready_def lock_rule_def)
    then show ?thesis using nb None keeps_refl [OF inv] by (simp add: update_def wp_simps)
  next
    case (Some k2)
    note k2 = this
    then obtain b2 where b2: "cache s k2 = Some b2" using okn by (auto simp: blk_ok_def)
    show ?thesis
    proof (cases "decision b2 \<noteq> 0")
      case True
      then have "anc (cache s) k2 (b_exec s)" "is_delivered (cache s) (b_exec s)" using inv b2 by (auto simp: core_inv_def)
      then have d2: "is_delivered (cache s) k2" using anc_delivered [OF _ ok] by blast
      have "lock_ready s n"
        using decided_low [OF inv _ b2 True] anc_hgt [OF _ ok _ d2] by (intro lock_ready_one [OF nb k2 b2]) (meson order_trans)
      then show ?thesis using nb k2 b2 True keeps_refl [OF inv] by (simp add: update_def wp_simps)
    next
      case False
      have lk: "wp (update_lock vt k2) (\<lambda>_ t. keeps s t \<and> (n \<noteq> b0 s \<longrightarrow> lock_ready t n)) (\<lambda>e t. fatal e \<or> keeps s t) u"
        if u: "keeps s u" for u
      proof -
        have ext: "cache_ext (cache s) (cache u)" and g: "b0 u = b0 s" using u by (auto simp: keeps_def core_le_def)
        obtain nb' where nb': "cache u n = Some nb'" "blk_ext nb nb'" using cache_extD [OF ext nb] .
        have q: "qc_ref nb' = Some k2" using nb'(2) k2 by (simp add: blk_ext_def)
        show ?thesis
          by (rule wp_mono [OF update_lock_keeps [OF keeps_inv [OF u] nb'(1) q ext_delivered [OF ext dn]]])
            (use g keeps_trans [OF u] in \<open>auto simp: keeps_def\<close>)
      qed
      have "steady (update_hqc vt k2 (qc nb))"
        using okn k2 by (intro update_hqc_steady) (auto simp: blk_ok_def)
      then show ?thesis
        using nb k2 b2 False
        by (simp add: update_def wp_bindp wp_deref wp_seqp) (rule wp_steady [OF _ keeps_refl [OF inv]], auto intro: lk)
    qed
  qed
qed

lemma on_receive_proposal_keeps:
  assumes inv: "core_inv s"
    and ready: "\<And>k. p_proposer prop = core_id s \<Longrightarrow> p_blk prop = Some k \<Longrightarrow> hgt (cache s) k \<noteq> 0 \<Longrightarrow> lock_ready s k"
  shows "wp (on_receive_proposal vt prop) (\<lambda>_. keeps s) (\<lambda>e t. fatal e \<or> keeps s t) s"
proof (cases "p_blk prop")
  case None
  then show ?thesis by (simp add: on_receive_proposal_def wp_simps)
next
  case (Some k)
  define rest where "rest rid opinion = bindp (deref k) (\<lambda>b.
        seqp (case qc_ref b of None \<Rightarrow> ret () | Some r \<Rightarrow> whenp (p_proposer prop \<noteq> rid) (vt_on_qc_finish vt r))
        (seqp (vt_on_proposal_received vt prop)
        (bindp (gets vote_disabled) (\<lambda>dis.
         whenp (opinion \<and> \<not> dis)
           (bindp (gets priv_key) (\<lambda>sk.
            bindp (vt_create_part_cert vt sk (hash b)) (\<lambda>pc.
            vt_do_vote vt (p_proposer prop) \<lparr>voter = rid, v_blk_hash = hash b, v_cert = pc\<rparr>)))))))" for rid opinion
  have rest: "steady (rest rid opinion)" for rid opinion
    unfolding rest_def by (intro steady_intros host_steady)
  have opinion: "wp (bindp (form_opinion k) (rest rid)) (\<lambda>_. keeps s) (\<lambda>e t. fatal e \<or> keeps s t) t"
    if t: "keeps s t" "hgt (cache t) k \<noteq> 0 \<Longrightarrow> lock_ready t k" for t rid
    unfolding wp_bindp
    by (rule wp_mono [OF form_opinion_keeps [OF keeps_inv [OF t(1)] t(2)]])
      (use keeps_trans [OF t(1)] in \<open>auto simp: keeps_def [of t] intro!: wp_steady [OF rest]\<close>)
  show ?thesis
  proof (cases "p_proposer prop = core_id s")
    case True
    have "wp (bindp (form_opinion k) (rest (core_id s))) (\<lambda>_. keeps s) (\<lambda>e t. fatal e \<or> keeps s t) s"
      by (rule opinion [OF keeps_refl [OF inv]]) (rule ready [OF True Some])
    then show ?thesis
      unfolding on_receive_proposal_def Some option.case wp_bindp [of "gets _"] wp_gets Let_def wp_seqp wp_whenp rest_def
      by (simp add: True)
  next
    case False
    have up: "wp (update vt k) (\<lambda>_. wp (bindp (form_opinion k) (rest (core_id s))) (\<lambda>_. keeps s) (\<lambda>e t. fatal e \<or> keeps s t))
        (\<lambda>e t. fatal e \<or> keeps s t) s" if d: "is_delivered (cache s) k"
    proof (rule wp_mono [OF update_keeps [OF inv d]])
      fix t assume t: "keeps s t \<and> (k \<noteq> b0 s \<longrightarrow> lock_ready t k)"
      have "k \<noteq> b0 s" if "hgt (cache t) k \<noteq> 0"
        using t that by (auto simp: keeps_def core_le_def core_inv_def cache_ok_def blk_ok_def hgt_def split: option.splits)
      then show "wp (bindp (form_opinion k) (rest (core_id s))) (\<lambda>_. keeps s) (\<lambda>e t. fatal e \<or> keeps s t) t"
        using t by (intro opinion) auto
    qed
    have "wp (sanity_check_delivered k) (\<lambda>_. wp (update vt k) (\<lambda>_. wp (bindp (form_opinion k) (rest (core_id s)))
        (\<lambda>_. keeps s) (\<lambda>e t. fatal e \<or> keeps s t)) (\<lambda>e t. fatal e \<or> keeps s t)) (\<lambda>e t. fatal e \<or> keeps s t) s"
      using up keeps_refl [OF inv]
      by (auto simp: sanity_check_delivered_def wp_bindp wp_deref wp_if wp_throw wp_ret is_delivered_def split: option.split)
    then show ?thesis
      unfolding on_receive_proposal_def Some option.case wp_bindp [of "gets _"] wp_gets Let_def wp_seqp wp_whenp rest_def
      by (simp add: False)
  qed
qed

lemma on_receive_vote_steady: "steady (on_receive_vote vt v)"
proof -
  have tail: "steady (seqp (assign k (\<lambda>b. b\<lparr>self_qc := Some q\<rparr>)) (bindp (lift (qc_add_part q (voter v) (v_cert v))) (\<lambda>q'.
      seqp (assign k (\<lambda>b. b\<lparr>self_qc := Some q'\<rparr>)) (whenp c (seqp (update_hqc vt k (Some (qc_compute q'))) (vt_on_qc_finish vt k))))))"
    if "qc_obj_hash q = k" for k q c
    using that
    by (intro steady_intros steady_self_qc steady_lift_bindp update_hqc_steady host_steady)
      (auto simp: qc_compute_def dest: qc_add_part_obj)
  show ?thesis
    unfolding on_receive_vote_def Let_def
  proof (intro steady_delivered_bindp steady_deref_ok steady_bindp [OF steady_basic(2)] steady_if steady_seqp steady_voted
      steady_basic(1), goal_cases)
    case (1 c g b maj)
    then have h: "hash b = v_blk_hash v" and q: "\<And>q. self_qc b = Some q \<Longrightarrow> qc_obj_hash q = v_blk_hash v"
      by (auto simp: blk_ok_def)
    show ?case
    proof (cases "self_qc b")
      case None
      then show ?thesis using h by (simp) (rule steady_pure [OF quorum_cert_pure], rule tail, simp)
    next
      case (Some q)
      then show ?thesis using q by (simp) (rule tail, simp)
    qed
  qed
qed

lemma on_receive_LComplain_steady: "steady (on_receive_LComplain vt c)"
  unfolding on_receive_LComplain_def Let_def
  by (intro steady_delivered_bindp steady_intros host_steady)

lemma start_local_complain_steady: "steady (start_local_complain vt ht h)"
  unfolding start_local_complain_def Let_def
  by (intro steady_intros host_steady on_receive_LComplain_steady)

lemma on_receive_RComplain_steady: "steady (on_receive_RComplain vt c)"
  unfolding on_receive_RComplain_def Let_def
  by (intro steady_delivered_bindp steady_intros host_steady)

text \<open>Proposing on delivered parents. A block that is new in the cache violates the invariant until it
  is delivered, which cannot fail; everything afterwards is composed of steady operations.\<close>

lemma deliver_proposed:
  assumes inv: "core_inv s" and ps: "ps \<noteq> []" "\<And>p. p \<in> set ps \<Longrightarrow> is_delivered (cache s) p"
    and hq: "hqc s = Some (h, q)" and b: "hash b = k" "proposed_blk (cache s) ps h q b"
    and t: "view t = view (set_cache (map_insert k b (cache s)) s)" and sq: "qc_obj_hash sq = k"
  shows "wp (seqp (assign k (\<lambda>b. b\<lparr>self_qc := Some sq\<rparr>)) (on_deliver_blk vt k)) (\<lambda>_. keeps s) (\<lambda>e u. fatal e \<or> keeps s u) t"
proof (cases "cache s k")
  case None
  let ?b = "b\<lparr>self_qc := Some sq\<rparr>" and ?c = "(cache s)(k \<mapsto> b\<lparr>self_qc := Some sq\<rparr>)"
  have ct: "cache t = (cache s)(k \<mapsto> b)" using t None by (simp add: view_eq map_insert_def)
  have ph: "parent_hashes ?b = ps" "qc ?b = Some q" "\<not> delivered ?b" "parents ?b = ps" "decision b = 0"
    "height ?b = hgt (cache s) (hd ps) + 1" "qc_ref ?b = Some h"
    using b by (simp_all add: proposed_blk_def)
  have hqd: "is_delivered (cache s) h" "qc_obj_hash q = h" using inv hq by (auto simp: core_inv_def)
  have in_s: "((cache s)(k \<mapsto> X)) p = cache s p" if "is_delivered (cache s) p" for p X
    using that None by (auto simp: is_delivered_def)
  have dl: "is_delivered ?c p" if "is_delivered (cache s) p" for p
    using that None by (auto simp: is_delivered_def)
  have dh: "hgt ((cache s)(k \<mapsto> X)) p = hgt (cache s) p" if "is_delivered (cache s) p" for p X
    using that None by (auto simp: is_delivered_def hgt_def)
  have d: "deliverable (cache s) ?b" "deliverable ?c ?b"
    using ps hqd dl in_s ph by (auto simp: deliverable_def is_delivered_def split: option.splits)
  have db: "delivered_blk ?c ?b = delivered_blk (cache s) ?b"
    using ps ph dh by (simp add: delivered_blk_def)
  let ?u = "set_cache ((cache s)(k \<mapsto> delivered_blk (cache s) ?b)) s"
  have kg: "k \<noteq> b0 s" using None inv by (auto simp: core_inv_def cache_ok_def)
  have ext: "cache_ext (cache s) ((cache s)(k \<mapsto> delivered_blk (cache s) ?b))" by (rule cache_ext_new [of "cache s", OF None])
  have "blk_ok ((cache s)(k \<mapsto> delivered_blk (cache s) ?b)) (b0 s) k (delivered_blk (cache s) ?b)"
    by (rule delivered_blk_ok [OF ext]) (use b kg d ph sq in auto)
  then have "cache_ok ((cache s)(k \<mapsto> delivered_blk (cache s) ?b)) (b0 s)"
    using inv by (intro cache_ok_upd [OF _ ext]) (simp_all add: core_inv_def)
  then have "core_inv ?u \<and> core_le s ?u"
    by (rule core_step_cache [OF inv _ ext]) (use ph in \<open>auto simp: delivered_blk_def split: if_splits\<close>)
  then have res: "keeps s v" if "view v = view ?u" for v
    using keeps_view [OF _ that, of s] by (simp add: keeps_def)
  let ?t = "set_cache ((cache t)(k \<mapsto> ?b)) t"
  have tk: "cache ?t k = Some ?b" by simp
  have ctt: "cache ?t = ?c" using ct by simp
  have D: "deliverable (cache ?t) ?b" unfolding ctt by (rule d(2))
  have vt': "view (set_cache ((cache ?t)(k \<mapsto> delivered_blk (cache ?t) ?b)) ?t) = view ?u"
    unfolding ctt db using t by (simp add: view_eq)
  have "wp (on_deliver_blk vt k) (\<lambda>_. keeps s) (\<lambda>e u. fatal e \<or> keeps s u) ?t"
    by (rule wp_mono [OF deliver_success [OF tk ph(3) D wp_quiet_store [OF store_quiet]]]) (use vt' res in metis, blast)
  then show ?thesis unfolding wp_seqp wp_assign by (simp add: ct)
next
  case (Some x)
  then have "view t = view s" using t by (simp add: map_insert_def set_cache_same)
  then have kt: "keeps s t" by (rule keeps_view [OF keeps_refl [OF inv]])
  have "steady (seqp (assign k (\<lambda>b. b\<lparr>self_qc := Some sq\<rparr>)) (on_deliver_blk vt k))"
    by (intro steady_seqp steady_self_qc sq deliver_steady)
  then show ?thesis using kt by (auto intro: wp_steady)
qed

lemma announce_keeps:
  assumes inv: "core_inv s" and dlv: "is_delivered (cache s) k" and pk: "p_blk prop = Some k" and rdy: "lock_ready s k"
  shows "wp (seqp (on_receive_proposal vt prop) (seqp (vt_on_proposed vt prop) (seqp (vt_do_broadcast_proposal vt prop) (ret k))))
    (\<lambda>_. keeps s) (\<lambda>e t. fatal e \<or> keeps s t) s"
proof -
  have bc: "steady (seqp (vt_do_broadcast_proposal vt prop) (ret k))"
    by (intro steady_intros host_steady)
  have "wp (seqp (vt_on_proposed vt prop) (seqp (vt_do_broadcast_proposal vt prop) (ret k))) (\<lambda>_. keeps s)
      (\<lambda>e t. fatal e \<or> keeps s t) t" if t: "keeps s t" for t
  proof -
    have "is_delivered (cache t) k" using t dlv ext_delivered by (auto simp: keeps_def core_le_def)
    from proposed_keeps [OF t pk this] show ?thesis
      unfolding wp_seqp [of "vt_on_proposed _ _"] by (rule wp_mono) (auto intro: wp_steady [OF bc])
  qed
  then show ?thesis
    unfolding wp_seqp [of "on_receive_proposal _ _"]
    by (intro wp_mono [OF on_receive_proposal_keeps [OF inv]]) (use rdy pk in auto)
qed

lemma zero_height_genesis: "core_inv s \<Longrightarrow> hgt (cache s) k \<noteq> 0 \<Longrightarrow> k \<noteq> b0 s"
  by (auto simp: core_inv_def cache_ok_def blk_ok_def hgt_def split: option.splits)

lemma propose_tail_keeps:
  assumes inv: "core_inv s" and dlv: "is_delivered (cache s) k"
  shows "wp (seqp (update vt k) (bindp (gets core_id) (\<lambda>rid. bindp (deref k) (\<lambda>b. bindp (gets vheight) (\<lambda>vh.
     let prop = proposal_new3 junk rid k in
     if height b \<le> vh then throw NotHigherThanVheight
     else seqp (on_receive_proposal vt prop) (seqp (vt_on_proposed vt prop) (seqp (vt_do_broadcast_proposal vt prop) (ret k))))))))
     (\<lambda>_. keeps s) (\<lambda>e t. fatal e \<or> keeps s t) s"
  unfolding wp_seqp [of "update _ _"]
proof (rule wp_mono [OF update_keeps [OF inv dlv]])
  fix t assume "keeps s t \<and> (k \<noteq> b0 s \<longrightarrow> lock_ready t k)"
  then have kt: "keeps s t" and g: "b0 t = b0 s" and rdy: "k \<noteq> b0 s \<Longrightarrow> lock_ready t k"
    by (auto simp: keeps_def core_le_def)
  have "wp (seqp (on_receive_proposal vt pr) (seqp (vt_on_proposed vt pr) (seqp (vt_do_broadcast_proposal vt pr) (ret k))))
      (\<lambda>_. keeps s) (\<lambda>e u. fatal e \<or> keeps s u) t"
    if "cache t k = Some b" "vheight t < height b" "pr = proposal_new3 junk (core_id t) k" for b pr
  proof -
    have "hgt (cache t) k \<noteq> 0" using that by (auto simp: hgt_def)
    then have "lock_ready t k" "is_delivered (cache t) k"
      using rdy zero_height_genesis [OF keeps_inv [OF kt]] g kt by (auto simp: keeps_def core_inv_def intro: tall_delivered)
    moreover have "p_blk pr = Some k" using that(3) by (simp add: proposal_new3_def)
    ultimately show ?thesis
      using keeps_trans [OF kt] by (intro wp_mono [OF announce_keeps [OF keeps_inv [OF kt]]]) (auto simp: keeps_def [of t])
  qed
  then show "wp (bindp (gets core_id) (\<lambda>rid. bindp (deref k) (\<lambda>b. bindp (gets vheight) (\<lambda>vh.
     let prop = proposal_new3 junk rid k in
     if height b \<le> vh then throw NotHigherThanVheight
     else seqp (on_receive_proposal vt prop) (seqp (vt_on_proposed vt prop) (seqp (vt_do_broadcast_proposal vt prop) (ret k)))))))
     (\<lambda>_. keeps s) (\<lambda>e t. fatal e \<or> keeps s t) t"
    using kt by (auto simp: Let_def wp_bindp wp_gets wp_deref wp_throw not_le split: option.split)
qed auto

lemma on_propose_keeps:
  assumes inv: "core_inv s" and ps: "\<And>p. p \<in> set ps \<Longrightarrow> is_delivered (cache s) p"
  shows "wp (on_propose vt lib sha junk cs ks vs ps ex) (\<lambda>_. keeps s) (\<lambda>e t. fatal e \<or> keeps s t) s"
proof (cases "ps = []")
  case True
  then show ?thesis using keeps_refl [OF inv] by (simp add: on_propose_def wp_simps)
next
  case False
  let ?Q = "\<lambda>_ :: u256. keeps s" and ?E = "\<lambda>e t. fatal e \<or> keeps s t"
  let ?s = "s\<lparr>tails := tails s - set ps\<rparr>"
  have v: "view ?s = view s" and c: "cache ?s = cache s" by (simp_all add: view_eq)
  have inv': "core_inv ?s" using inv core_inv_view [OF v] by simp
  have ks: "keeps s t" if "keeps ?s t" for t using that core_le_view [OF v refl, of t] by (simp add: keeps_def)
  have pd: "cache s p \<noteq> None" if "p \<in> set ps" for p
    using ps [OF that] by (auto simp: is_delivered_def split: option.splits)
  define tail where "tail k = seqp (update vt k) (bindp (gets core_id) (\<lambda>rid. bindp (deref k) (\<lambda>b. bindp (gets vheight) (\<lambda>vh.
         let prop = proposal_new3 junk rid k in
         if height b \<le> vh then throw NotHigherThanVheight
         else seqp (on_receive_proposal vt prop)
             (seqp (vt_on_proposed vt prop) (seqp (vt_do_broadcast_proposal vt prop) (ret k)))))))" for k
  have tail: "wp (tail k) ?Q ?E u" if u: "keeps s u" "is_delivered (cache u) k" for k u
    unfolding tail_def
    by (rule wp_mono [OF propose_tail_keeps [OF keeps_inv [OF u(1)] u(2)]]) (use keeps_trans [OF u(1)] in \<open>auto simp: keeps_def\<close>)
  have mk: "wp (make_blk lib sha cs ks vs ps ex)
      (\<lambda>k t. \<exists>h q b. hqc ?s = Some (h, q) \<and> hash b = k \<and> proposed_blk (cache ?s) ps h q b \<and> t = set_cache (map_insert k b (cache ?s)) ?s)
      (\<lambda>e t. fatal e \<or> t = ?s) ?s"
    by (rule make_blk_wp [OF inv' False]) (use pd in simp)
  have rest: "wp (bindp (vt_create_quorum_cert vt k) (\<lambda>q. seqp (seqp (assign k (\<lambda>b. b\<lparr>self_qc := Some q\<rparr>)) (on_deliver_blk vt k)) (tail k))) ?Q ?E t"
    if h: "hqc ?s = Some (h, q)" "hash b = k" "proposed_blk (cache ?s) ps h q b" "t = set_cache (map_insert k b (cache ?s)) ?s"
    for k t h q b
  proof -
    have one: "wp (seqp (assign k (\<lambda>b. b\<lparr>self_qc := Some sq\<rparr>)) (on_deliver_blk vt k)) (\<lambda>_ v. keeps s v \<and> is_delivered (cache v) k) ?E u"
      if "view u = view t" "qc_obj_hash sq = k" for u sq
    proof -
      have "wp (seqp (assign k (\<lambda>b. b\<lparr>self_qc := Some sq\<rparr>)) (on_deliver_blk vt k)) (\<lambda>_ v. is_delivered (cache v) k) (\<lambda>_ _. True) u"
        by (auto simp: wp_seqp wp_assign on_deliver_blk_delivers [OF store_quiet] split: option.split)
      moreover have "wp (seqp (assign k (\<lambda>b. b\<lparr>self_qc := Some sq\<rparr>)) (on_deliver_blk vt k)) (\<lambda>_. keeps s) ?E u"
        by (rule wp_mono [OF deliver_proposed [OF inv' False _ h(1-3) _ that(2), of u]])
          (use ps that(1) h(4) ks in auto)
      ultimately show ?thesis by (rule wp_mono [OF wp_conj]) auto
    qed
    have "wp (seqp (seqp (assign k (\<lambda>b. b\<lparr>self_qc := Some sq\<rparr>)) (on_deliver_blk vt k)) (tail k)) ?Q ?E u"
      if "view u = view t" "qc_obj_hash sq = k" for u sq
      unfolding wp_seqp [of "seqp _ _"]
      by (rule wp_mono [OF one [OF that]]) (auto intro: tail)
    then show ?thesis
      unfolding wp_bindp by (intro wp_quiet_result [OF quorum_cert_quiet refl]) auto
  qed
  have "wp (bindp (make_blk lib sha cs ks vs ps ex) (\<lambda>k. bindp (vt_create_quorum_cert vt k) (\<lambda>q.
      seqp (seqp (assign k (\<lambda>b. b\<lparr>self_qc := Some q\<rparr>)) (on_deliver_blk vt k)) (tail k)))) ?Q ?E ?s"
    unfolding wp_bindp [of "make_blk _ _ _ _ _ _ _"]
    by (rule wp_mono [OF mk]) (use rest keeps_view [OF keeps_refl [OF inv] v] in blast)+
  then show ?thesis
    unfolding on_propose_def if_not_P [OF False] tail_def seqp_assoc wp_seqp [of "modify _"] wp_modify .
qed

lemma on_init_keeps:
  assumes inv: "core_inv s" and g: "cache s (b0 s) = Some gb" "qc_ref gb = None" "hqc s = None" "parent_hashes gb = []"
  shows "wp (on_init vt nf) (\<lambda>_ t. keeps s t \<and> hqc t \<noteq> None) (\<lambda>e t. fatal e \<or> keeps s t) s"
proof -
  have ok: "blk_ok (cache s) (b0 s) (b0 s) gb" by (rule core_inv_blk [OF inv g(1)])
  then have h: "hash gb = b0 s" by (simp add: blk_ok_def)
  have fin: "keeps s (t\<lparr>hqc := Some (b0 s, q)\<rparr>)"
    if q: "qc_obj_hash q = b0 s"
      and t: "view t = view (set_cache ((cache s)(b0 s \<mapsto> gb\<lparr>qc := Some q, self_qc := Some q, qc_ref := Some (b0 s)\<rparr>)) s)" for t q
  proof -
    let ?g = "gb\<lparr>qc := Some q, self_qc := Some q, qc_ref := Some (b0 s)\<rparr>"
    let ?u = "set_cache ((cache s)(b0 s \<mapsto> ?g)) s"
    have ext: "blk_ext gb ?g" using g(2,4) by (simp add: blk_ext_def)
    have "blk_ok ((cache s)(b0 s \<mapsto> ?g)) (b0 s) (b0 s) ?g" using ok q by (simp add: blk_ok_def)
    then have u: "core_inv ?u \<and> core_le s ?u" by (intro core_step_blk [OF inv g(1) ext]) simp_all
    then have kt: "keeps s t" using keeps_view [OF _ t, of s] by (simp add: keeps_def)
    have "core_inv (t\<lparr>hqc := Some (b0 s, q)\<rparr>) \<and> core_le t (t\<lparr>hqc := Some (b0 s, q)\<rparr>)"
      using kt t q g ok by (intro core_step_hqc) (auto simp: view_eq keeps_def hqc_height_def is_delivered_def blk_ok_def)
    then show ?thesis by (rule keeps_trans [OF kt])
  qed
  have step: "wp (seqp (assign (b0 s) (\<lambda>b. b\<lparr>qc := Some (qc_compute q)\<rparr>)) (seqp (assign (b0 s) (\<lambda>b. b\<lparr>self_qc := Some (qc_compute q)\<rparr>))
      (seqp (assign (b0 s) (\<lambda>b. b\<lparr>qc_ref := Some (b0 s)\<rparr>)) (modify (\<lambda>s'. s'\<lparr>hqc := Some (b0 s, qc_compute q)\<rparr>)))))
      (\<lambda>_ t. keeps s t \<and> hqc t \<noteq> None) (\<lambda>e t. fatal e \<or> keeps s t) t"
    if "view t = view s" "qc_obj_hash q = b0 s" for t q
  proof -
    have c: "cache t = cache s" using that by (simp add: view_eq)
    have "keeps s ((set_cache ((cache s)(b0 s \<mapsto> gb\<lparr>qc := Some q, self_qc := Some q, qc_ref := Some (b0 s)\<rparr>)) t)\<lparr>hqc := Some (b0 s, q)\<rparr>)"
      by (rule fin) (use that in \<open>simp_all add: view_eq\<close>)
    then show ?thesis
      by (simp add: wp_seqp wp_assign wp_modify c g(1) qc_compute_def fun_upd_same del: fun_upd_apply)
  qed
  let ?s = "s\<lparr>config := (config s)\<lparr>nmajority := nat ((int (nreplicas (config s)) - uint nf) mod 2 ^ 64)\<rparr>\<rparr>"
  have v: "view ?s = view s" by (simp add: view_eq)
  have gg: "b0 ?s = b0 s" "cache ?s (b0 s) = Some gb" using g(1) by simp_all
  have "wp (bindp (vt_create_quorum_cert vt (b0 s)) (\<lambda>q. seqp (assign (b0 s) (\<lambda>b. b\<lparr>qc := Some (qc_compute q)\<rparr>))
      (seqp (assign (b0 s) (\<lambda>b. b\<lparr>self_qc := Some (qc_compute q)\<rparr>)) (seqp (assign (b0 s) (\<lambda>b. b\<lparr>qc_ref := Some (b0 s)\<rparr>))
      (modify (\<lambda>s'. s'\<lparr>hqc := Some (b0 s, qc_compute q)\<rparr>))))))
      (\<lambda>_ t. keeps s t \<and> hqc t \<noteq> None) (\<lambda>e t. fatal e \<or> keeps s t) ?s"
    unfolding wp_bindp
    by (rule wp_pure [OF quorum_cert_pure v], rule step)
      (auto intro: keeps_view [OF keeps_refl [OF inv]])
  then show ?thesis
    unfolding on_init_def wp_seqp [of "modify _"] wp_modify wp_bindp [of "gets _"] wp_gets wp_bindp [of "deref _"] wp_deref gg option.case h .
qed

end

end
