(* ===== verification/Replica_State.thy ===== *)
theory Replica_State
  imports Core_Safety
begin

text \<open>
  The state of a replica: \<open>HotStuffBase\<close> (\<^verbatim>\<open>hotstuff.h\<close>) together with its pace maker
  \<open>PaceMakerDummyFixed\<close> (\<^verbatim>\<open>liveness.h\<close>) and the promises the two exchange, as an extension of the
  record of \<open>HotStuffCore\<close>. Network sends, timers, executed commands and client callbacks are appended
  to an output log. Everything the sources leave open (uninitialised memory, the iteration order of
  hash tables) and the external libraries are fields of an environment record.
\<close>

section \<open>Environment\<close>

text \<open>
  \<open>junk_x\<close> is the initial value of the uninitialised loop counter in \<open>receive_mc_local\<close>; \<open>junk_hash\<close> and
  \<open>junk_neg\<close> are the 32 bytes found at the two one-byte arrays \<open>negativeOne\<close> (\<^verbatim>\<open>entity.h\<close>,
  \<^verbatim>\<open>hotstuff.cpp\<close>); \<open>tail_order\<close> enumerates a \<open>std::set\<close> of pointers and \<open>cluster_order\<close> the keys of an
  \<open>unordered_map\<close>.
\<close>

record env =
  e_lib :: secp
  e_sha :: "byte list \<Rightarrow> byte list"
  e_kind :: cert_kind
  junk_words :: "nat \<Rightarrow> u64"
  junk_prop :: proposal
  junk_x :: int
  junk_hash :: u256
  junk_neg :: u256
  tail_order :: "u256 set \<Rightarrow> u256 list"
  cluster_order :: "int list \<Rightarrow> int list"

section \<open>Messages and outputs\<close>

text \<open>Messages are logged as values; \<^verbatim>\<open>Messages\<close> models their wire formats.\<close>

datatype message =
    MsgPropose proposal
  | MsgVote vote
  | MsgLComplain complain
  | MsgRComplain complain
  | MsgRecs recs
  | MsgRecsAggEchoReady recs_msg
  | MsgReqBlock "u256 list"
  | MsgRespBlock "u256 list"

datatype action =
    Multicast message "u256 list"
  | SendMsg message u256
  | StateMachineExecute finality
  | DbWrite i32 i32
  | CommitCallback nat finality

record client_command =
  ccv_cmd_hash :: u256
  ccv_key :: i32
  ccv_val :: i32
  ccv_cluster_number :: i32
  ccv_node_number :: i32
  ccv_reconfig_mode :: i32

section \<open>Promises\<close>

text \<open>The promises of \<^verbatim>\<open>promise.hpp\<close> the pace maker uses: pending with callbacks in order of
  registration, fulfilled with a value, or rejected.\<close>

datatype 'c promise = Pending "'c list" | Fulfilled replica_id | Rejected

text \<open>
  The promises of block fetching and delivery. A promise is created for one purpose: the arrival of a
  block, its delivery, or the answer of the verification pool. Its callbacks are the continuation of
  \<open>async_deliver_blk\<close> on the fetched block (with the peer it captured) or a slot of a \<open>promise::all\<close>.
\<close>

datatype pm_kind = PmFetch u256 | PmDeliver u256 | PmVerify

datatype pm_value = VBlk u256 | VBool bool

datatype kont = KFetched u256 | KSlot nat nat

datatype blk_promise = BPending "kont list" | BFulfilled pm_value | BRejected

text \<open>What runs when all promises of a \<open>promise::all\<close> are fulfilled: the delivery of a block, the
  handling of a proposal, vote or complaint, the answer to a request for blocks.\<close>

datatype awaited = ADeliver u256 | APropose proposal | AVote vote | ALComplain complain | AResp u256 "u256 list"

record pm_all =
  a_left :: nat
  a_values :: "pm_value option list"
  a_open :: bool
  a_then :: awaited

record fetch_context =
  fc_promise :: nat
  fc_replicas :: "u256 list"

text \<open>The callback of a beat: the commands, keys and values of the block to propose.\<close>

type_synonym beat_cb = "u256 list \<times> i32 list \<times> i32 list"

section \<open>State\<close>

text \<open>
  A client callback is a number. \<open>hs_cmd_pending\<close> is the command queue. Timers of remote view changes
  are keyed by height and hold the block they captured. The counters kept only for statistics that
  involve clocks are left out. The \<open>pm_\<close> fields are the members of \<open>PMWaitQC\<close> and \<open>PaceMakerDummyFixed\<close>;
  \<open>pm_waiting\<close> tells whether the continuation of \<open>update_last_proposed\<close> is registered on the current
  \<open>propose_waiting\<close> promise. \<open>beats\<close> and \<open>qc_promises\<close> hold the promises handed out by \<open>beat\<close> and
  \<open>async_qc_finish\<close>; a callback of a promise of the second kind is the number of the beat it resolves.
  \<open>vpool_pending\<close> lists the promises the verification pool has still to answer, with the answer.
\<close>

record base = core +
  blk_size :: nat
  n_clusters :: i32
  other_peers_f_plus_one_init :: bool
  other_peers_f_plus_one :: "u256 list"
  remote_timers :: "int \<rightharpoonup> u256"
  hs_peers :: "u256 list"
  hs_other_peers :: "u256 list"
  hs_all_peers :: "u256 list"
  hs_peers_current :: "u256 list"
  cluster_to_nodes :: "(int \<times> u256 list) list"
  cluster_map :: "(int \<times> int) list"
  leave_set :: "u256 set"
  leave_set_int :: "i32 list"
  decision_waiting :: "u256 \<rightharpoonup> nat"
  hs_cmd_pending :: "(client_command \<times> nat) list"
  cmd_pending_buffer :: "client_command list"
  pending_recs :: "recs \<rightharpoonup> i32"
  reconfig_echo_counter :: "i32 \<rightharpoonup> i32"
  reconfig_ready_counter :: "i32 \<rightharpoonup> i32"
  reconfig_count :: i32
  reconfig_sent :: i32
  clusterid_to_reconfig_count :: "i32 \<rightharpoonup> i32"
  hs_delivered :: u64
  cluster_msg_count :: u64
  part_parent_size :: u32
  part_delivered :: u32
  part_decided :: u32
  cluster_tracker_array :: "i32 list"
  cid_to_cluster_tracker_array :: "int \<rightharpoonup> i32 list"
  finished_mc_cids :: "int set"
  finished_update_cids :: "int set"
  last_rvc :: int
  pm_proposer :: replica_id
  pm_last_proposed :: u256
  pm_locked :: bool
  pm_waiting :: bool
  pm_pending_beats :: "nat list"
  pm_qc_finish :: nat
  beats :: "nat \<rightharpoonup> beat_cb promise"
  qc_promises :: "nat \<rightharpoonup> nat promise"
  qc_waiting :: "u256 \<rightharpoonup> nat"
  next_promise :: nat
  blk_fetch_waiting :: "u256 \<rightharpoonup> fetch_context"
  blk_delivery_waiting :: "u256 \<rightharpoonup> nat"
  blk_promises :: "nat \<rightharpoonup> pm_kind \<times> blk_promise"
  pm_alls :: "nat \<rightharpoonup> pm_all"
  vpool_pending :: "(nat \<times> bool) list"
  hs_fetched :: u64
  part_fetched :: u32
  part_fetched_replica :: "u256 \<rightharpoonup> u32"
  outputs :: "action list"

definition emit :: "action \<Rightarrow> (base, unit) prog" where
  "emit x = modify (\<lambda>s. s\<lparr>outputs := outputs s @ [x]\<rparr>)"

text \<open>\<open>operator[]\<close> of a counter map.\<close>

definition counter :: "('k \<rightharpoonup> i32) \<Rightarrow> 'k \<Rightarrow> i32" where
  "counter m k = (case m k of None \<Rightarrow> 0 | Some c \<Rightarrow> c)"

definition bump :: "('k \<rightharpoonup> i32) \<Rightarrow> 'k \<Rightarrow> ('k \<rightharpoonup> i32)" where
  "bump m k = m(k \<mapsto> counter m k + 1)"

text \<open>Reading a vector by an index that may be out of range.\<close>

definition vec_at :: "'a list \<Rightarrow> int \<Rightarrow> ('s, 'a) prog" where
  "vec_at xs i = (if 0 \<le> i \<and> i < int (length xs) then ret (xs ! nat i) else throw UndefinedBehaviour)"

section \<open>Quiet updates\<close>

lemma quiet_modify: "(\<And>s. view (f s) = view s) \<Longrightarrow> quiet (modify f)"
  by (simp add: quiet_def wp_simps)

lemma quiet_emit [quiet_intros]: "quiet (emit x)"
  unfolding emit_def by (rule quiet_modify) (simp add: view_def cache_def)

lemma quiet_vec_at [quiet_intros]: "quiet (vec_at xs i)"
  by (simp add: vec_at_def quiet_intros)

lemma quiet_case_option [quiet_intros]:
  "quiet m \<Longrightarrow> (\<And>y. quiet (f y)) \<Longrightarrow> quiet (case x of None \<Rightarrow> m | Some y \<Rightarrow> f y)"
  by (simp split: option.split)

lemma quiet_let [quiet_intros]: "(\<And>x. quiet (f x)) \<Longrightarrow> quiet (let x = v in f x)"
  by simp

lemma base_view [simp]:
  "view (s\<lparr>part_decided := a1\<rparr>) = view s" "view (s\<lparr>decision_waiting := a2\<rparr>) = view s"
  "view (s\<lparr>outputs := a3\<rparr>) = view s" "view (s\<lparr>reconfig_sent := a4\<rparr>) = view s"
  "view (s\<lparr>remote_timers := a5\<rparr>) = view s" "view (s\<lparr>finished_update_cids := a6\<rparr>) = view s"
  "view (s\<lparr>other_peers_f_plus_one := a7\<rparr>) = view s" "view (s\<lparr>other_peers_f_plus_one_init := a8\<rparr>) = view s"
  "view (s\<lparr>last_rvc := a9\<rparr>) = view s" "view (s\<lparr>pm_proposer := b1\<rparr>) = view s"
  "view (s\<lparr>pm_last_proposed := b2\<rparr>) = view s" "view (s\<lparr>pm_locked := b3\<rparr>) = view s"
  "view (s\<lparr>pm_waiting := b4\<rparr>) = view s" "view (s\<lparr>pm_pending_beats := b5\<rparr>) = view s"
  "view (s\<lparr>pm_qc_finish := b6\<rparr>) = view s" "view (s\<lparr>beats := b7\<rparr>) = view s"
  "view (s\<lparr>qc_promises := b8\<rparr>) = view s" "view (s\<lparr>qc_waiting := b9\<rparr>) = view s"
  "view (s\<lparr>next_promise := c1\<rparr>) = view s" "view (s\<lparr>cluster_tracker_array := c2\<rparr>) = view s"
  "view (s\<lparr>cid_to_cluster_tracker_array := c3\<rparr>) = view s" "view (s\<lparr>finished_mc_cids := c4\<rparr>) = view s"
  "view (s\<lparr>clusterid_to_reconfig_count := c5\<rparr>) = view s" "view (s\<lparr>cluster_msg_count := c6\<rparr>) = view s"
  "view (s\<lparr>reconfig_count := c7\<rparr>) = view s" "view (s\<lparr>pending_recs := c8\<rparr>) = view s"
  "view (s\<lparr>reconfig_echo_counter := c9\<rparr>) = view s" "view (s\<lparr>reconfig_ready_counter := d1\<rparr>) = view s"
  "view (s\<lparr>leave_set := d2\<rparr>) = view s" "view (s\<lparr>leave_set_int := d3\<rparr>) = view s"
  "view (s\<lparr>hs_peers_current := d4\<rparr>) = view s" "view (s\<lparr>hs_cmd_pending := d5\<rparr>) = view s"
  "view (s\<lparr>cmd_pending_buffer := d6\<rparr>) = view s" "view (s\<lparr>hs_delivered := d7\<rparr>) = view s"
  "view (s\<lparr>part_parent_size := d8\<rparr>) = view s" "view (s\<lparr>part_delivered := d9\<rparr>) = view s"
  "view (s\<lparr>hs_peers := e1\<rparr>) = view s" "view (s\<lparr>hs_other_peers := e2\<rparr>) = view s"
  "view (s\<lparr>hs_all_peers := e3\<rparr>) = view s" "view (s\<lparr>cluster_to_nodes := e4\<rparr>) = view s"
  "view (s\<lparr>cluster_map := e5\<rparr>) = view s" "view (s\<lparr>blk_fetch_waiting := e6\<rparr>) = view s"
  "view (s\<lparr>blk_delivery_waiting := e7\<rparr>) = view s" "view (s\<lparr>blk_promises := e8\<rparr>) = view s"
  "view (s\<lparr>pm_alls := e9\<rparr>) = view s" "view (s\<lparr>vpool_pending := f1\<rparr>) = view s"
  "view (s\<lparr>hs_fetched := f2\<rparr>) = view s" "view (s\<lparr>part_fetched := f3\<rparr>) = view s"
  "view (s\<lparr>part_fetched_replica := f4\<rparr>) = view s"
  for s :: base
  by (simp_all add: view_def cache_def)

lemma config_view [simp]: "view (s\<lparr>config := cf\<rparr>) = view s" "view (s\<lparr>vote_disabled := d\<rparr>) = view s"
  "view (s\<lparr>tails := ts\<rparr>) = view s"
  by (simp_all add: view_def)

end
