(* ===== verification/Pace_Maker.thy ===== *)
theory Pace_Maker
  imports Replica_State
begin

text \<open>
  The pace maker \<open>PaceMakerDummyFixed\<close> of \<^verbatim>\<open>liveness.h\<close> (parent selection \<open>PMHighTail\<close>, beats \<open>PMWaitQC\<close>)
  and the promise operations of \<open>HotStuffCore\<close> it is driven by (\<open>async_qc_finish\<close>, \<open>on_qc_finish\<close>,
  \<^verbatim>\<open>on_propose_\<close>, \<^verbatim>\<open>on_receive_proposal_\<close>, \<open>on_hqc_update\<close>). Resolving a promise runs its callbacks at
  once, in order of registration; an exception of a callback skips the rest. The callback of a beat
  proposes a block: it re-enters the core and is the argument \<open>propose\<close> of the definitions.
\<close>

section \<open>Promises\<close>

definition run_beat :: "(beat_cb \<Rightarrow> (base, unit) prog) \<Rightarrow> beat_cb \<Rightarrow> replica_id \<Rightarrow> (base, unit) prog" where
  "run_beat propose bt v = bindp (gets core_id) (\<lambda>rid. whenp (v = rid) (propose bt))"

definition resolve_beat :: "(beat_cb \<Rightarrow> (base, unit) prog) \<Rightarrow> nat \<Rightarrow> replica_id \<Rightarrow> (base, unit) prog" where
  "resolve_beat propose n v = bindp (gets (\<lambda>s. beats s n)) (\<lambda>p. case p of
      None \<Rightarrow> throw UndefinedBehaviour
    | Some (Pending cbs) \<Rightarrow> seqp (modify (\<lambda>s. s\<lparr>beats := (beats s)(n \<mapsto> Fulfilled v)\<rparr>))
        (forp cbs (\<lambda>bt. run_beat propose bt v))
    | Some (Fulfilled w) \<Rightarrow> ret ()
    | Some Rejected \<Rightarrow> ret ())"

definition then_beat :: "(beat_cb \<Rightarrow> (base, unit) prog) \<Rightarrow> nat \<Rightarrow> beat_cb \<Rightarrow> (base, unit) prog" where
  "then_beat propose n bt = bindp (gets (\<lambda>s. beats s n)) (\<lambda>p. case p of
      None \<Rightarrow> throw UndefinedBehaviour
    | Some (Pending cbs) \<Rightarrow> modify (\<lambda>s. s\<lparr>beats := (beats s)(n \<mapsto> Pending (cbs @ [bt]))\<rparr>)
    | Some (Fulfilled v) \<Rightarrow> run_beat propose bt v
    | Some Rejected \<Rightarrow> ret ())"

text \<open>The callback of a certificate promise: \<open>pm.resolve(get_proposer())\<close>.\<close>

definition qc_callback :: "(beat_cb \<Rightarrow> (base, unit) prog) \<Rightarrow> nat \<Rightarrow> (base, unit) prog" where
  "qc_callback propose n = bindp (gets pm_proposer) (resolve_beat propose n)"

definition resolve_qc :: "(beat_cb \<Rightarrow> (base, unit) prog) \<Rightarrow> nat \<Rightarrow> (base, unit) prog" where
  "resolve_qc propose q = bindp (gets (\<lambda>s. qc_promises s q)) (\<lambda>p. case p of
      None \<Rightarrow> throw UndefinedBehaviour
    | Some (Pending cbs) \<Rightarrow> seqp (modify (\<lambda>s. s\<lparr>qc_promises := (qc_promises s)(q \<mapsto> Fulfilled 0)\<rparr>))
        (forp cbs (qc_callback propose))
    | Some (Fulfilled w) \<Rightarrow> ret ()
    | Some Rejected \<Rightarrow> ret ())"

definition then_qc :: "(beat_cb \<Rightarrow> (base, unit) prog) \<Rightarrow> nat \<Rightarrow> nat \<Rightarrow> (base, unit) prog" where
  "then_qc propose q n = bindp (gets (\<lambda>s. qc_promises s q)) (\<lambda>p. case p of
      None \<Rightarrow> throw UndefinedBehaviour
    | Some (Pending cbs) \<Rightarrow> modify (\<lambda>s. s\<lparr>qc_promises := (qc_promises s)(q \<mapsto> Pending (cbs @ [n]))\<rparr>)
    | Some (Fulfilled w) \<Rightarrow> qc_callback propose n
    | Some Rejected \<Rightarrow> ret ())"

definition reject_qc :: "nat \<Rightarrow> (base, unit) prog" where
  "reject_qc q = modify (\<lambda>s. case qc_promises s q of
      Some (Pending cbs) \<Rightarrow> s\<lparr>qc_promises := (qc_promises s)(q \<mapsto> Rejected)\<rparr>
    | _ \<Rightarrow> s)"

text \<open>A new certificate promise, and \<open>async_qc_finish\<close>.\<close>

definition new_qc :: "nat promise \<Rightarrow> (base, nat) prog" where
  "new_qc p = bindp (gets next_promise) (\<lambda>q.
     seqp (modify (\<lambda>s. s\<lparr>qc_promises := (qc_promises s)(q \<mapsto> p)\<rparr>))
     (seqp (modify (\<lambda>s. s\<lparr>next_promise := q + 1\<rparr>)) (ret q)))"

definition async_qc_finish :: "u256 \<Rightarrow> (base, nat) prog" where
  "async_qc_finish k = bindp (deref k) (\<lambda>b. bindp (gets (\<lambda>s. nmajority (config s))) (\<lambda>maj.
     if card (voted b) \<ge> maj then new_qc (Fulfilled 0)
     else bindp (gets (\<lambda>s. qc_waiting s k)) (\<lambda>w. case w of
        Some q \<Rightarrow> ret q
      | None \<Rightarrow> bindp (new_qc (Pending [])) (\<lambda>q.
          seqp (modify (\<lambda>s. s\<lparr>qc_waiting := (qc_waiting s)(k \<mapsto> q)\<rparr>)) (ret q)))))"

text \<open>The entry is erased after the callbacks have run.\<close>

definition on_qc_finish :: "(beat_cb \<Rightarrow> (base, unit) prog) \<Rightarrow> u256 \<Rightarrow> (base, unit) prog" where
  "on_qc_finish propose k = bindp (gets (\<lambda>s. qc_waiting s k)) (\<lambda>w. case w of
      None \<Rightarrow> ret ()
    | Some q \<Rightarrow> seqp (resolve_qc propose q) (modify (\<lambda>s. s\<lparr>qc_waiting := (qc_waiting s)(k := None)\<rparr>)))"

section \<open>PMHighTail\<close>

definition check_ancestry :: "u256 \<Rightarrow> u256 \<Rightarrow> ('x core_scheme, bool) prog" where
  "check_ancestry a b = bindp (deref a) (\<lambda>ab. bindp (walk_from b (height ab)) (\<lambda>(x, _). ret (x = a)))"

definition raise_tail :: "u256 \<Rightarrow> u256 \<Rightarrow> ('x core_scheme, unit) prog" where
  "raise_tail h k = bindp (check_ancestry h k) (\<lambda>ok. whenp ok
     (bindp (deref k) (\<lambda>b. bindp (gets hqc_tail) (\<lambda>t. bindp (deref t) (\<lambda>tb.
      whenp (height b > height tb) (modify (\<lambda>s. s\<lparr>hqc_tail := k\<rparr>)))))))"

text \<open>\<open>reg_hqc_update\<close>: the continuation of \<open>async_hqc_update\<close>, which is registered at all times.\<close>

definition on_hqc_update :: "(u256 set \<Rightarrow> u256 list) \<Rightarrow> ('x core_scheme, unit) prog" where
  "on_hqc_update order = bindp (gets hqc) (\<lambda>hq. case hq of
      None \<Rightarrow> throw UndefinedBehaviour
    | Some (h, _) \<Rightarrow> seqp (modify (\<lambda>s. s\<lparr>hqc_tail := h\<rparr>))
        (bindp (gets tails) (\<lambda>ts. forp (order ts) (raise_tail h))))"

text \<open>\<open>reg_receive_proposal\<close>.\<close>

definition on_proposal_received :: "proposal \<Rightarrow> ('x core_scheme, unit) prog" where
  "on_proposal_received prop = bindp (gets hqc) (\<lambda>hq. case (hq, p_blk prop) of
      (Some (h, _), Some k) \<Rightarrow> raise_tail h k
    | _ \<Rightarrow> throw UndefinedBehaviour)"

definition get_parents :: "('x core_scheme, u256 list) prog" where
  "get_parents = gets (\<lambda>s. [hqc_tail s])"

section \<open>PMWaitQC\<close>

definition schedule_next :: "(beat_cb \<Rightarrow> (base, unit) prog) \<Rightarrow> (base, unit) prog" where
  "schedule_next propose = bindp (gets pm_pending_beats) (\<lambda>bs. bindp (gets pm_locked) (\<lambda>l.
     if bs = [] \<or> l then ret ()
     else
       seqp (modify (\<lambda>s. s\<lparr>pm_pending_beats := tl bs\<rparr>))
       (bindp (gets pm_qc_finish) (\<lambda>old. seqp (reject_qc old)
       (bindp (gets pm_last_proposed) (\<lambda>k. bindp (async_qc_finish k) (\<lambda>q.
        seqp (modify (\<lambda>s. s\<lparr>pm_qc_finish := q\<rparr>))
       (seqp (then_qc propose q (hd bs))
       (modify (\<lambda>s. s\<lparr>pm_locked := True\<rparr>))))))))))"

text \<open>
  \<^verbatim>\<open>on_propose_\<close> resolves \<open>propose_waiting\<close>. First runs the continuation of \<open>PMHighTail::reg_proposal\<close>,
  then the one of \<open>PMWaitQC::update_last_proposed\<close> if it is registered; it registers itself again at
  its end, so a proposal made by \<open>schedule_next\<close> inside it is not seen by \<open>PMWaitQC\<close>.
\<close>

definition on_proposed :: "(beat_cb \<Rightarrow> (base, unit) prog) \<Rightarrow> proposal \<Rightarrow> (base, unit) prog" where
  "on_proposed propose prop = (case p_blk prop of None \<Rightarrow> throw UndefinedBehaviour | Some k \<Rightarrow>
     bindp (gets pm_waiting) (\<lambda>registered.
     seqp (modify (\<lambda>s. s\<lparr>pm_waiting := False\<rparr>))
     (seqp (modify (\<lambda>s. s\<lparr>hqc_tail := k\<rparr>))
     (whenp registered
       (seqp (modify (\<lambda>s. s\<lparr>pm_last_proposed := k\<rparr>))
       (seqp (modify (\<lambda>s. s\<lparr>pm_locked := False\<rparr>))
       (seqp (schedule_next propose)
       (modify (\<lambda>s. s\<lparr>pm_waiting := True\<rparr>)))))))))"

definition beat :: "(beat_cb \<Rightarrow> (base, unit) prog) \<Rightarrow> (base, nat) prog" where
  "beat propose = bindp (gets next_promise) (\<lambda>n.
     seqp (modify (\<lambda>s. s\<lparr>beats := (beats s)(n \<mapsto> Pending [])\<rparr>))
     (seqp (modify (\<lambda>s. s\<lparr>next_promise := n + 1\<rparr>))
     (seqp (modify (\<lambda>s. s\<lparr>pm_pending_beats := pm_pending_beats s @ [n]\<rparr>))
     (seqp (schedule_next propose) (ret n)))))"

definition get_pending_size :: "base \<Rightarrow> nat" where
  "get_pending_size s = length (pm_pending_beats s)"

section \<open>PaceMakerDummyFixed\<close>

definition set_proposer :: "replica_id \<Rightarrow> (base, unit) prog" where
  "set_proposer r = modify (\<lambda>s. s\<lparr>pm_proposer := r\<rparr>)"

text \<open>The sum is an \<open>int\<close>, the remainder a \<open>size_t\<close>, the result is cut to 16 bits.\<close>

definition rotate :: "(base, unit) prog" where
  "rotate = bindp (gets (\<lambda>s. nreplicas (config s))) (\<lambda>n.
     if n = 0 then throw UndefinedBehaviour
     else modify (\<lambda>s. s\<lparr>pm_proposer := of_nat ((unat (pm_proposer s) + 1) mod n)\<rparr>))"

text \<open>\<open>beat_resp\<close> is resolved at once with the proposer, whatever the last proposer was.\<close>

definition beat_resp :: "(replica_id \<Rightarrow> (base, unit) prog) \<Rightarrow> (base, unit) prog" where
  "beat_resp f = bindp (gets pm_proposer) f"

definition pm_init :: "(base, unit) prog" where
  "pm_init = modify (\<lambda>s. s\<lparr>hqc_tail := b0 s, pm_last_proposed := b0 s, pm_locked := False, pm_waiting := True\<rparr>)"

section \<open>The pace maker keeps the protocol invariant\<close>

lemmas steady_keepsI = steadyI [folded keeps_def]

lemma steady_let [steady_intros]: "(\<And>x. steady (f x)) \<Longrightarrow> steady (let x = v in f x)"
  by simp

lemma steady_forp [steady_intros]: "(\<And>x. steady (f x)) \<Longrightarrow> steady (forp xs f)"
  by (induction xs) (simp_all add: steady_intros)

lemma steady_promise [steady_intros]:
  "(\<And>cbs. steady (f cbs)) \<Longrightarrow> (\<And>v. steady (g v)) \<Longrightarrow> steady m \<Longrightarrow>
   steady (case p of Pending cbs \<Rightarrow> f cbs | Fulfilled v \<Rightarrow> g v | Rejected \<Rightarrow> m)"
  by (simp split: promise.split)

lemma steady_modify: "(\<And>s. view (f s) = view s) \<Longrightarrow> steady (modify f)"
  by (rule quiet_steady) (rule quiet_modify)

lemma reject_qc_quiet [quiet_intros]: "quiet (reject_qc q)"
  unfolding reject_qc_def by (rule quiet_modify) (simp split: option.split promise.split)

lemma run_beat_steady: "(\<And>bt. steady (propose bt)) \<Longrightarrow> steady (run_beat propose bt v)"
  unfolding run_beat_def by (intro steady_intros)

lemma resolve_beat_steady: "(\<And>bt. steady (propose bt)) \<Longrightarrow> steady (resolve_beat propose n v)"
  unfolding resolve_beat_def by (intro steady_intros run_beat_steady steady_modify) simp_all

lemma then_beat_steady: "(\<And>bt. steady (propose bt)) \<Longrightarrow> steady (then_beat propose n bt)"
  unfolding then_beat_def by (intro steady_intros run_beat_steady steady_modify) simp_all

lemma qc_callback_steady: "(\<And>bt. steady (propose bt)) \<Longrightarrow> steady (qc_callback propose n)"
  unfolding qc_callback_def by (intro steady_intros resolve_beat_steady)

lemma resolve_qc_steady: "(\<And>bt. steady (propose bt)) \<Longrightarrow> steady (resolve_qc propose q)"
  unfolding resolve_qc_def by (intro steady_intros qc_callback_steady steady_modify) simp_all

lemma then_qc_steady: "(\<And>bt. steady (propose bt)) \<Longrightarrow> steady (then_qc propose q n)"
  unfolding then_qc_def by (intro steady_intros qc_callback_steady steady_modify) simp_all

lemma new_qc_quiet [quiet_intros]: "quiet (new_qc p)"
  unfolding new_qc_def by (intro quiet_intros quiet_modify) simp_all

lemma async_qc_finish_quiet [quiet_intros]: "quiet (async_qc_finish k)"
  unfolding async_qc_finish_def by (intro quiet_intros quiet_modify) simp_all

lemma on_qc_finish_steady: "(\<And>bt. steady (propose bt)) \<Longrightarrow> steady (on_qc_finish propose k)"
  unfolding on_qc_finish_def by (intro steady_intros resolve_qc_steady steady_modify) simp_all

lemma schedule_next_steady: "(\<And>bt. steady (propose bt)) \<Longrightarrow> steady (schedule_next propose)"
  unfolding schedule_next_def
  by (intro steady_intros then_qc_steady steady_modify quiet_steady [OF reject_qc_quiet]
      quiet_steady [OF async_qc_finish_quiet]) simp_all

lemma beat_steady: "(\<And>bt. steady (propose bt)) \<Longrightarrow> steady (beat propose)"
  unfolding beat_def by (intro steady_intros schedule_next_steady steady_modify) simp_all

text \<open>A block that is higher than another one has been delivered, so the tail always points to a
  delivered block.\<close>

lemma keeps_tail:
  assumes "keeps s0 s" and "is_delivered (cache s) k"
  shows "keeps s0 (s\<lparr>hqc_tail := k\<rparr>)"
proof -
  have "hqc_height (s\<lparr>hqc_tail := k\<rparr>) = hqc_height s" by (simp add: hqc_height_def split: option.split)
  then show ?thesis using assms unfolding keeps_def core_inv_def core_le_def by simp metis
qed

lemma walk_from_steady [steady_intros]: "steady (walk_from k h)"
  unfolding walk_from_def by (intro steady_intros)

lemma check_ancestry_steady [steady_intros]: "steady (check_ancestry a b)"
  unfolding check_ancestry_def by (intro steady_intros)

lemma raise_tail_to_steady:
  "steady (bindp (deref k) (\<lambda>b. bindp (gets hqc_tail) (\<lambda>t. bindp (deref t) (\<lambda>tb.
     whenp (height b > height tb) (modify (\<lambda>s. s\<lparr>hqc_tail := k\<rparr>))))))"
proof (rule steady_keepsI)
  fix s :: "'a core_scheme"
  assume inv: "core_inv s"
  have "keeps s (s\<lparr>hqc_tail := k\<rparr>)" if "cache s k = Some b" "height tb < height b" for b tb
  proof -
    have "hgt (cache s) k \<noteq> 0" using that by (auto simp: hgt_def)
    then have "is_delivered (cache s) k" using inv by (auto simp: core_inv_def intro: tall_delivered)
    then show ?thesis by (rule keeps_tail [OF keeps_refl [OF inv]])
  qed
  then show "wp (bindp (deref k) (\<lambda>b. bindp (gets hqc_tail) (\<lambda>t. bindp (deref t) (\<lambda>tb.
      whenp (height b > height tb) (modify (\<lambda>s. s\<lparr>hqc_tail := k\<rparr>))))))
      (\<lambda>_. keeps s) (\<lambda>e t. fatal e \<or> keeps s t) s"
    using keeps_refl [OF inv] by (auto simp: wp_simps split: option.split)
qed

lemma raise_tail_steady [steady_intros]: "steady (raise_tail h k)"
  unfolding raise_tail_def by (intro steady_intros raise_tail_to_steady)

lemma on_hqc_update_steady: "steady (on_hqc_update order)"
proof (rule steady_keepsI)
  fix s :: "'a core_scheme"
  assume inv: "core_inv s"
  have rest: "steady (bindp (gets tails) (\<lambda>ts. forp (order ts) (raise_tail h)) :: ('a core_scheme, unit) prog)" for h
    by (intro steady_intros)
  have "wp (seqp (modify (\<lambda>s. s\<lparr>hqc_tail := h\<rparr>)) (bindp (gets tails) (\<lambda>ts. forp (order ts) (raise_tail h))))
      (\<lambda>_. keeps s) (\<lambda>e t. fatal e \<or> keeps s t) s" if "hqc s = Some (h, q)" for h q
  proof -
    have "keeps s (s\<lparr>hqc_tail := h\<rparr>)"
      using inv that by (intro keeps_tail keeps_refl) (simp_all add: core_inv_def)
    then show ?thesis unfolding wp_seqp wp_modify by (rule wp_steady [OF rest]) auto
  qed
  then show "wp (on_hqc_update order) (\<lambda>_. keeps s) (\<lambda>e t. fatal e \<or> keeps s t) s"
    unfolding on_hqc_update_def wp_bindp [of "gets hqc"] wp_gets
    by (auto simp: wp_throw split: option.split)
qed

lemma on_proposal_received_steady: "steady (on_proposal_received prop)"
  unfolding on_proposal_received_def
  by (intro steady_intros)

lemma on_proposed_keeps:
  assumes "\<And>bt. steady (propose bt)" and "keeps s0 s" and "p_blk prop = Some k" and "is_delivered (cache s) k"
  shows "wp (on_proposed propose prop) (\<lambda>_. keeps s0) (\<lambda>e t. fatal e \<or> keeps s0 t) s"
proof -
  have tail: "steady (whenp c (seqp (modify (\<lambda>s. s\<lparr>pm_last_proposed := k\<rparr>)) (seqp (modify (\<lambda>s. s\<lparr>pm_locked := False\<rparr>))
       (seqp (schedule_next propose) (modify (\<lambda>s. s\<lparr>pm_waiting := True\<rparr>))))))" for c
    by (intro steady_intros schedule_next_steady steady_modify assms(1)) simp_all
  have "keeps s0 (s\<lparr>pm_waiting := False\<rparr>)" by (rule keeps_view [OF assms(2)]) simp
  then have "keeps s0 (s\<lparr>pm_waiting := False\<rparr>\<lparr>hqc_tail := k\<rparr>)"
    using assms(4) by (intro keeps_tail) (simp_all add: cache_def)
  then show ?thesis
    unfolding on_proposed_def assms(3) option.case wp_bindp wp_gets wp_seqp [of "modify _"] wp_modify
    by (intro wp_steady [OF tail]) auto
qed

lemma rotate_quiet: "quiet rotate"
  unfolding rotate_def by (intro quiet_intros quiet_modify) simp_all

lemma pm_init_keeps: "core_inv s \<Longrightarrow> wp pm_init (\<lambda>_. keeps s) E s"
  using keeps_tail [OF keeps_refl, of s "b0 s"] delivered_genesis [of "cache s" "b0 s"]
    keeps_view [of s "s\<lparr>hqc_tail := b0 s\<rparr>" "s\<lparr>hqc_tail := b0 s, pm_last_proposed := b0 s, pm_locked := False, pm_waiting := True\<rparr>"]
  by (simp add: pm_init_def wp_modify core_inv_def)

end
