(* ===== verification/HotStuff_Base.thy ===== *)
theory HotStuff_Base
  imports Pace_Maker
begin

text \<open>
  \<open>HotStuffBase\<close> (\<^verbatim>\<open>hotstuff.cpp\<close>): the callbacks of the core (broadcasts, votes, decisions, remote view
  change timers, inter-cluster bookkeeping) and the message handlers. The callbacks that re-enter the
  core (a vote for oneself, a beat that proposes) make the callback table recursive; \<open>base_vt\<close> bounds
  the depth of re-entrance.
\<close>

section \<open>Executing commands\<close>

definition run_decision_waiting :: "finality \<Rightarrow> (base, unit) prog" where
  "run_decision_waiting fin = bindp (gets (\<lambda>s. decision_waiting s (f_cmd_hash fin))) (\<lambda>w. case w of
      None \<Rightarrow> ret ()
    | Some cb \<Rightarrow> seqp (emit (CommitCallback cb fin))
        (modify (\<lambda>s. s\<lparr>decision_waiting := (decision_waiting s)(f_cmd_hash fin := None)\<rparr>)))"

definition do_decide :: "finality \<Rightarrow> i32 \<Rightarrow> i32 \<Rightarrow> (base, unit) prog" where
  "do_decide fin key val =
     seqp (modify (\<lambda>s. s\<lparr>part_decided := part_decided s + 1\<rparr>))
     (seqp (emit (StateMachineExecute fin))
     (seqp (emit (DbWrite key val))
     (run_decision_waiting fin)))"

definition do_decide_read_only :: "finality \<Rightarrow> (base, unit) prog" where
  "do_decide_read_only fin =
     seqp (modify (\<lambda>s. s\<lparr>part_decided := part_decided s + 1\<rparr>))
     (seqp (emit (StateMachineExecute fin))
     (run_decision_waiting fin))"

text \<open>\<open>do_consensus\<close> calls \<open>PaceMaker::on_consensus\<close>, which \<open>PaceMakerDummyFixed\<close> inherits as a no-op.\<close>

definition do_consensus :: "u256 \<Rightarrow> (base, unit) prog" where
  "do_consensus k = ret ()"

definition check_leader :: "(base, bool) prog" where
  "check_leader = gets (\<lambda>s. core_id s = pm_proposer s)"

section \<open>Broadcasts\<close>

text \<open>Building a \<open>MsgPropose\<close> prints the block and its certificate: both pointers are dereferenced.\<close>

definition msg_propose :: "proposal \<Rightarrow> (base, message) prog" where
  "msg_propose prop = (case p_blk prop of None \<Rightarrow> throw UndefinedBehaviour | Some k \<Rightarrow>
     bindp (deref k) (\<lambda>b. if qc b = None then throw UndefinedBehaviour else ret (MsgPropose prop)))"

definition do_broadcast_proposal :: "proposal \<Rightarrow> (base, unit) prog" where
  "do_broadcast_proposal prop = bindp (msg_propose prop) (\<lambda>m. bindp (gets hs_peers_current) (\<lambda>ps. emit (Multicast m ps)))"

text \<open>\<open>f + 1\<close> peers of every other cluster, in the iteration order of the map.\<close>

definition nodes_of :: "(int \<times> u256 list) list \<Rightarrow> int \<Rightarrow> u256 list" where
  "nodes_of m c = (case map_of m c of None \<Rightarrow> [] | Some ps \<Rightarrow> ps)"

definition other_clusters :: "env \<Rightarrow> base \<Rightarrow> int list" where
  "other_clusters env s = filter (\<lambda>c. c \<noteq> sint (core_cluster_id s)) (cluster_order env (map fst (cluster_to_nodes s)))"

definition do_broadcast_proposal_other_clusters :: "env \<Rightarrow> proposal \<Rightarrow> (base, unit) prog" where
  "do_broadcast_proposal_other_clusters env prop =
     bindp (gets other_peers_f_plus_one_init) (\<lambda>init.
     seqp (whenp (\<not> init)
       (modify (\<lambda>s. s\<lparr>other_peers_f_plus_one := other_peers_f_plus_one s @
           concat (map (\<lambda>c. let ps = nodes_of (cluster_to_nodes s) c in take (length ps div 3 + 1) ps) (other_clusters env s)),
         other_peers_f_plus_one_init := True\<rparr>)))
     (bindp (msg_propose prop) (\<lambda>m. bindp (gets other_peers_f_plus_one) (\<lambda>ps. emit (Multicast m ps)))))"

text \<open>After a reconfiguration of cluster \<open>cls\<close>: the unsigned subtraction wraps when the cluster is
  smaller than the leave set.\<close>

definition quorum_peers :: "nat \<Rightarrow> u256 set \<Rightarrow> u256 list \<Rightarrow> u256 list" where
  "quorum_peers leaving gone ps =
     take (nat ((int (length ps) - int leaving - 1) mod 2 ^ 64) div 3 + 1) (filter (\<lambda>p. p \<notin> gone) ps)"

definition update_other_f_plus_one :: "env \<Rightarrow> i32 list \<Rightarrow> int \<Rightarrow> (base, unit) prog" where
  "update_other_f_plus_one env lv cls = modify (\<lambda>s.
     let gone = (\<lambda>n. hs_all_peers s ! nat (sint n)) ` set (filter (\<lambda>n. 0 \<le> sint n \<and> sint n < int (length (hs_all_peers s))) lv)
     in s\<lparr>other_peers_f_plus_one := other_peers_f_plus_one s @
          concat (map (\<lambda>c. let ps = nodes_of (cluster_to_nodes s) c
                          in if c = cls then quorum_peers (length lv) gone ps else quorum_peers 0 {} ps)
                      (other_clusters env s))\<rparr>)"

definition get_leave_set :: "(base, i32 \<times> i32 list) prog" where
  "get_leave_set = bindp (gets reconfig_count) (\<lambda>c. bindp (gets reconfig_sent) (\<lambda>sent.
     if sint c > sint sent
     then seqp (modify (\<lambda>s. s\<lparr>reconfig_sent := c\<rparr>)) (bindp (gets leave_set_int) (\<lambda>l. ret (c, l)))
     else ret (c, [])))"

section \<open>Remote view change\<close>

definition did_receive_mc :: "int \<Rightarrow> (base, bool) prog" where
  "did_receive_mc cid = gets (\<lambda>s. cid \<in> finished_mc_cids s)"

definition did_update :: "int \<Rightarrow> (base, bool) prog" where
  "did_update cid = gets (\<lambda>s. cid \<in> finished_update_cids s)"

definition update_finished_update_cids :: "int \<Rightarrow> (base, unit) prog" where
  "update_finished_update_cids cid = modify (\<lambda>s. s\<lparr>finished_update_cids := insert cid (finished_update_cids s)\<rparr>)"

definition start_remote_view_change_timer :: "int \<Rightarrow> u256 \<Rightarrow> (base, unit) prog" where
  "start_remote_view_change_timer cid k = modify (\<lambda>s. s\<lparr>remote_timers := (remote_timers s)(cid \<mapsto> k)\<rparr>)"

definition reset_remote_view_change_timer :: "int \<Rightarrow> (base, unit) prog" where
  "reset_remote_view_change_timer cid = modify (\<lambda>s. s\<lparr>remote_timers := (remote_timers s)(cid := None)\<rparr>)"

definition store_in_map_for_mc :: "u256 \<Rightarrow> (base, unit) prog" where
  "store_in_map_for_mc k = bindp (deref k) (\<lambda>b. modify (\<lambda>s. s\<lparr>storage := add_cid_blkhash b (storage s)\<rparr>))"

definition send_LComplain :: "replica_id \<Rightarrow> complain \<Rightarrow> (base, unit) prog" where
  "send_LComplain r c = bindp (gets hs_peers_current) (\<lambda>ps. emit (Multicast (MsgLComplain c) ps))"

definition send_RComplain :: "replica_id \<Rightarrow> complain \<Rightarrow> (base, unit) prog" where
  "send_RComplain r c = bindp (gets other_peers_f_plus_one) (\<lambda>ps. whenp (ps \<noteq> [])
     (bindp (gets (\<lambda>s. length (filter (\<lambda>p. snd p = sint (core_cluster_id s)) (cluster_map s)))) (\<lambda>count.
      bindp (gets core_id) (\<lambda>rid.
      whenp (unat rid \<le> count div 3 + 1) (emit (Multicast (MsgRComplain c) ps))))))"

definition send_RComplain_local :: "env \<Rightarrow> replica_id \<Rightarrow> complain \<Rightarrow> (base, unit) prog" where
  "send_RComplain_local env r c =
     bindp (gets hs_peers_current) (\<lambda>ps.
     seqp (emit (Multicast (MsgRComplain c) ps))
     (bindp (gets (\<lambda>s. find_blk_hash_for_cid (junk_hash env) (sint (c_blk_height c)) (storage s))) (\<lambda>h.
      bindp (deref h) (\<lambda>b. bindp (gets core_id) (\<lambda>rid. bindp (gets core_cluster_id) (\<lambda>cid.
      seqp (do_broadcast_proposal_other_clusters env (proposal_new7 (junk_prop env) rid (Some h) cid cid (height b) 1))
     (seqp (modify (\<lambda>s. s\<lparr>last_rvc := sint (c_blk_height c)\<rparr>))
      rotate)))))))"

section \<open>Votes\<close>

definition do_vote :: "(vote \<Rightarrow> (base, unit) prog) \<Rightarrow> replica_id \<Rightarrow> vote \<Rightarrow> (base, unit) prog" where
  "do_vote receive_vote last_proposer v = beat_resp (\<lambda>proposer. bindp (gets core_id) (\<lambda>rid.
     if proposer = rid then receive_vote v
     else bindp (gets config) (\<lambda>cfg. bindp (lift (get_peer_id cfg proposer)) (\<lambda>p. emit (SendMsg (MsgVote v) p)))))"

section \<open>The callback table\<close>

fun create_part_cert :: "cert_kind \<Rightarrow> secp \<Rightarrow> byte list \<Rightarrow> u256 \<Rightarrow> err + part_cert" where
  "create_part_cert Dummy lib sk h = Inr (PartCertDummy h)"
| "create_part_cert Secp256k1 lib sk h = create_part_cert_secp lib sk h"

definition create_quorum_cert :: "env \<Rightarrow> u256 \<Rightarrow> (base, quorum_cert) prog" where
  "create_quorum_cert env h = bindp (gets config) (\<lambda>cfg. lift (create_quorum_cert_of (e_kind env) (junk_words env) cfg h))"

definition mk_vt :: "env \<Rightarrow> (vote \<Rightarrow> (base, unit) prog) \<Rightarrow> (beat_cb \<Rightarrow> (base, unit) prog) \<Rightarrow> base vtable" where
  "mk_vt env receive_vote propose = \<lparr>
     vt_do_decide = do_decide,
     vt_do_consensus = do_consensus,
     vt_do_broadcast_proposal = do_broadcast_proposal,
     vt_do_broadcast_proposal_other_clusters = do_broadcast_proposal_other_clusters env,
     vt_send_LComplain = send_LComplain,
     vt_send_RComplain = send_RComplain,
     vt_send_RComplain_local = send_RComplain_local env,
     vt_get_leave_set = get_leave_set,
     vt_start_remote_view_change_timer = start_remote_view_change_timer,
     vt_reset_remote_view_change_timer = reset_remote_view_change_timer,
     vt_did_receive_mc = did_receive_mc,
     vt_update_finished_update_cids = update_finished_update_cids,
     vt_store_in_map_for_mc = store_in_map_for_mc,
     vt_check_leader = check_leader,
     vt_do_vote = do_vote receive_vote,
     vt_create_part_cert = (\<lambda>sk h. lift (create_part_cert (e_kind env) (e_lib env) sk h)),
     vt_create_quorum_cert = create_quorum_cert env,
     vt_on_hqc_update = on_hqc_update (tail_order env),
     vt_on_qc_finish = on_qc_finish propose,
     vt_on_proposed = on_proposed propose,
     vt_on_proposal_received = on_proposal_received\<rparr>"

text \<open>The continuation of a beat: \<open>on_propose(cmds, keys, vals, pmaker->get_parents())\<close>.\<close>

definition propose_beat :: "env \<Rightarrow> base vtable \<Rightarrow> beat_cb \<Rightarrow> (base, unit) prog" where
  "propose_beat env vt bt = (case bt of (cs, ks, vs) \<Rightarrow>
     bindp get_parents (\<lambda>ps.
     seqp (on_propose vt (e_lib env) (e_sha env) (junk_prop env) cs ks vs ps []) (ret ())))"

fun base_vt :: "env \<Rightarrow> nat \<Rightarrow> base vtable" where
  "base_vt env 0 = mk_vt env (\<lambda>_. throw OutOfFuel) (\<lambda>_. throw OutOfFuel)"
| "base_vt env (Suc n) = mk_vt env (on_receive_vote (base_vt env n)) (propose_beat env (base_vt env n))"

section \<open>The callbacks keep the contract\<close>

lemma run_decision_waiting_quiet [quiet_intros]: "quiet (run_decision_waiting fin)"
  unfolding run_decision_waiting_def by (intro quiet_intros quiet_modify) simp_all

lemma do_decide_quiet [quiet_intros]: "quiet (do_decide fin key val)"
  unfolding do_decide_def by (intro quiet_intros quiet_modify) simp_all

lemma do_decide_read_only_quiet [quiet_intros]: "quiet (do_decide_read_only fin)"
  unfolding do_decide_read_only_def by (intro quiet_intros quiet_modify) simp_all

lemma msg_propose_quiet [quiet_intros]: "quiet (msg_propose prop)"
  unfolding msg_propose_def by (intro quiet_intros fatal_simps)

lemma do_broadcast_proposal_quiet [quiet_intros]: "quiet (do_broadcast_proposal prop)"
  unfolding do_broadcast_proposal_def by (intro quiet_intros)

lemma do_broadcast_other_quiet [quiet_intros]: "quiet (do_broadcast_proposal_other_clusters env prop)"
  unfolding do_broadcast_proposal_other_clusters_def by (intro quiet_intros quiet_modify) simp_all

lemma update_other_f_plus_one_quiet [quiet_intros]: "quiet (update_other_f_plus_one env lv cls)"
  unfolding update_other_f_plus_one_def by (intro quiet_modify) (simp add: Let_def)

lemma get_leave_set_quiet [quiet_intros]: "quiet get_leave_set"
  unfolding get_leave_set_def by (intro quiet_intros quiet_modify) simp_all

lemma timers_quiet [quiet_intros]:
  "quiet (did_receive_mc cid)" "quiet (did_update cid)" "quiet (update_finished_update_cids cid)"
  "quiet (start_remote_view_change_timer cid k)" "quiet (reset_remote_view_change_timer cid)"
  unfolding did_receive_mc_def did_update_def update_finished_update_cids_def
    start_remote_view_change_timer_def reset_remote_view_change_timer_def
  by (intro quiet_intros quiet_modify; simp)+

lemma store_in_map_for_mc_quiet [quiet_intros]: "quiet (store_in_map_for_mc k)"
  unfolding store_in_map_for_mc_def
  by (intro quiet_intros quiet_modify) (simp add: view_def cache_def add_cid_blkhash_def)

lemma send_quiet [quiet_intros]:
  "quiet (send_LComplain r c)" "quiet (send_RComplain r c)" "quiet (send_RComplain_local env r c)"
  unfolding send_LComplain_def send_RComplain_def send_RComplain_local_def
  by (intro quiet_intros quiet_modify rotate_quiet; simp)+

lemma do_vote_steady: "(\<And>v. steady (receive_vote v)) \<Longrightarrow> steady (do_vote receive_vote r v)"
  unfolding do_vote_def beat_resp_def by (intro steady_intros quiet_steady [OF quiet_emit])

lemma part_cert_pure_lift: "pure_prog (\<lambda>_. True) (lift x)"
  by (simp add: pure_prog_def wp_simps split: sum.split)

lemma create_quorum_cert_of_ok:
  "create_quorum_cert_of kind junk cfg h \<noteq> Inl e" "create_quorum_cert_of kind junk cfg h = Inr q \<Longrightarrow> qc_obj_hash q = h"
proof -
  obtain b where "bits_clear (bits_new junk (of_nat (nreplicas cfg))) = Inr b"
    using bits_clear_empty [OF bits_new_wf] by blast
  then show "create_quorum_cert_of kind junk cfg h \<noteq> Inl e"
    "create_quorum_cert_of kind junk cfg h = Inr q \<Longrightarrow> qc_obj_hash q = h"
    by (cases kind; auto simp: qc_secp_new_def)+
qed

lemma create_quorum_cert_result: "quiet_result (\<lambda>q. qc_obj_hash q = h) (create_quorum_cert env h)"
  unfolding quiet_result_def create_quorum_cert_def
  by (auto simp: wp_simps create_quorum_cert_of_ok split: sum.split)

lemma mk_vt_host:
  assumes "\<And>v. steady (receive_vote v)" and "\<And>bt. steady (propose bt)"
  shows "core_host (mk_vt env receive_vote propose)"
proof (unfold_locales, unfold mk_vt_def vtable.simps, goal_cases)
  case (15 s0 s pr k)
  then show ?case by (intro on_proposed_keeps assms(2))
qed (auto intro: quiet_intros quiet_steady do_vote_steady on_hqc_update_steady on_qc_finish_steady
      on_proposal_received_steady part_cert_pure_lift create_quorum_cert_result assms
      simp: do_consensus_def check_leader_def)

lemma propose_beat_steady:
  assumes "core_host vt"
  shows "steady (propose_beat env vt bt)"
proof (rule steady_keepsI)
  fix s :: base
  assume inv: "core_inv s"
  obtain cs ks vs where bt: "bt = (cs, ks, vs)" by (cases bt)
  have "wp (on_propose vt (e_lib env) (e_sha env) (junk_prop env) cs ks vs [hqc_tail s] []) (\<lambda>_. keeps s)
      (\<lambda>e t. fatal e \<or> keeps s t) s"
    by (rule core_host.on_propose_keeps [OF assms inv]) (use inv in \<open>simp add: core_inv_def\<close>)
  then show "wp (propose_beat env vt bt) (\<lambda>_. keeps s) (\<lambda>e t. fatal e \<or> keeps s t) s"
    by (simp add: propose_beat_def bt get_parents_def wp_bindp wp_seqp wp_gets wp_ret [abs_def])
qed

lemma base_vt_host: "core_host (base_vt env n)"
proof (induction n)
  case 0
  show ?case unfolding base_vt.simps by (rule mk_vt_host) (rule steady_throw)+
next
  case (Suc n)
  show ?case
    unfolding base_vt.simps
    by (rule mk_vt_host) (rule core_host.on_receive_vote_steady [OF Suc], rule propose_beat_steady [OF Suc])
qed

interpretation bh: core_host "base_vt env n" for env n
  by (rule base_vt_host)

end
