(* ===== verification/Handlers.thy ===== *)
theory Handlers
  imports HotStuff_Base
begin

text \<open>
  The event handlers of \<open>HotStuffBase\<close> (\<^verbatim>\<open>hotstuff.cpp\<close>): start-up, client commands, proposals and
  inter-cluster messages, votes, complaints, reconfiguration, the remote view change timer. Each
  handler takes the callback table \<open>vt\<close> it hands to the core. Handlers that wait for the delivery of a
  block are split at that point: the part before answers whether to go on, the part after is a
  definition of its own.
\<close>

section \<open>Start-up\<close>

text \<open>A replica of the configuration: whether its address is the own listening address, its public key
  and its peer identifier (certificate hash or address).\<close>

record replica_entry =
  re_self :: bool
  re_pubkey :: "byte list"
  re_peer :: u256

definition base_new ::
  "env \<Rightarrow> nat \<Rightarrow> replica_id \<Rightarrow> i32 \<Rightarrow> i32 \<Rightarrow> byte list \<Rightarrow> replica_id \<Rightarrow> err + base" where
  "base_new env bsize rid cid ncl sk proposer = ebind (core_new (e_lib env) (e_sha env) rid cid sk) (\<lambda>c.
     Inr (core.extend c \<lparr>blk_size = bsize, n_clusters = ncl, other_peers_f_plus_one_init = False,
       other_peers_f_plus_one = [], remote_timers = (\<lambda>_. None), hs_peers = [], hs_other_peers = [],
       hs_all_peers = [], hs_peers_current = [], cluster_to_nodes = [], cluster_map = [], leave_set = {},
       leave_set_int = [], decision_waiting = (\<lambda>_. None), hs_cmd_pending = [], cmd_pending_buffer = [],
       pending_recs = (\<lambda>_. None), reconfig_echo_counter = (\<lambda>_. None), reconfig_ready_counter = (\<lambda>_. None),
       reconfig_count = 0, reconfig_sent = 0, clusterid_to_reconfig_count = (\<lambda>_. None), hs_delivered = 0,
       cluster_msg_count = 0, part_parent_size = 0, part_delivered = 0, part_decided = 0,
       cluster_tracker_array = [], cid_to_cluster_tracker_array = (\<lambda>_. None), finished_mc_cids = {},
       finished_update_cids = {}, last_rvc = - 5, pm_proposer = proposer, pm_last_proposed = b0 c,
       pm_locked = False, pm_waiting = False, pm_pending_beats = [], pm_qc_finish = 0, beats = (\<lambda>_. None),
       qc_promises = [0 \<mapsto> Pending []], qc_waiting = (\<lambda>_. None), next_promise = 1,
       blk_fetch_waiting = (\<lambda>_. None), blk_delivery_waiting = (\<lambda>_. None), blk_promises = (\<lambda>_. None),
       pm_alls = (\<lambda>_. None), vpool_pending = [], hs_fetched = 0, part_fetched = 0,
       part_fetched_replica = (\<lambda>_. None), outputs = []\<rparr>))"

fun add_replicas :: "nat \<Rightarrow> replica_entry list \<Rightarrow> (base, unit) prog" where
  "add_replicas i [] = ret ()"
| "add_replicas i (r # rs) =
     seqp (core_add_replica (of_nat i) (re_peer r) (re_pubkey r))
     (seqp (whenp (\<not> re_self r)
        (seqp (modify (\<lambda>s. s\<lparr>hs_peers := hs_peers s @ [re_peer r]\<rparr>))
              (modify (\<lambda>s. if re_peer r \<in> leave_set s then s else s\<lparr>hs_peers_current := hs_peers_current s @ [re_peer r]\<rparr>))))
     (add_replicas (Suc i) rs))"

text \<open>\<open>cluster_map[node_id]\<close> and \<open>cluster_to_nodes_PeerIds[cluster].push_back(peer)\<close>.\<close>

definition map_index :: "int \<Rightarrow> (int \<times> int) list \<Rightarrow> int \<times> (int \<times> int) list" where
  "map_index k m = (case map_of m k of None \<Rightarrow> (0, m @ [(k, 0)]) | Some v \<Rightarrow> (v, m))"

definition push_node :: "int \<Rightarrow> u256 \<Rightarrow> (int \<times> u256 list) list \<Rightarrow> (int \<times> u256 list) list" where
  "push_node c p m = (case map_of m c of
      None \<Rightarrow> m @ [(c, [p])]
    | Some ps \<Rightarrow> map (\<lambda>(d, qs). if d = c then (d, qs @ [p]) else (d, qs)) m)"

definition file_node :: "nat \<Rightarrow> (base, unit) prog" where
  "file_node i = modify (\<lambda>s. let (c, m) = map_index (int i) (cluster_map s)
     in s\<lparr>cluster_map := m, cluster_to_nodes := push_node c (hs_all_peers s ! i) (cluster_to_nodes s)\<rparr>)"

definition start_mc ::
  "base vtable \<Rightarrow> replica_entry list \<Rightarrow> replica_entry list \<Rightarrow> replica_entry list \<Rightarrow> (int \<times> int) list \<Rightarrow> (base, unit) prog" where
  "start_mc vt replicas all_replicas other_replicas cluster_map_input =
     seqp (modify (\<lambda>s. s\<lparr>cluster_map := cluster_map_input\<rparr>))
     (seqp (add_replicas 0 replicas)
     (seqp (modify (\<lambda>s. s\<lparr>hs_other_peers := hs_other_peers s @ map re_peer (filter (\<lambda>r. \<not> re_self r) other_replicas)\<rparr>))
     (seqp (modify (\<lambda>s. s\<lparr>hs_all_peers := hs_all_peers s @ map re_peer all_replicas\<rparr>))
     (bindp (gets (\<lambda>s. length (hs_all_peers s))) (\<lambda>n.
      seqp (forp [0..<n] file_node)
     (bindp (gets (\<lambda>s. of_nat (length (hs_peers s) div 3))) (\<lambda>nfaulty.
      seqp (on_init vt nfaulty)
      pm_init)))))))"

section \<open>Inter-cluster messages\<close>

definition finality_of :: "replica_id \<Rightarrow> nat \<Rightarrow> block \<Rightarrow> finality" where
  "finality_of rid i b = \<lparr>f_rid = rid, f_decision = 1, f_cmd_idx = of_nat i, f_cmd_height = height b,
     f_cmd_hash = cmds b ! i, f_blk_hash = hash b\<rparr>"

definition decide_after_mc :: "env \<Rightarrow> int \<Rightarrow> (base, unit) prog" where
  "decide_after_mc env cid =
     bindp (gets (\<lambda>s. find_blk_hash_for_cid (junk_hash env) cid (storage s))) (\<lambda>h.
     whenp (h \<noteq> junk_neg env)
       (bindp (did_update cid) (\<lambda>up. whenp up
         (bindp (deref h) (\<lambda>b. bindp (gets core_id) (\<lambda>rid.
          seqp (forp [0..<length (cmds b)] (\<lambda>i.
                  if i < length (keys b) \<and> i < length (vals b)
                  then do_decide (finality_of rid i b) (keys b ! i) (vals b ! i)
                  else throw UndefinedBehaviour))
               (reset_remote_view_change_timer cid)))))))"

text \<open>The tracker of a height: one counter per cluster. For a new height the vector is filled by a loop
  whose counter starts at \<open>junk_x\<close>.\<close>

definition vec_set :: "'a list \<Rightarrow> int \<Rightarrow> 'a \<Rightarrow> err + 'a list" where
  "vec_set xs i v = (if 0 \<le> i \<and> i < int (length xs) then Inr (xs[nat i := v]) else Inl UndefinedBehaviour)"

definition vec_get :: "'a list \<Rightarrow> int \<Rightarrow> err + 'a" where
  "vec_get xs i = (if 0 \<le> i \<and> i < int (length xs) then Inr (xs ! nat i) else Inl UndefinedBehaviour)"

fun all_nonzero :: "i32 list \<Rightarrow> nat list \<Rightarrow> err + bool" where
  "all_nonzero xs [] = Inr True"
| "all_nonzero xs (i # is) = ebind (vec_get xs (int i)) (\<lambda>v. ebind (all_nonzero xs is) (\<lambda>r. Inr (v \<noteq> 0 \<and> r)))"

fun clear_first :: "nat \<Rightarrow> i32 list \<Rightarrow> err + i32 list" where
  "clear_first 0 xs = Inr xs"
| "clear_first (Suc n) xs = ebind (clear_first n xs) (\<lambda>ys. vec_set ys (int n) 0)"

definition fresh_tracker :: "env \<Rightarrow> i32 \<Rightarrow> i32 \<Rightarrow> err + i32 list" where
  "fresh_tracker env ncl own = vec_set (replicate (nat (sint ncl - junk_x env)) 0) (sint own) 1"

definition new_tracker :: "env \<Rightarrow> int \<Rightarrow> u32 \<Rightarrow> base \<Rightarrow> err + i32 list" where
  "new_tracker env cid pre s =
     ebind (case cid_to_cluster_tracker_array s cid of None \<Rightarrow> fresh_tracker env (n_clusters s) (core_cluster_id s) | Some a \<Rightarrow> Inr a)
       (\<lambda>a. ebind (vec_get a (uint pre)) (\<lambda>v. vec_set a (uint pre) (v + 1)))"

definition reset_tracker :: "i32 \<Rightarrow> i32 \<Rightarrow> i32 list \<Rightarrow> err + i32 list" where
  "reset_tracker ncl own a = ebind (clear_first (nat (sint ncl)) a) (\<lambda>b. vec_set b (sint own) 1)"

text \<open>Counting one message of cluster \<open>pre\<close>; when every cluster has been heard the height is finished and
  its commands are executed.\<close>

definition mc_count :: "env \<Rightarrow> int \<Rightarrow> u32 \<Rightarrow> (base, unit) prog" where
  "mc_count env cid pre =
     bindp (gets n_clusters) (\<lambda>ncl. bindp (gets core_cluster_id) (\<lambda>own. bindp (gets (new_tracker env cid pre)) (\<lambda>r.
     bindp (lift r) (\<lambda>a.
     bindp (lift (all_nonzero a [0..<nat (sint ncl)])) (\<lambda>full.
     bindp (if full then
              seqp (modify (\<lambda>s. s\<lparr>cluster_msg_count := cluster_msg_count s + 1\<rparr>))
              (seqp (modify (\<lambda>s. s\<lparr>finished_mc_cids := insert cid (finished_mc_cids s)\<rparr>))
              (seqp (decide_after_mc env cid)
              (lift (reset_tracker ncl own a))))
            else ret a) (\<lambda>a'.
     seqp (modify (\<lambda>s. s\<lparr>cluster_tracker_array := a'\<rparr>))
     (modify (\<lambda>s. s\<lparr>cid_to_cluster_tracker_array := (cid_to_cluster_tracker_array s)(cid \<mapsto> a')\<rparr>))))))))"

definition receive_mc_local :: "env \<Rightarrow> proposal \<Rightarrow> (base, unit) prog" where
  "receive_mc_local env prop =
     (let cid = cid_of_height (p_other_cluster_block_height prop);
          pre = p_pre_amp_cluster_number prop
      in
      seqp (bindp (gets (\<lambda>s. counter (clusterid_to_reconfig_count s) pre)) (\<lambda>c. whenp (c \<noteq> p_reconfig_count prop)
             (seqp (modify (\<lambda>s. s\<lparr>clusterid_to_reconfig_count := (clusterid_to_reconfig_count s)(pre \<mapsto> p_reconfig_count prop)\<rparr>))
                   (update_other_f_plus_one env (p_current_peer_set prop) (sint pre)))))
      (case p_blk prop of None \<Rightarrow> throw UndefinedBehaviour | Some k \<Rightarrow>
       seqp (deref k)
       (bindp (gets (\<lambda>s. cid \<in> finished_mc_cids s)) (\<lambda>fin. whenp (\<not> fin) (mc_count env cid pre)))))"

text \<open>\<open>propose_handler\<close> after parsing: it answers whether the block is to be delivered and the proposal
  handled by the core.\<close>

definition propose_handler :: "env \<Rightarrow> u256 option \<Rightarrow> proposal \<Rightarrow> (base, bool) prog" where
  "propose_handler env peer prop = (case peer of None \<Rightarrow> ret False | Some from_peer \<Rightarrow>
     (case p_blk prop of None \<Rightarrow> ret False | Some k \<Rightarrow>
      bindp (gets core_cluster_id) (\<lambda>cid. bindp (gets config) (\<lambda>cfg. bindp (gets core_id) (\<lambda>rid.
      bindp (if cid = p_cluster_number prop
             then bindp (lift (get_peer_id cfg (p_proposer prop))) (\<lambda>p. ret (from_peer \<noteq> p \<and> p_msg_type prop < 3))
             else ret False) (\<lambda>invalid.
      if invalid then ret False
      else if p_msg_type prop = 1 then
        let same = proposal_new9 rid (Some k) cid (p_cluster_number prop) (p_other_cluster_block_height prop) 2
                     (p_current_peer_set prop) (p_reconfig_count prop)
        in bindp (gets (\<lambda>s. cid_of_height (p_other_cluster_block_height prop) \<in> finished_mc_cids s)) (\<lambda>fin.
           if fin then ret False
           else seqp (do_broadcast_proposal same) (seqp (receive_mc_local env same) (ret False)))
      else if p_msg_type prop = 2 then seqp (receive_mc_local env prop) (ret False)
      else ret True))))))"

text \<open>The continuations after delivery and, for votes and local complaints, verification. The first one also
  records whether the proposal carries the replica's own name.\<close>

definition proposal_delivered :: "base vtable \<Rightarrow> proposal \<Rightarrow> (base, unit) prog" where
  "proposal_delivered vt prop =
     seqp (modify (\<lambda>s. if p_proposer prop = core_id s then s\<lparr>own_name := True\<rparr> else s)) (on_receive_proposal vt prop)"

definition vote_delivered :: "base vtable \<Rightarrow> vote \<Rightarrow> bool \<Rightarrow> (base, unit) prog" where
  "vote_delivered vt v ok = (if \<not> ok then ret () else on_receive_vote vt v)"

definition LComplain_delivered :: "base vtable \<Rightarrow> complain \<Rightarrow> bool \<Rightarrow> (base, unit) prog" where
  "LComplain_delivered vt c ok = (if \<not> ok then ret () else on_receive_LComplain vt c)"

definition RComplain_handler :: "env \<Rightarrow> base vtable \<Rightarrow> u256 option \<Rightarrow> complain \<Rightarrow> (base, unit) prog" where
  "RComplain_handler env vt peer c = (case peer of None \<Rightarrow> ret () | Some _ \<Rightarrow>
     bindp (gets (\<lambda>s. find_blk_hash_for_cid (junk_hash env) (sint (c_blk_height c)) (storage s))) (\<lambda>h.
     on_receive_RComplain vt (c\<lparr>c_blk_hash := h\<rparr>)))"

text \<open>The callback of a remote view change timer.\<close>

definition remote_timeout :: "base vtable \<Rightarrow> int \<Rightarrow> u256 \<Rightarrow> (base, unit) prog" where
  "remote_timeout vt cid k = bindp (deref k) (\<lambda>b.
     bindp (gets (\<lambda>s. cid \<notin> finished_mc_cids s \<and> cid - last_rvc s > 100)) (\<lambda>go. whenp go
       (seqp (start_local_complain vt (height b) (hash b))
             (modify (\<lambda>s. s\<lparr>last_rvc := cid\<rparr>)))))"

section \<open>Delivery\<close>

text \<open>\<open>HotStuffBase::on_deliver_blk\<close> without the resolution of the waiting promises.\<close>

definition base_deliver_blk :: "base vtable \<Rightarrow> u256 \<Rightarrow> (base, bool) prog" where
  "base_deliver_blk vt k = bindp (deref k) (\<lambda>b.
     seqp (forp (parent_hashes b) (\<lambda>p. bindp (gets (\<lambda>s. is_blk_delivered p (storage s))) (\<lambda>d.
             if d then ret () else throw AssertFailed)))
     (bindp (on_deliver_blk vt k) (\<lambda>valid.
      seqp (whenp valid (modify (\<lambda>s. s\<lparr>part_parent_size := part_parent_size s + of_nat (length (parent_hashes b)),
              part_delivered := part_delivered s + 1, hs_delivered := hs_delivered s + 1\<rparr>)))
      (ret valid))))"

section \<open>Reconfiguration\<close>

definition My_AGG :: i32 where "My_AGG = 0"

definition My_ECHO :: i32 where "My_ECHO = 1"

definition My_READY :: i32 where "My_READY = 2"

definition multicast_recs :: "recs \<Rightarrow> i32 \<Rightarrow> i32 \<Rightarrow> (base, unit) prog" where
  "multicast_recs r ty c = bindp (gets hs_peers_current) (\<lambda>ps.
     emit (Multicast (MsgRecsAggEchoReady \<lparr>rm_recs = r, rm_type = ty, rm_reconfig_count = c\<rparr>) ps))"

definition bump_echo :: "i32 \<Rightarrow> (base, unit) prog" where
  "bump_echo c = modify (\<lambda>s. s\<lparr>reconfig_echo_counter := bump (reconfig_echo_counter s) c\<rparr>)"

definition bump_ready :: "i32 \<Rightarrow> (base, unit) prog" where
  "bump_ready c = modify (\<lambda>s. s\<lparr>reconfig_ready_counter := bump (reconfig_ready_counter s) c\<rparr>)"

definition MsgRecs_handler :: "u256 option \<Rightarrow> recs \<Rightarrow> (base, unit) prog" where
  "MsgRecs_handler peer r = (case peer of None \<Rightarrow> ret () | Some _ \<Rightarrow>
     bindp (gets (\<lambda>s. core_id s = pm_proposer s)) (\<lambda>leader. whenp leader
       (seqp (modify (\<lambda>s. s\<lparr>pending_recs := bump (pending_recs s) r\<rparr>))
       (bindp (gets (\<lambda>s. counter (pending_recs s) r)) (\<lambda>c. bindp (gets get_recs_majority) (\<lambda>maj.
        if sint c > sint maj then ret ()
        else whenp (c = maj)
          (seqp (modify (\<lambda>s. s\<lparr>reconfig_count := reconfig_count s + 1\<rparr>))
          (bindp (gets reconfig_count) (\<lambda>rc.
           seqp (multicast_recs r My_AGG rc) (seqp (multicast_recs r My_ECHO rc) (bump_echo rc)))))))))))"

text \<open>Rebuilding the current peers after a change of the leave set.\<close>

definition refresh_peers :: "(base, unit) prog" where
  "refresh_peers =
     seqp (modify (\<lambda>s. s\<lparr>hs_peers_current := filter (\<lambda>p. p \<notin> leave_set s) (hs_peers s)\<rparr>))
     (bindp (gets hs_peers_current) update_config_parameters)"

definition apply_reconfig :: "recs \<Rightarrow> (base, unit) prog" where
  "apply_reconfig r = bindp (gets hs_all_peers) (\<lambda>ap. bindp (vec_at ap (sint (r_node_number r))) (\<lambda>p.
     seqp (whenp (r_reconfig_mode r = 1)
       (seqp (modify (\<lambda>s. s\<lparr>leave_set := insert p (leave_set s), leave_set_int := peer_insert (r_node_number r) (leave_set_int s)\<rparr>))
             refresh_peers))
     (whenp (r_reconfig_mode r = 0)
       (seqp (modify (\<lambda>s. s\<lparr>leave_set := leave_set s - {p}, leave_set_int := removeAll (r_node_number r) (leave_set_int s)\<rparr>))
             refresh_peers))))"

definition MsgRecsAggEchoReady_handler :: "u256 option \<Rightarrow> recs_msg \<Rightarrow> (base, unit) prog" where
  "MsgRecsAggEchoReady_handler peer m = (case peer of None \<Rightarrow> ret () | Some _ \<Rightarrow>
     let r = rm_recs m; c = rm_reconfig_count m in
     seqp (whenp (rm_type m = My_AGG) (seqp (multicast_recs r My_ECHO c) (bump_echo c)))
     (seqp (whenp (rm_type m = My_ECHO)
       (seqp (bump_echo c)
       (bindp (gets (\<lambda>s. counter (reconfig_echo_counter s) c = get_recs_majority s)) (\<lambda>go. whenp go
         (seqp (multicast_recs r My_READY c)
         (bindp (gets hs_all_peers) (\<lambda>ap. bindp (vec_at ap (sint (r_node_number r))) (\<lambda>p.
          seqp (emit (SendMsg (MsgRecsAggEchoReady \<lparr>rm_recs = r, rm_type = My_READY, rm_reconfig_count = c\<rparr>) p))
          (bump_ready c)))))))))
     (whenp (rm_type m = My_READY)
       (seqp (bump_ready c)
       (bindp (gets (\<lambda>s. counter (reconfig_ready_counter s) c = get_recs_majority s)) (\<lambda>go. whenp go (apply_reconfig r)))))))"

definition send_reconfig_ack :: "finality \<Rightarrow> recs \<Rightarrow> (base, unit) prog" where
  "send_reconfig_ack fin r =
     seqp (modify (\<lambda>s. s\<lparr>part_decided := part_decided s + 1\<rparr>))
     (seqp (emit (StateMachineExecute fin))
     (seqp (run_decision_waiting fin)
     (bindp (gets pm_proposer) (\<lambda>proposer. bindp (gets core_id) (\<lambda>rid.
      if rid \<noteq> proposer
      then bindp (gets config) (\<lambda>cfg. bindp (lift (get_peer_id cfg proposer)) (\<lambda>p. emit (SendMsg (MsgRecs r) p)))
      else modify (\<lambda>s. s\<lparr>pending_recs := bump (pending_recs s) r\<rparr>))))))"

section \<open>Client commands\<close>

definition exec_command :: "client_command \<Rightarrow> nat \<Rightarrow> (base, unit) prog" where
  "exec_command ccv cb = modify (\<lambda>s. s\<lparr>hs_cmd_pending := hs_cmd_pending s @ [(ccv, cb)]\<rparr>)"

text \<open>The C++ remainder has the sign of the dividend.\<close>

definition key_class :: "i32 \<Rightarrow> int" where
  "key_class k = (if sint k \<ge> 0 then sint k mod 100 else - ((- sint k) mod 100))"

definition reply_of :: "replica_id \<Rightarrow> 8 word \<Rightarrow> u256 \<Rightarrow> finality" where
  "reply_of rid dec h = \<lparr>f_rid = rid, f_decision = dec, f_cmd_idx = 0, f_cmd_height = 0, f_cmd_hash = h, f_blk_hash = 0\<rparr>"

definition register_waiting :: "u256 \<Rightarrow> nat \<Rightarrow> (base, unit) prog" where
  "register_waiting h cb = bindp (gets core_id) (\<lambda>rid. bindp (gets (\<lambda>s. decision_waiting s h)) (\<lambda>w. case w of
      None \<Rightarrow> modify (\<lambda>s. s\<lparr>decision_waiting := (decision_waiting s)(h \<mapsto> cb)\<rparr>)
    | Some _ \<Rightarrow> emit (CommitCallback cb (reply_of rid 0 h))))"

text \<open>A block's worth of commands is taken from the front of the buffer and handed to a beat.\<close>

definition cut_block :: "(beat_cb \<Rightarrow> (base, unit) prog) \<Rightarrow> (base, unit) prog" where
  "cut_block propose = bindp (gets (\<lambda>s. take (blk_size s) (cmd_pending_buffer s))) (\<lambda>cs.
     seqp (modify (\<lambda>s. s\<lparr>cmd_pending_buffer := drop (blk_size s) (cmd_pending_buffer s)\<rparr>))
     (bindp (beat propose) (\<lambda>n.
      then_beat propose n (map ccv_cmd_hash cs, map ccv_key cs, map ccv_val cs))))"

text \<open>One iteration of the loop over the command queue; true ends the loop.\<close>

definition cmd_pending_step :: "(beat_cb \<Rightarrow> (base, unit) prog) \<Rightarrow> client_command \<Rightarrow> nat \<Rightarrow> (base, bool) prog" where
  "cmd_pending_step propose e cb =
     bindp (gets pm_proposer) (\<lambda>proposer. bindp (gets core_id) (\<lambda>rid.
     seqp (register_waiting (ccv_cmd_hash e) cb)
     (seqp (whenp (sint (ccv_reconfig_mode e) \<ge> 0)
        (send_reconfig_ack (reply_of rid 1 (ccv_cmd_hash e))
           \<lparr>r_cluster_number = ccv_cluster_number e, r_node_number = ccv_node_number e, r_reconfig_mode = ccv_reconfig_mode e\<rparr>))
     (seqp (whenp (key_class (ccv_key e) > 15) (do_decide_read_only (reply_of rid 1 (ccv_cmd_hash e))))
     (if proposer \<noteq> rid then ret False
      else
        seqp (whenp (key_class (ccv_key e) \<le> 15)
          (modify (\<lambda>s. s\<lparr>cmd_pending_buffer := cmd_pending_buffer s @ [e\<lparr>ccv_reconfig_mode := 0\<rparr>]\<rparr>)))
        (bindp (gets (\<lambda>s. length (cmd_pending_buffer s) \<ge> blk_size s)) (\<lambda>full.
         if full then seqp (cut_block propose) (ret True) else ret False)))))))"

fun drain_cmds :: "(beat_cb \<Rightarrow> (base, unit) prog) \<Rightarrow> (client_command \<times> nat) list \<Rightarrow> (base, bool) prog" where
  "drain_cmds propose [] = ret False"
| "drain_cmds propose (e # es) =
     seqp (modify (\<lambda>s. s\<lparr>hs_cmd_pending := es\<rparr>))
     (bindp (cmd_pending_step propose (fst e) (snd e)) (\<lambda>stop. if stop then ret True else drain_cmds propose es))"

definition cmd_pending_handler :: "(beat_cb \<Rightarrow> (base, unit) prog) \<Rightarrow> (base, bool) prog" where
  "cmd_pending_handler propose = bindp (gets hs_cmd_pending) (drain_cmds propose)"

end
