(* ===== verification/Delivery.thy ===== *)
theory Delivery
  imports Handlers
begin

text \<open>
  Fetching and delivery of blocks (\<^verbatim>\<open>hotstuff.cpp\<close>: \<open>on_fetch_blk\<close>, \<open>on_deliver_blk\<close>, \<open>async_fetch_blk\<close>,
  \<open>async_deliver_blk\<close>, the block request and response handlers; \<^verbatim>\<open>hotstuff.h\<close>: \<open>FetchContext\<close>;
  \<^verbatim>\<open>task.h\<close>: the answers of \<open>VeriPool\<close>; \<^verbatim>\<open>promise.hpp\<close>: \<open>then\<close>, \<open>resolve\<close>, \<open>reject\<close>, \<open>all\<close>) and the
  message handlers from the bytes received to the protocol core.

  Callbacks of a promise run at once, depth first. The calls that are still to be made are an explicit
  stack: a step takes the top entry, runs it up to the callbacks it triggers, and these come before
  the rest of the stack. An exception unwinds the whole stack.
\<close>

section \<open>Promises\<close>

definition new_promise :: "pm_kind \<Rightarrow> blk_promise \<Rightarrow> (base, nat) prog" where
  "new_promise kd p = bindp (gets next_promise) (\<lambda>n.
     seqp (modify (\<lambda>s. s\<lparr>blk_promises := (blk_promises s)(n \<mapsto> (kd, p)), next_promise := n + 1\<rparr>)) (ret n))"

text \<open>Which checks accompany the delivery in a \<open>promise::all\<close>.\<close>

datatype check = NoCheck | CheckVote vote | CheckLComplain complain

datatype work =
    WCall kont pm_value
  | WReject kont
  | WCollect "u256 list" u256 "nat list" check awaited
  | WAll awaited "pm_value list"
  | WFetched u256
  | WDeliver u256
  | WEraseFetch u256
  | WEraseDelivery u256

definition get_promise :: "nat \<Rightarrow> (base, pm_kind \<times> blk_promise) prog" where
  "get_promise n = bindp (gets (\<lambda>s. blk_promises s n)) (\<lambda>p. case p of
      None \<Rightarrow> throw UndefinedBehaviour | Some p' \<Rightarrow> ret p')"

definition set_promise :: "nat \<Rightarrow> pm_kind \<Rightarrow> blk_promise \<Rightarrow> (base, unit) prog" where
  "set_promise n kd p = modify (\<lambda>s. s\<lparr>blk_promises := (blk_promises s)(n \<mapsto> (kd, p))\<rparr>)"

definition then_promise :: "nat \<Rightarrow> kont \<Rightarrow> (base, work list) prog" where
  "then_promise n k = bindp (get_promise n) (\<lambda>(kd, p). case p of
      BPending ks \<Rightarrow> seqp (set_promise n kd (BPending (ks @ [k]))) (ret [])
    | BFulfilled v \<Rightarrow> ret [WCall k v]
    | BRejected \<Rightarrow> ret [WReject k])"

definition resolve_promise :: "nat \<Rightarrow> pm_value \<Rightarrow> (base, work list) prog" where
  "resolve_promise n v = bindp (get_promise n) (\<lambda>(kd, p). case p of
      BPending ks \<Rightarrow> seqp (set_promise n kd (BFulfilled v)) (ret (map (\<lambda>k. WCall k v) ks))
    | BFulfilled w \<Rightarrow> ret []
    | BRejected \<Rightarrow> ret [])"

definition reject_promise :: "nat \<Rightarrow> (base, work list) prog" where
  "reject_promise n = bindp (get_promise n) (\<lambda>(kd, p). case p of
      BPending ks \<Rightarrow> seqp (set_promise n kd BRejected) (ret (map WReject ks))
    | BFulfilled w \<Rightarrow> ret []
    | BRejected \<Rightarrow> ret [])"

text \<open>\<open>promise::all\<close> followed by \<open>then\<close>: one slot per promise, in order.\<close>

fun subscribe :: "nat \<Rightarrow> nat \<Rightarrow> nat list \<Rightarrow> (base, work list) prog" where
  "subscribe j i [] = ret []"
| "subscribe j i (n # ns) = bindp (then_promise n (KSlot j i)) (\<lambda>ws.
     bindp (subscribe j (Suc i) ns) (\<lambda>ws'. ret (ws @ ws')))"

definition promise_all :: "nat list \<Rightarrow> awaited \<Rightarrow> (base, work list) prog" where
  "promise_all ns a = (if ns = [] then throw PromiseMismatch else
     bindp (gets next_promise) (\<lambda>j.
     seqp (modify (\<lambda>s. s\<lparr>pm_alls := (pm_alls s)(j \<mapsto> \<lparr>a_left = length ns, a_values = replicate (length ns) None,
              a_open = True, a_then = a\<rparr>), next_promise := j + 1\<rparr>))
     (subscribe j 0 ns)))"

definition fill_slot :: "nat \<Rightarrow> nat \<Rightarrow> pm_value \<Rightarrow> (base, work list) prog" where
  "fill_slot j i v = bindp (gets (\<lambda>s. pm_alls s j)) (\<lambda>x. case x of
      None \<Rightarrow> throw UndefinedBehaviour
    | Some a \<Rightarrow>
        let vs = (a_values a)[i := Some v]; left = a_left a - 1 in
        seqp (modify (\<lambda>s. s\<lparr>pm_alls := (pm_alls s)(j \<mapsto> a\<lparr>a_values := vs, a_left := left\<rparr>)\<rparr>))
        (ret (if left = 0 \<and> a_open a then [WAll (a_then a) (map the vs)] else [])))"

definition close_all :: "nat \<Rightarrow> (base, unit) prog" where
  "close_all j = bindp (gets (\<lambda>s. pm_alls s j)) (\<lambda>x. case x of
      None \<Rightarrow> throw UndefinedBehaviour
    | Some a \<Rightarrow> modify (\<lambda>s. s\<lparr>pm_alls := (pm_alls s)(j \<mapsto> a\<lparr>a_open := False\<rparr>)\<rparr>))"

section \<open>Fetching\<close>

definition fetch_send :: "u256 \<Rightarrow> u256 \<Rightarrow> (base, unit) prog" where
  "fetch_send h peer =
     seqp (modify (\<lambda>s. s\<lparr>part_fetched_replica := bump (part_fetched_replica s) peer\<rparr>))
     (emit (SendMsg (MsgReqBlock [h]) peer))"

definition fetch_add_replica :: "u256 \<Rightarrow> u256 \<Rightarrow> bool \<Rightarrow> (base, unit) prog" where
  "fetch_add_replica h peer fetch_now = bindp (gets (\<lambda>s. blk_fetch_waiting s h)) (\<lambda>x. case x of
      None \<Rightarrow> throw UndefinedBehaviour
    | Some c \<Rightarrow>
        seqp (whenp (fc_replicas c = [] \<and> fetch_now) (fetch_send h peer))
        (modify (\<lambda>s. s\<lparr>blk_fetch_waiting := (blk_fetch_waiting s)(h \<mapsto>
            c\<lparr>fc_replicas := (if peer \<in> set (fc_replicas c) then fc_replicas c else fc_replicas c @ [peer])\<rparr>)\<rparr>)))"

text \<open>The timer of a fetch context asks all known replicas again.\<close>

definition fetch_timeout :: "u256 \<Rightarrow> (base, unit) prog" where
  "fetch_timeout h = bindp (gets (\<lambda>s. blk_fetch_waiting s h)) (\<lambda>x. case x of
      None \<Rightarrow> ret ()
    | Some c \<Rightarrow> forp (fc_replicas c) (fetch_send h))"

definition async_fetch_blk :: "u256 \<Rightarrow> u256 option \<Rightarrow> bool \<Rightarrow> (base, nat) prog" where
  "async_fetch_blk h replica fetch_now = bindp (gets (\<lambda>s. is_blk_fetched h (storage s))) (\<lambda>f.
     if f then new_promise (PmFetch h) (BFulfilled (VBlk h))
     else
       bindp (gets (\<lambda>s. blk_fetch_waiting s h)) (\<lambda>x.
       bindp (case x of
          Some c \<Rightarrow> ret (fc_promise c)
        | None \<Rightarrow> bindp (new_promise (PmFetch h) (BPending [])) (\<lambda>n.
            seqp (modify (\<lambda>s. s\<lparr>blk_fetch_waiting := (blk_fetch_waiting s)(h \<mapsto> \<lparr>fc_promise = n, fc_replicas = []\<rparr>)\<rparr>))
            (ret n))) (\<lambda>n.
       seqp (case replica of None \<Rightarrow> ret () | Some peer \<Rightarrow> fetch_add_replica h peer fetch_now)
       (ret n))))"

definition on_fetch_blk :: "u256 \<Rightarrow> (base, work list) prog" where
  "on_fetch_blk k =
     seqp (modify (\<lambda>s. s\<lparr>part_fetched := part_fetched s + 1, hs_fetched := hs_fetched s + 1\<rparr>))
     (bindp (gets (\<lambda>s. blk_fetch_waiting s k)) (\<lambda>x. case x of
        None \<Rightarrow> ret []
      | Some c \<Rightarrow> bindp (resolve_promise (fc_promise c) (VBlk k)) (\<lambda>ws. ret (ws @ [WEraseFetch k]))))"

section \<open>Delivery\<close>

text \<open>The promise of a verification: answered at once, or by the pool.\<close>

definition answer :: "bool \<Rightarrow> bool \<Rightarrow> (base, nat) prog" where
  "answer now r = (if now then new_promise PmVerify (BFulfilled (VBool r))
     else bindp (new_promise PmVerify (BPending [])) (\<lambda>n.
       seqp (modify (\<lambda>s. s\<lparr>vpool_pending := vpool_pending s @ [(n, r)]\<rparr>)) (ret n)))"

definition pool_answers :: "replica_config \<Rightarrow> quorum_cert \<Rightarrow> bool" where
  "pool_answers cfg q = (case q of QuorumCertDummy h \<Rightarrow> False
     | QuorumCertSecp256k1 c \<Rightarrow> \<not> card (dom (qs_sigs c)) < nmajority cfg)"

definition verify_blk :: "env \<Rightarrow> block \<Rightarrow> (base, nat) prog" where
  "verify_blk env b = bindp (gets b0) (\<lambda>g. bindp (gets config) (\<lambda>cfg.
     bindp (deref g) (\<lambda>gb.
     bindp (lift (block_verify_async (e_lib env) (hash gb) cfg b)) (\<lambda>r.
     case qc b of None \<Rightarrow> throw UndefinedBehaviour
     | Some q \<Rightarrow> answer (qc_obj_hash q = hash gb \<or> \<not> pool_answers cfg q) r))))"

fun cert_now :: "part_cert \<Rightarrow> bool" where
  "cert_now (PartCertDummy h) = True"
| "cert_now (PartCertSecp256k1 h sg) = False"

definition run_check :: "env \<Rightarrow> check \<Rightarrow> (base, nat list) prog" where
  "run_check env chk = bindp (gets config) (\<lambda>cfg. case chk of
      NoCheck \<Rightarrow> ret []
    | CheckVote v \<Rightarrow> bindp (lift (vote_verify (e_lib env) cfg v)) (\<lambda>r.
        bindp (answer (cert_now (v_cert v)) r) (\<lambda>n. ret [n]))
    | CheckLComplain c \<Rightarrow> bindp (lift (complain_verify (e_lib env) cfg c)) (\<lambda>r.
        bindp (answer (cert_now (c_cert c)) r) (\<lambda>n. ret [n])))"

definition async_deliver_blk :: "u256 \<Rightarrow> u256 \<Rightarrow> (base, nat \<times> work list) prog" where
  "async_deliver_blk h peer = bindp (gets (\<lambda>s. is_blk_delivered h (storage s))) (\<lambda>d.
     if d then bindp (new_promise (PmDeliver h) (BFulfilled (VBlk h))) (\<lambda>n. ret (n, []))
     else bindp (gets (\<lambda>s. blk_delivery_waiting s h)) (\<lambda>x. case x of
        Some n \<Rightarrow> ret (n, [])
      | None \<Rightarrow> bindp (new_promise (PmDeliver h) (BPending [])) (\<lambda>n.
          seqp (modify (\<lambda>s. s\<lparr>blk_delivery_waiting := (blk_delivery_waiting s)(h \<mapsto> n)\<rparr>))
          (bindp (async_fetch_blk h (Some peer) True) (\<lambda>f.
           bindp (then_promise f (KFetched peer)) (\<lambda>ws. ret (n, ws)))))))"

text \<open>The continuation on the fetched block: verification, fetching the certified block, then the
  delivery of the parents.\<close>

definition on_fetched :: "env \<Rightarrow> u256 \<Rightarrow> u256 \<Rightarrow> (base, work list) prog" where
  "on_fetched env peer k = bindp (deref k) (\<lambda>b. case qc b of
      None \<Rightarrow> throw AssertFailed
    | Some q \<Rightarrow> bindp (gets b0) (\<lambda>g.
        bindp (if k = g then answer True True else verify_blk env b) (\<lambda>v.
        bindp (async_fetch_blk (qc_obj_hash q) (Some peer) True) (\<lambda>f.
        ret [WCollect (parent_hashes b) peer [v, f] NoCheck (ADeliver k)]))))"

text \<open>\<open>HotStuffBase::on_deliver_blk\<close> with the promises waiting for the block.\<close>

definition deliver_call :: "base vtable \<Rightarrow> u256 \<Rightarrow> (base, work list) prog" where
  "deliver_call vt k = bindp (base_deliver_blk vt k) (\<lambda>valid.
     bindp (gets (\<lambda>s. blk_delivery_waiting s k)) (\<lambda>x. case x of
        None \<Rightarrow> ret []
      | Some n \<Rightarrow> bindp (if valid then resolve_promise n (VBlk k) else reject_promise n) (\<lambda>ws.
          ret (ws @ [WEraseDelivery k]))))"

text \<open>What runs when a \<open>promise::all\<close> is fulfilled. In the continuation of \<open>async_deliver_blk\<close> the arguments
  of the log statement call \<open>on_deliver_blk\<close> whatever the verification answered; a second call is
  made when the answer was positive.\<close>

fun value_blk :: "pm_value \<Rightarrow> err + u256" where
  "value_blk (VBlk k) = Inr k"
| "value_blk (VBool b) = Inl UndefinedBehaviour"

fun value_bool :: "pm_value \<Rightarrow> err + bool" where
  "value_bool (VBlk k) = Inl UndefinedBehaviour"
| "value_bool (VBool b) = Inr b"

definition value_at :: "pm_value list \<Rightarrow> nat \<Rightarrow> (pm_value \<Rightarrow> err + 'a) \<Rightarrow> (base, 'a) prog" where
  "value_at vs i f = (if i < length vs then lift (f (vs ! i)) else throw UndefinedBehaviour)"

definition run_awaited :: "base vtable \<Rightarrow> awaited \<Rightarrow> pm_value list \<Rightarrow> (base, work list) prog" where
  "run_awaited vt a vs = (case a of
      ADeliver k \<Rightarrow> bindp (value_at vs 0 value_bool) (\<lambda>ok. ret (WDeliver k # (if ok then [WDeliver k] else [])))
    | APropose prop \<Rightarrow> seqp (proposal_delivered vt prop) (ret [])
    | AVote v \<Rightarrow> bindp (value_at vs 1 value_bool) (\<lambda>ok. seqp (vote_delivered vt v ok) (ret []))
    | ALComplain c \<Rightarrow> bindp (value_at vs 1 value_bool) (\<lambda>ok. seqp (LComplain_delivered vt c ok) (ret []))
    | AResp peer hs \<Rightarrow> bindp (mapp (\<lambda>v. bindp (lift (value_blk v)) (\<lambda>k. bindp (deref k) (\<lambda>b.
          if qc b = None then throw UndefinedBehaviour else ret k))) vs) (\<lambda>ks.
        seqp (emit (SendMsg (MsgRespBlock ks) peer)) (ret [])))"

section \<open>The stack of calls\<close>

definition work_step :: "env \<Rightarrow> base vtable \<Rightarrow> work \<Rightarrow> (base, work list) prog" where
  "work_step env vt w = (case w of
      WCall (KFetched peer) v \<Rightarrow> bindp (lift (value_blk v)) (on_fetched env peer)
    | WCall (KSlot j i) v \<Rightarrow> fill_slot j i v
    | WReject (KFetched peer) \<Rightarrow> ret []
    | WReject (KSlot j i) \<Rightarrow> seqp (close_all j) (ret [])
    | WCollect [] peer ns chk a \<Rightarrow> bindp (run_check env chk) (\<lambda>ms. promise_all (ns @ ms) a)
    | WCollect (h # hs) peer ns chk a \<Rightarrow> bindp (async_deliver_blk h peer) (\<lambda>(n, ws).
        ret (ws @ [WCollect hs peer (ns @ [n]) chk a]))
    | WAll a vs \<Rightarrow> run_awaited vt a vs
    | WFetched k \<Rightarrow> on_fetch_blk k
    | WDeliver k \<Rightarrow> deliver_call vt k
    | WEraseFetch h \<Rightarrow> seqp (modify (\<lambda>s. s\<lparr>blk_fetch_waiting := (blk_fetch_waiting s)(h := None)\<rparr>)) (ret [])
    | WEraseDelivery h \<Rightarrow> seqp (modify (\<lambda>s. s\<lparr>blk_delivery_waiting := (blk_delivery_waiting s)(h := None)\<rparr>)) (ret []))"

fun run_works :: "env \<Rightarrow> base vtable \<Rightarrow> nat \<Rightarrow> work list \<Rightarrow> (base, unit) prog" where
  "run_works env vt n [] = ret ()"
| "run_works env vt 0 (w # ws) = throw OutOfFuel"
| "run_works env vt (Suc n) (w # ws) = bindp (work_step env vt w) (\<lambda>new. run_works env vt n (new @ ws))"

end
