(* ===== verification/Replica.thy ===== *)
theory Replica
  imports Delivery
begin

text \<open>
  The replica as a transition system: the message handlers from the bytes received, the events of a
  replica (messages, client commands, timers, answers of the verification pool) and the steps between
  its configurations. A configuration is the state of the replica and the stack of calls still to be
  made; an event is handled when the stack is empty. An exception ends the handling of an event
  (\<^verbatim>\<open>network.h\<close> catches it) and the replica goes on; undefined behaviour, a failed assertion and an
  exhausted re-entrance bound end the run.
\<close>

section \<open>Message handlers\<close>

definition parse_on :: "(data_stream \<times> entity_storage, 'a) prog \<Rightarrow> byte list \<Rightarrow> (base, 'a) prog" where
  "parse_on m bs = (\<lambda>s. case m (ds_of_bytes bs, storage s) of (r, (d, st)) \<Rightarrow> (r, s\<lparr>storage := st\<rparr>))"

definition parse_only :: "(data_stream, 'a) prog \<Rightarrow> byte list \<Rightarrow> (base, 'a) prog" where
  "parse_only m bs = lift (fst (m (ds_of_bytes bs)))"

definition parse_propose :: "env \<Rightarrow> byte list \<Rightarrow> (base, proposal) prog" where
  "parse_propose env = parse_on (proposal_unserialize (e_lib env) (e_sha env) (e_kind env))"

definition parse_vote :: "env \<Rightarrow> byte list \<Rightarrow> (base, vote) prog" where
  "parse_vote env = parse_only (vote_unserialize (e_lib env) (e_kind env))"

definition parse_complain :: "env \<Rightarrow> byte list \<Rightarrow> (base, complain) prog" where
  "parse_complain env = parse_only (complain_unserialize (e_lib env) (e_kind env))"

definition parse_resp :: "env \<Rightarrow> byte list \<Rightarrow> (base, u256 list) prog" where
  "parse_resp env = parse_on (resp_block_parse (e_lib env) (e_sha env) (e_kind env))"

text \<open>The handlers answer the calls that follow. A message of an unknown peer is dropped before it is
  parsed, except for block responses.\<close>

definition recv_propose :: "env \<Rightarrow> u256 option \<Rightarrow> byte list \<Rightarrow> (base, work list) prog" where
  "recv_propose env peer bs = (case peer of None \<Rightarrow> ret [] | Some p \<Rightarrow>
     bindp (parse_propose env bs) (\<lambda>prop.
     bindp (propose_handler env peer prop) (\<lambda>go.
     case p_blk prop of
       Some k \<Rightarrow> if go then bindp (deref k) (\<lambda>b. ret [WCollect [hash b] p [] NoCheck (APropose prop)]) else ret []
     | None \<Rightarrow> ret [])))"

definition recv_vote :: "env \<Rightarrow> u256 option \<Rightarrow> byte list \<Rightarrow> (base, work list) prog" where
  "recv_vote env peer bs = (case peer of None \<Rightarrow> ret [] | Some p \<Rightarrow>
     bindp (parse_vote env bs) (\<lambda>v. ret [WCollect [v_blk_hash v] p [] (CheckVote v) (AVote v)]))"

definition recv_LComplain :: "env \<Rightarrow> u256 option \<Rightarrow> byte list \<Rightarrow> (base, work list) prog" where
  "recv_LComplain env peer bs = (case peer of None \<Rightarrow> ret [] | Some p \<Rightarrow>
     bindp (parse_complain env bs) (\<lambda>c. ret [WCollect [c_blk_hash c] p [] (CheckLComplain c) (ALComplain c)]))"

definition recv_RComplain :: "env \<Rightarrow> base vtable \<Rightarrow> u256 option \<Rightarrow> byte list \<Rightarrow> (base, work list) prog" where
  "recv_RComplain env vt peer bs = (case peer of None \<Rightarrow> ret [] | Some p \<Rightarrow>
     bindp (parse_complain env bs) (\<lambda>c. seqp (RComplain_handler env vt peer c) (ret [])))"

definition recv_recs :: "u256 option \<Rightarrow> byte list \<Rightarrow> (base, work list) prog" where
  "recv_recs peer bs = (case peer of None \<Rightarrow> ret [] | Some p \<Rightarrow>
     bindp (parse_only recs_unserialize bs) (\<lambda>r. seqp (MsgRecs_handler peer r) (ret [])))"

definition recv_recs_msg :: "u256 option \<Rightarrow> byte list \<Rightarrow> (base, work list) prog" where
  "recv_recs_msg peer bs = (case peer of None \<Rightarrow> ret [] | Some p \<Rightarrow>
     bindp (parse_only recs_msg_unserialize bs) (\<lambda>m. seqp (MsgRecsAggEchoReady_handler peer m) (ret [])))"

definition recv_req_blk :: "u256 option \<Rightarrow> byte list \<Rightarrow> (base, work list) prog" where
  "recv_req_blk peer bs =
     bindp (parse_only req_block_unserialize bs) (\<lambda>hs. case peer of None \<Rightarrow> ret [] | Some p \<Rightarrow>
     bindp (mapp (\<lambda>h. async_fetch_blk h None True) hs) (\<lambda>ns. promise_all ns (AResp p hs)))"

definition recv_resp_blk :: "env \<Rightarrow> byte list \<Rightarrow> (base, work list) prog" where
  "recv_resp_blk env bs = bindp (parse_resp env bs) (\<lambda>ks. ret (map WFetched ks))"

text \<open>The verification pool delivers the answer to its promise.\<close>

definition pool_answer :: "nat \<Rightarrow> (base, work list) prog" where
  "pool_answer i = bindp (gets vpool_pending) (\<lambda>ps.
     if i < length ps
     then seqp (modify (\<lambda>s. s\<lparr>vpool_pending := take i ps @ drop (Suc i) ps\<rparr>))
            (resolve_promise (fst (ps ! i)) (VBool (snd (ps ! i))))
     else ret [])"

section \<open>Events\<close>

datatype event =
    EvPropose "u256 option" "byte list"
  | EvVote "u256 option" "byte list"
  | EvLComplain "u256 option" "byte list"
  | EvRComplain "u256 option" "byte list"
  | EvRecs "u256 option" "byte list"
  | EvRecsMsg "u256 option" "byte list"
  | EvReqBlk "u256 option" "byte list"
  | EvRespBlk "byte list"
  | EvCommand client_command nat
  | EvQueue
  | EvRemoteTimer int
  | EvFetchTimer u256
  | EvPool nat

definition remote_timer :: "base vtable \<Rightarrow> int \<Rightarrow> (base, unit) prog" where
  "remote_timer vt cid = bindp (gets (\<lambda>s. remote_timers s cid)) (\<lambda>x. case x of
     None \<Rightarrow> ret () | Some k \<Rightarrow> remote_timeout vt cid k)"

definition handle :: "env \<Rightarrow> nat \<Rightarrow> event \<Rightarrow> (base, work list) prog" where
  "handle env n ev = (let vt = base_vt env n in case ev of
      EvPropose p bs \<Rightarrow> recv_propose env p bs
    | EvVote p bs \<Rightarrow> recv_vote env p bs
    | EvLComplain p bs \<Rightarrow> recv_LComplain env p bs
    | EvRComplain p bs \<Rightarrow> recv_RComplain env vt p bs
    | EvRecs p bs \<Rightarrow> recv_recs p bs
    | EvRecsMsg p bs \<Rightarrow> recv_recs_msg p bs
    | EvReqBlk p bs \<Rightarrow> recv_req_blk p bs
    | EvRespBlk bs \<Rightarrow> recv_resp_blk env bs
    | EvCommand c cb \<Rightarrow> seqp (exec_command c cb) (ret [])
    | EvQueue \<Rightarrow> seqp (cmd_pending_handler (propose_beat env vt)) (ret [])
    | EvRemoteTimer cid \<Rightarrow> seqp (remote_timer vt cid) (ret [])
    | EvFetchTimer h \<Rightarrow> seqp (fetch_timeout h) (ret [])
    | EvPool i \<Rightarrow> pool_answer i)"

section \<open>Steps\<close>

type_synonym conf = "base \<times> work list"

inductive rstep :: "env \<Rightarrow> nat \<Rightarrow> conf \<Rightarrow> conf \<Rightarrow> bool" for env n where
  rs_event: "handle env n ev s = (Inr ws, t) \<Longrightarrow> rstep env n (s, []) (t, ws)"
| rs_event_fail: "handle env n ev s = (Inl e, t) \<Longrightarrow> \<not> fatal e \<Longrightarrow> rstep env n (s, []) (t, [])"
| rs_work: "work_step env (base_vt env n) w s = (Inr new, t) \<Longrightarrow> rstep env n (s, w # ws) (t, new @ ws)"
| rs_work_fail: "work_step env (base_vt env n) w s = (Inl e, t) \<Longrightarrow> \<not> fatal e \<Longrightarrow> rstep env n (s, w # ws) (t, [])"

inductive_cases rstep_event_cases: "rstep env n (s, []) c"

inductive_cases rstep_work_cases: "rstep env n (s, w # ws) c"

text \<open>The start of a replica: construction and \<open>start_mc\<close>.\<close>

record start_args =
  sa_blk_size :: nat
  sa_rid :: replica_id
  sa_cluster :: i32
  sa_n_clusters :: i32
  sa_priv_key :: "byte list"
  sa_proposer :: replica_id
  sa_replicas :: "replica_entry list"
  sa_all_replicas :: "replica_entry list"
  sa_other_replicas :: "replica_entry list"
  sa_cluster_map :: "(int \<times> int) list"

definition started :: "env \<Rightarrow> nat \<Rightarrow> start_args \<Rightarrow> err + base" where
  "started env n a = ebind (base_new env (sa_blk_size a) (sa_rid a) (sa_cluster a) (sa_n_clusters a) (sa_priv_key a) (sa_proposer a))
     (\<lambda>s. case start_mc (base_vt env n) (sa_replicas a) (sa_all_replicas a) (sa_other_replicas a) (sa_cluster_map a) s of
        (Inl e, t) \<Rightarrow> Inl e | (Inr _, t) \<Rightarrow> Inr t)"

inductive reach :: "env \<Rightarrow> nat \<Rightarrow> start_args \<Rightarrow> conf \<Rightarrow> bool" for env n a where
  reach_start: "started env n a = Inr s \<Longrightarrow> reach env n a (s, [])"
| reach_step: "reach env n a c \<Longrightarrow> rstep env n c d \<Longrightarrow> reach env n a d"

end
