(* ===== verification/Scenario.thy ===== *)
theory Scenario
  imports Replica
begin

text \<open>A small concrete replica.\<close>

definition toy_lib :: secp where
  "toy_lib = \<lparr>ecdsa_sign = (\<lambda>m k. Some (m @ k)), ecdsa_verify = (\<lambda>sg m pk. sg = m @ pk),
     signature_serialize_compact = (\<lambda>sg. sg), signature_parse_compact = Some,
     ec_pubkey_create = Some, ec_pubkey_serialize = (\<lambda>k. k), ec_pubkey_parse = Some\<rparr>"

text \<open>This digest of a block with one parent is its first command.\<close>

definition toy_sha :: "byte list \<Rightarrow> byte list" where
  "toy_sha bs = take 32 (drop 40 bs @ replicate 32 0)"

definition toy_env :: env where
  "toy_env = \<lparr>e_lib = toy_lib, e_sha = toy_sha, e_kind = Dummy, junk_words = (\<lambda>_. 0),
     junk_prop = proposal_new9 0 None 0 0 0 0 [] 0, junk_x = 0, junk_hash = 255, junk_neg = 255,
     tail_order = (\<lambda>_. []), cluster_order = (\<lambda>ks. ks)\<rparr>"

definition toy_entry :: "nat \<Rightarrow> bool \<Rightarrow> replica_entry" where
  "toy_entry i me = \<lparr>re_self = me, re_pubkey = [of_nat i], re_peer = of_nat (100 + i)\<rparr>"

definition toy_args :: start_args where
  "toy_args = \<lparr>sa_blk_size = 1, sa_rid = 0, sa_cluster = 0, sa_n_clusters = 1, sa_priv_key = [], sa_proposer = 0,
     sa_replicas = [toy_entry 0 True], sa_all_replicas = [toy_entry 0 True], sa_other_replicas = [], sa_cluster_map = [(0, 0)]\<rparr>"

text \<open>The start of this replica, with any bound on the re-entrance.\<close>

lemma toy_genesis: "\<exists>g. block_genesis toy_lib toy_sha True 1 = Inr g"
  by (simp add: block_genesis_def block_hash_def block_serialize_def)

lemma toy_start:
  "\<exists>s. started toy_env n toy_args = Inr s \<and> vote_log s = [] \<and> \<not> own_name s \<and> b_exec s = b0 s \<and> b_lock s = b0 s \<and>
     vheight s = 0 \<and> (\<exists>b. cache s = [b0 s \<mapsto> b] \<and> parent_hashes b = [] \<and> voted b = {0})"
proof -
  obtain g where g: "block_genesis toy_lib toy_sha True 1 = Inr g" "parent_hashes g = []" "voted g = {}"
    using toy_genesis by (auto simp: block_genesis_def block_hash_def block_serialize_def empty_block_def)
  have v: "vt_create_quorum_cert (base_vt toy_env n) = create_quorum_cert toy_env"
    by (cases n) (simp_all add: mk_vt_def)
  show ?thesis
    using g v by (auto simp: started_def base_new_def core_new_def toy_args_def ebind_def start_mc_def prog_defs
      toy_entry_def core_add_replica_def assign_def deref_def cache_def toy_env_def create_quorum_cert_def lift_def
      core.defs add_blk_def storage_new_def map_insert_def set_cache_def on_init_def pm_init_def file_node_def Let_def
      map_index_def push_node_def config_new_def config_add_replica_def)
qed

definition toy0 :: base where
  "toy0 = (case started toy_env 1 toy_args of Inr s \<Rightarrow> s | Inl e \<Rightarrow> undefined)"

lemma toy0_start: "started toy_env 1 toy_args = Inr toy0"
  using toy_start [of 1] by (auto simp: toy0_def)

lemma toy0_fields: "vote_log toy0 = []" "\<not> own_name toy0" "b_exec toy0 = b0 toy0" "b_lock toy0 = b0 toy0" "vheight toy0 = 0"
  "\<exists>b. cache toy0 = [b0 toy0 \<mapsto> b] \<and> parent_hashes b = [] \<and> voted b = {0}"
  using toy_start [of 1] toy0_start by auto

lemma toy0_reach: "reach toy_env 1 toy_args (toy0, [])"
  by (rule reach_start [OF toy0_start])

end
