(* ===== verification/Format_Properties.thy ===== *)
theory Format_Properties
  imports Scenario
begin

text \<open>
  Properties of the data layer: byte streams, 256-bit blobs, bit arrays, certificates, blocks and
  messages. Each is stated over the translated code; the proofs are short compositions of the lemmas
  of the component theories.
\<close>

unbundle bit_operations_syntax

section \<open>Streams, blobs and bit arrays\<close>

text \<open>(C11) A read of more bytes than the stream holds fails with "insufficient buffer". For
  \<open>get_data_inplace\<close> the offset has moved past the end by then, so that \<open>size()\<close> wraps around to a number
  close to \<open>2 ^ 64\<close>; an integer read leaves the stream as it was.\<close>

theorem short_read_fails:
  assumes "offset s \<le> length (buffer s)" and "length (buffer s) < offset s + n" and "offset s + n < 2 ^ 63"
  shows "get_data_inplace n s = (Inl InsufficientBuffer, s\<lparr>offset := offset s + n\<rparr>) \<and>
    2 ^ 63 < ds_size (s\<lparr>offset := offset s + n\<rparr>) \<and>
    (get_int n :: (data_stream, u32) prog) s = (Inl InsufficientBuffer, s)"
proof (intro conjI)
  let ?d = "int (offset s + n) - int (length (buffer s))"
  have d: "0 < ?d" "?d < 2 ^ 63" using assms by auto
  have "(- ?d) mod 2 ^ 64 = (2 ^ 64 - ?d) mod 2 ^ 64" using mod_add_self1 [of "2 ^ 64" "- ?d"] by simp
  also have "\<dots> = 2 ^ 64 - ?d" using d by (intro mod_pos_pos_trivial) auto
  finally have "ds_size (s\<lparr>offset := offset s + n\<rparr>) = nat (2 ^ 64 - ?d)" by (simp add: ds_size_def)
  then show "2 ^ 63 < ds_size (s\<lparr>offset := offset s + n\<rparr>)" using d by simp
qed (use assms in \<open>simp_all add: get_data_inplace_def get_int_def Let_def\<close>)

theorem short_read_fails_witness:
  "get_data_inplace 4 (ds_of_bytes [1, 2]) = (Inl InsufficientBuffer, \<lparr>buffer = [1, 2], offset = 4\<rparr>) \<and>
   2 ^ 63 < ds_size \<lparr>buffer = [1, 2], offset = 4\<rparr> \<and>
   (get_int 4 :: (data_stream, u32) prog) (ds_of_bytes [1, 2]) = (Inl InsufficientBuffer, ds_of_bytes [1, 2])"
  using short_read_fails [of "ds_of_bytes [1, 2]" 4] by (simp add: ds_of_bytes_def)

text \<open>(C12) The comparison of 256-bit blobs from the most significant word down is the numeric order of
  the values they denote, and the word-wise equality is equality of the values.\<close>

theorem blob_order_numeric:
  assumes "blob_wf a" and "blob_wf b" and "loaded a" and "loaded b"
  shows "(blob_less a b \<longleftrightarrow> blob_val a < blob_val b) \<and> (blob_eq a b \<longleftrightarrow> blob_word a = blob_word b)"
  using blob_less_val [OF assms(1,2)] blob_word_eq_iff [OF assms] by simp

theorem blob_order_numeric_witness:
  "blob_less \<lparr>blob_data = [9, 0, 0, 1], loaded = True\<rparr> \<lparr>blob_data = [0, 0, 0, 2], loaded = True\<rparr> \<and>
   blob_val \<lparr>blob_data = [9, 0, 0, 1], loaded = True\<rparr> < blob_val \<lparr>blob_data = [0, 0, 0, 2], loaded = True\<rparr>"
  using blob_order_numeric [of "\<lparr>blob_data = [9, 0, 0, 1], loaded = True\<rparr>" "\<lparr>blob_data = [0, 0, 0, 2], loaded = True\<rparr>"]
  by (simp add: blob_wf_def blob_less_def numeral_3_eq_3)

text \<open>Loading 32 bytes into a blob, printing it and reading it back reproduces the bytes and the
  blob, whatever follows in the stream.\<close>

theorem blob_roundtrip:
  assumes "length arr = 32"
  shows "blob_of_bytearray arr = Inr (blob_load arr) \<and> blob_serialize (blob_load arr) = arr \<and>
    reads blob_unserialize arr (blob_load arr)"
proof -
  have "reads blob_unserialize (blob_serialize (blob_load arr)) (blob_load arr)"
    by (rule blob_unserialize_reads) (simp_all add: blob_load_def blob_wf_def)
  then show ?thesis using assms by (simp add: blob_of_bytearray_def blob_serialize_load)
qed

theorem blob_roundtrip_witness:
  "blob_serialize (blob_load (replicate 31 7 @ [255])) = replicate 31 7 @ [255]"
  using blob_roundtrip [of "replicate 31 7 @ [255]"] by simp

text \<open>(C13) Bit arrays: after \<open>set\<close> a bit reads one, after \<open>unset\<close> zero, and every other bit within the
  capacity is unchanged; beyond the capacity both \<open>get\<close> and \<open>set\<close> access memory out of bounds.\<close>

theorem bits_set_get:
  assumes "bits_wf b" and "unat i < bits_cap b" and "unat j < bits_cap b" and "bits_cap b \<le> unat k"
  shows "\<exists>b1 b2. bits_set b i = Inr b1 \<and> bits_unset b i = Inr b2 \<and>
    bits_get b1 j = (if j = i then Inr 1 else bits_get b j) \<and>
    bits_get b2 j = (if j = i then Inr 0 else bits_get b j) \<and>
    bits_get b k = Inl UndefinedBehaviour \<and> bits_set b k = Inl UndefinedBehaviour"
proof -
  obtain b1 b2 where b: "bits_set b i = Inr b1" "bits_unset b i = Inr b2"
    using ba.put_total [OF assms(1,2)] ba.drp_total [OF assms(1,2)] by blast
  then show ?thesis
    using ba.get_put [OF assms(1-3) b(1)] ba.get_drp [OF assms(1-3) b(2)]
      ba.get_out_of_range [OF assms(1,4)] ba.put_out_of_range [OF assms(1,4)] by auto
qed

theorem bits_set_get_witness:
  "\<exists>b1. bits_set (bits_new (\<lambda>_. 0) 10) 3 = Inr b1 \<and> bits_get b1 3 = Inr 1 \<and>
     bits_get (bits_new (\<lambda>_. 0) 10) 64 = Inl UndefinedBehaviour"
proof -
  have cap: "bits_cap (bits_new (\<lambda>_. 0) 10) = 64" by (simp add: bits_cap_def bits_new_def bits_words_def)
  show ?thesis
    using bits_set_get [of "bits_new (\<lambda>_. 0) 10" 3 3 64] by (auto simp: cap)
qed

text \<open>(C14) The word count of a bit array is computed in 32-bit arithmetic: for a bit count within 63 of
  \<open>2 ^ 32\<close> it wraps to zero, the array is empty, and already the first access is out of bounds.\<close>

theorem bits_size_wraps:
  assumes "2 ^ 32 - 63 \<le> unat n"
  shows "bits_words n = 0 \<and> bits_get (bits_new junk n) i = Inl UndefinedBehaviour"
proof -
  have "unat (n + 63) = (unat n + 63) mod 2 ^ 32" by (simp add: unat_word_ariths)
  also have "\<dots> = unat n + 63 - 2 ^ 32"
    using assms unat_lt32 [of n] by (subst mod_if) (auto simp: le_mod_geq)
  finally have "unat (n + 63) < 64" using unat_lt32 [of n] by linarith
  then have w: "bits_words n = 0" by (simp add: bits_words_def word_unat_eq_iff unat_div)
  then show ?thesis by (simp add: bits_get_def bits_new_def Let_def)
qed

theorem bits_size_wraps_witness:
  "bits_get (bits_new (\<lambda>_. 0) 4294967290) 0 = Inl UndefinedBehaviour"
  using bits_size_wraps [of 4294967290 "\<lambda>_. 0" 0] by simp

text \<open>Loading a bit array from five or more bytes shifts a promoted 32-bit integer by 32 or more:
  undefined behaviour for every such input.\<close>

theorem bits_load_undefined:
  assumes "5 \<le> length arr" and "length arr < 2 ^ 28"
  shows "bits_load arr = Inl UndefinedBehaviour"
proof -
  obtain a0 a1 a2 a3 a4 as where arr: "arr = a0 # a1 # a2 # a3 # a4 # as"
    using assms(1) by (auto simp: eval_nat_numeral Suc_le_length_iff)
  have w: "load_le_word 0 (take 8 arr) 0 = Inl UndefinedBehaviour"
    by (simp add: arr eval_nat_numeral)
  have "unat (of_nat (length arr) * 8 + 63 :: u32) = length arr * 8 + 63"
    using assms(2) by (simp add: unat_word_ariths unat_of_nat)
  then have "unat (bits_words (of_nat (length arr) * 8)) = (length arr * 8 + 63) div 64"
    by (simp add: bits_words_def unat_div)
  moreover have "0 < (length arr * 8 + 63) div 64" using assms(1) by simp
  ultimately obtain m where "unat (bits_words (of_nat (length arr) * 8)) = Suc m" by (metis gr0_conv_Suc)
  then show ?thesis using w by (simp add: bits_load_def)
qed

theorem bits_load_undefined_witness: "bits_load [1, 2, 3, 4, 5] = Inl UndefinedBehaviour"
  using bits_load_undefined [of "[1, 2, 3, 4, 5]"] by simp

section \<open>Certificates\<close>

text \<open>The two-word hypothesis on the signature library, for the certificates of the witnesses.\<close>

lemma toy_printable: "length sg = 64 \<Longrightarrow> sig_printable toy_lib sg"
  by (simp add: sig_printable_def toy_lib_def)

text \<open>(C15) Whatever bytes a certificate was parsed from, it verifies exactly when it carries at least
  \<open>nmajority\<close> distinct signers and every one of their signatures is accepted by the registered public
  key of the signer for the certified hash.\<close>

theorem parsed_qc_verify:
  assumes "qc_unserialize lib Secp256k1 s = (Inr cert, t)"
  shows "\<exists>q. cert = QuorumCertSecp256k1 q \<and> (qc_verify lib cfg cert = Inr True \<longleftrightarrow>
    nmajority cfg \<le> card (dom (qs_sigs q)) \<and>
    (\<forall>r sg. qs_sigs q r = Some sg \<longrightarrow> sig_accepted lib cfg (qc_obj_hash cert) r sg))"
proof -
  obtain q where q: "cert = QuorumCertSecp256k1 q" "qs_wf q" by (rule qc_unserialize_wf [OF assms])
  then show ?thesis using qc_verify_True [OF q(2), of lib cfg] by simp
qed

definition one_signer :: qc_secp where
  "one_signer = \<lparr>qs_obj_hash = 7, qs_rids = \<lparr>bits_data = Some [1], nbits = 1, ndata = 1\<rparr>,
     qs_sigs = [0 \<mapsto> hash_serialize 7 @ replicate 32 5]\<rparr>"

lemma one_signer_wf: "qs_wf one_signer"
proof -
  have m: "qs_members one_signer = {0}"
    by (auto simp: qs_members_def bits_members_def one_signer_def)
  have w: "bits_words 1 = 1" by (simp add: bits_words_def)
  show ?thesis
    unfolding qs_wf_def m by (simp add: one_signer_def bits_wf_def bits_cap_def w)
qed

lemma one_signer_reads:
  obtains bs where "qc_serialize toy_lib (QuorumCertSecp256k1 one_signer) = Inr bs"
    "reads (qc_unserialize toy_lib Secp256k1) bs (QuorumCertSecp256k1 one_signer)"
proof -
  have "sig_printable toy_lib sg" if "qs_sigs one_signer r = Some sg" for r sg
    using that by (auto simp: one_signer_def intro!: toy_printable split: if_splits)
  then show ?thesis using qc_secp_roundtrip [OF one_signer_wf, of toy_lib] that by blast
qed

definition one_config :: replica_config where
  "one_config = \<lparr>replica_map = [0 \<mapsto> \<lparr>ri_id = 0, ri_peer_id = 1, ri_pubkey = replicate 32 5\<rparr>], nreplicas = 1, nmajority = 1\<rparr>"

lemma one_signer_accepted: "sig_accepted toy_lib one_config 7 0 (hash_serialize 7 @ replicate 32 5)"
  by (simp add: sig_accepted_def one_config_def toy_lib_def)

theorem parsed_qc_verify_witness:
  "\<exists>s t. qc_unserialize toy_lib Secp256k1 s = (Inr (QuorumCertSecp256k1 one_signer), t) \<and>
     qc_verify toy_lib one_config (QuorumCertSecp256k1 one_signer) = Inr True"
proof -
  obtain bs where bs: "reads (qc_unserialize toy_lib Secp256k1) bs (QuorumCertSecp256k1 one_signer)"
    by (rule one_signer_reads)
  have p: "qc_unserialize toy_lib Secp256k1 (put_data bs ds_new) =
      (Inr (QuorumCertSecp256k1 one_signer), \<lparr>buffer = bs, offset = length bs\<rparr>)"
    by (rule reads_written [OF bs])
  have "nmajority one_config \<le> card (dom (qs_sigs one_signer))"
    "\<forall>r sg. qs_sigs one_signer r = Some sg \<longrightarrow> sig_accepted toy_lib one_config (qc_obj_hash (QuorumCertSecp256k1 one_signer)) r sg"
    using one_signer_accepted by (auto simp: one_signer_def one_config_def)
  then show ?thesis using parsed_qc_verify [OF p, of one_config] p by auto
qed



lemma add_parts:
  assumes "qs_wf q" and "\<And>r sg. (r, sg) \<in> set vs \<Longrightarrow> unat r < unat (nbits (qs_rids q))"
    and "distinct (map fst vs)" and "fst ` set vs \<inter> dom (qs_sigs q) = {}"
  shows "\<exists>q'. foldl (\<lambda>x v. ebind x (\<lambda>c. qc_add_part c (fst v) (PartCertSecp256k1 (qs_obj_hash q) (snd v))))
      (Inr (QuorumCertSecp256k1 q)) vs = Inr (QuorumCertSecp256k1 q') \<and> qs_wf q' \<and>
    qs_obj_hash q' = qs_obj_hash q \<and> qs_sigs q' = qs_sigs q ++ map_of vs"
  using assms
proof (induction vs arbitrary: q)
  case (Cons v vs)
  obtain r sg where v: "v = (r, sg)" by (cases v)
  have r: "unat r < unat (nbits (qs_rids q))" by (rule Cons.prems(2) [of r sg]) (simp add: v)
  obtain q1 where q1: "qc_add_part (QuorumCertSecp256k1 q) r (PartCertSecp256k1 (qs_obj_hash q) sg) = Inr (QuorumCertSecp256k1 q1)"
    "qs_wf q1" "qs_obj_hash q1 = qs_obj_hash q" "qs_sigs q1 = map_insert r sg (qs_sigs q)" "nbits (qs_rids q1) = nbits (qs_rids q)"
    by (rule qc_add_part_secp [OF Cons.prems(1) r])
  have new: "qs_sigs q r = None" using Cons.prems(4) v by auto
  then have sigs: "qs_sigs q1 = (qs_sigs q)(r \<mapsto> sg)" by (simp add: q1(4) map_insert_def)
  have rest: "unat r' < unat (nbits (qs_rids q1))" if "(r', sg') \<in> set vs" for r' sg'
    using Cons.prems(2) [of r' sg'] that q1(5) by simp
  have disj: "fst ` set vs \<inter> dom (qs_sigs q1) = {}" using Cons.prems(3,4) v sigs by auto
  have "distinct (map fst vs)" using Cons.prems(3) by simp
  from Cons.IH [of q1, OF q1(2) _ this disj] rest
  obtain q' where q': "foldl (\<lambda>x v. ebind x (\<lambda>c. qc_add_part c (fst v) (PartCertSecp256k1 (qs_obj_hash q1) (snd v))))
      (Inr (QuorumCertSecp256k1 q1)) vs = Inr (QuorumCertSecp256k1 q')" "qs_wf q'" "qs_obj_hash q' = qs_obj_hash q1"
      "qs_sigs q' = qs_sigs q1 ++ map_of vs"
    by blast
  have "map_of vs r = None" using Cons.prems(3) v by (simp add: map_of_eq_None_iff)
  then have "qs_sigs q' = qs_sigs q ++ map_of (v # vs)"
    by (auto simp: q'(4) sigs v map_add_def split: option.split)
  then show ?case using q1(1,3) q'(1-3) by (simp add: v del: qc_add_part.simps fun_upd_apply)
qed simp

text \<open>(C17) Collecting votes: starting from a fresh certificate for a hash, adding the partial certificates
  of distinct replicas of the configuration, each with an accepted signature, succeeds, and once there
  are \<open>nmajority\<close> of them the certificate verifies.\<close>

theorem votes_make_certificate:
  assumes "nreplicas cfg < 2 ^ 32 - 63" and "distinct (map fst vs)" and "nmajority cfg \<le> length vs"
    and "\<forall>(r, sg) \<in> set vs. unat r < nreplicas cfg \<and> sig_accepted lib cfg h r sg"
  shows "\<exists>q0 q'. create_quorum_cert_of Secp256k1 junk cfg h = Inr q0 \<and>
    foldl (\<lambda>x v. ebind x (\<lambda>c. qc_add_part c (fst v) (PartCertSecp256k1 h (snd v)))) (Inr q0) vs = Inr q' \<and>
    qc_obj_hash q' = h \<and> qc_verify lib cfg q' = Inr True"
proof -
  obtain q0 where q0: "qc_secp_new junk cfg h = Inr q0" "qs_wf q0" "qs_obj_hash q0 = h" "qs_sigs q0 = (\<lambda>_. None)"
      "unat (nbits (qs_rids q0)) = nreplicas cfg"
    by (rule qc_secp_new_wf [OF assms(1)])
  obtain q' where q': "foldl (\<lambda>x v. ebind x (\<lambda>c. qc_add_part c (fst v) (PartCertSecp256k1 h (snd v))))
      (Inr (QuorumCertSecp256k1 q0)) vs = Inr (QuorumCertSecp256k1 q')" "qs_wf q'" "qs_obj_hash q' = h" "qs_sigs q' = map_of vs"
    using add_parts [OF q0(2), of vs] assms(2,4) q0 by fastforce
  have "card (dom (map_of vs)) = length vs"
    using assms(2) by (simp add: dom_map_of_conv_image_fst distinct_card flip: set_map)
  moreover have "sig_accepted lib cfg h r sg" if "map_of vs r = Some sg" for r sg
    using assms(4) map_of_SomeD [OF that] by auto
  ultimately have "qc_verify lib cfg (QuorumCertSecp256k1 q') = Inr True"
    unfolding qc_verify_True [OF q'(2)] q'(3,4) using assms(3) by simp
  then show ?thesis using q0(1) q'(1,3) by auto
qed

theorem votes_make_certificate_witness:
  "\<exists>q0 q'. create_quorum_cert_of Secp256k1 (\<lambda>_. 0) one_config 7 = Inr q0 \<and>
     foldl (\<lambda>x v. ebind x (\<lambda>c. qc_add_part c (fst v) (PartCertSecp256k1 7 (snd v)))) (Inr q0)
       [(0, hash_serialize 7 @ replicate 32 5)] = Inr q' \<and>
     qc_obj_hash q' = 7 \<and> qc_verify toy_lib one_config q' = Inr True"
  by (rule votes_make_certificate) (use one_signer_accepted in \<open>simp_all add: one_config_def\<close>)




text \<open>(C19) Certificates round trip: printing a well-formed certificate succeeds, and reading the bytes
  back, whatever follows them, gives the same certificate.\<close>

theorem qc_wire_roundtrip:
  assumes "qc_ok lib kind cert"
  shows "\<exists>bs. qc_serialize lib cert = Inr bs \<and> reads (qc_unserialize lib kind) bs cert"
  by (rule qc_roundtrip [OF assms]) blast

theorem qc_wire_roundtrip_witness:
  "\<exists>bs. qc_serialize toy_lib (QuorumCertSecp256k1 one_signer) = Inr bs \<and>
     reads (qc_unserialize toy_lib Secp256k1) bs (QuorumCertSecp256k1 one_signer)"
proof (rule qc_wire_roundtrip)
  have "\<forall>r. case qs_sigs one_signer r of None \<Rightarrow> True | Some sg \<Rightarrow> sig_printable toy_lib sg"
    by (auto simp: one_signer_def intro!: toy_printable)
  then show "qc_ok toy_lib Secp256k1 (QuorumCertSecp256k1 one_signer)" using one_signer_wf by simp
qed

section \<open>Blocks and messages\<close>

text \<open>(C20) Blocks round trip: the receiver of a printable block rebuilds exactly its parents, commands,
  keys, values, certificate and extra bytes, computes as its hash the digest of the bytes on the wire,
  and starts it undelivered and undecided.\<close>

theorem block_wire_roundtrip:
  assumes "block_printable lib kind b"
  shows "\<exists>bs. block_serialize lib b = Inr bs \<and> reads (block_unserialize lib sha kind) bs
    (empty_block\<lparr>parent_hashes := parent_hashes b, cmds := cmds b, keys := keys b, vals := vals b, qc := qc b,
       extra := extra b, hash := get_hash sha bs\<rparr>)"
  by (rule block_roundtrip_reads [OF assms, of sha]) (auto simp: wire_block_def)

definition sample_block :: block where
  "sample_block = empty_block\<lparr>parent_hashes := [3], cmds := [11], keys := [1], vals := [2],
     qc := Some (QuorumCertDummy 3), extra := [9]\<rparr>"

lemma sample_block_printable: "block_printable toy_lib Dummy sample_block"
  by (simp add: block_printable_def sample_block_def empty_block_def)

theorem block_wire_roundtrip_witness:
  "\<exists>bs. block_serialize toy_lib sample_block = Inr bs \<and> reads (block_unserialize toy_lib toy_sha Dummy) bs
    (empty_block\<lparr>parent_hashes := [3], cmds := [11], keys := [1], vals := [2], qc := Some (QuorumCertDummy 3),
       extra := [9], hash := get_hash toy_sha bs\<rparr>)"
  using block_wire_roundtrip [OF sample_block_printable, of toy_sha] by (simp add: sample_block_def empty_block_def)

text \<open>(C22) Proposals round trip across two replicas: what the sender prints from its storage is parsed
  by the receiver to the same proposal, and the block is filed in the receiver's storage under the
  digest of its bytes; only for message type 9 the block is dropped.\<close>

theorem proposal_wire_roundtrip:
  assumes "find_blk k st0 = Some b" and "p_blk p = Some k" and "proposal_printable lib kind b p"
  shows "\<exists>bs bb. proposal_serialize lib st0 p = Inr bs \<and> block_serialize lib b = Inr bb \<and>
    proposal_unserialize lib sha kind (put_data bs ds_new, st) =
      (let w = wire_block sha bb b
       in (Inr (p\<lparr>p_blk := if p_msg_type p = 9 then None else Some (hash w)\<rparr>),
           (\<lparr>buffer = bs, offset = length bs\<rparr>, if p_msg_type p = 9 then st else snd (add_blk w st))))"
  by (rule proposal_roundtrip [OF assms, of sha st]) blast

theorem proposal_wire_roundtrip_witness:
  "\<exists>bs bb. proposal_serialize toy_lib (snd (add_blk sample_block storage_new)) (proposal_new9 2 (Some 0) 1 1 5 1 [4, 6] 0) = Inr bs \<and>
    block_serialize toy_lib sample_block = Inr bb \<and>
    proposal_unserialize toy_lib toy_sha Dummy (put_data bs ds_new, storage_new) =
      (let w = wire_block toy_sha bb sample_block
       in (Inr (proposal_new9 2 (Some (hash w)) 1 1 5 1 [4, 6] 0),
           (\<lparr>buffer = bs, offset = length bs\<rparr>, snd (add_blk w storage_new))))"
proof -
  have h: "hash sample_block = 0" by (simp add: sample_block_def empty_block_def)
  have f: "find_blk 0 (snd (add_blk sample_block storage_new)) = Some sample_block"
    using h by (simp add: find_blk_def add_blk_def storage_new_def map_insert_def)
  have p: "proposal_printable toy_lib Dummy sample_block (proposal_new9 2 (Some 0) 1 1 5 1 [4, 6] 0)"
    using sample_block_printable by (simp add: proposal_printable_def proposal_new9_def)
  show ?thesis
    using proposal_wire_roundtrip [OF f _ p, of toy_sha storage_new] by (simp add: proposal_new9_def Let_def)
qed

text \<open>Votes and complaints: a sequence of printed messages followed by anything is split and parsed
  back to the same sequence.\<close>

theorem vote_stream_roundtrip:
  assumes "\<forall>v \<in> set vs. pc_ok lib kind (v_cert v)" and "\<forall>c \<in> set cs. pc_ok lib kind (c_cert c)"
  shows "reads (replicatep (length vs) (vote_unserialize lib kind)) (concat (map (vote_serialize lib) vs)) vs \<and>
    reads (replicatep (length cs) (complain_unserialize lib kind)) (concat (map (complain_serialize lib) cs)) cs"
  using votes.parse_many [of vs lib kind] complains.parse_many [of cs lib kind] assms by blast

theorem vote_stream_roundtrip_witness:
  "reads (replicatep 1 (vote_unserialize toy_lib Dummy))
     (vote_serialize toy_lib \<lparr>voter = 3, v_blk_hash = 7, v_cert = PartCertDummy 7\<rparr>)
     [\<lparr>voter = 3, v_blk_hash = 7, v_cert = PartCertDummy 7\<rparr>]"
  using vote_stream_roundtrip [of "[\<lparr>voter = 3, v_blk_hash = 7, v_cert = PartCertDummy 7\<rparr>]" toy_lib Dummy "[]"] by simp

text \<open>Finality messages, reconfiguration messages and block requests are prefix-free on the wire:
  two of them that are followed by anything and agree as byte strings are the same message.\<close>

theorem messages_prefix_free:
  assumes "f_decision f = 1 \<or> f_blk_hash f = 0" and "f_decision g = 1 \<or> f_blk_hash g = 0"
    and "length hs < 2 ^ 32" and "length ks < 2 ^ 32"
  shows "(finality_serialize f @ x = finality_serialize g @ y \<longrightarrow> f = g \<and> x = y) \<and>
    (recs_msg_serialize m @ x = recs_msg_serialize n @ y \<longrightarrow> m = n \<and> x = y) \<and>
    (req_block_serialize hs @ x = req_block_serialize ks @ y \<longrightarrow> hs = ks \<and> x = y)"
  using fins.ser_prefix_free [of f g] recs_msgs.ser_prefix_free [where x = m and y = n] req_blocks.ser_prefix_free [of hs ks] assms
  by blast

theorem messages_prefix_free_witness:
  "req_block_serialize [1, 2] @ [7] \<noteq> req_block_serialize [1] @ [7]"
  using messages_prefix_free [of "\<lparr>f_rid = 0, f_decision = 1, f_cmd_idx = 0, f_cmd_height = 0, f_cmd_hash = 0, f_blk_hash = 0\<rparr>"
      "\<lparr>f_rid = 0, f_decision = 1, f_cmd_idx = 0, f_cmd_height = 0, f_cmd_hash = 0, f_blk_hash = 0\<rparr>" "[1, 2]" "[1]" "[7]" "[7]"]
  by simp

text \<open>(C23) A client command is parsed back to itself, its hash included, from what \<open>serialize\<close> wrote; the
  accessor \<open>get_cid\<close> then returns the request number instead of the client identifier.\<close>

theorem command_roundtrip:
  assumes "length junk = cmd_reqsize"
  shows "(let c = command_new sha junk cid n k v cn nn rm in
     reads (command_unserialize sha) (command_serialize c) c \<and> cmd_cid (as_command c) = n \<and> cmd_hash (as_command c) = get_hash sha (command_serialize c))"
proof -
  let ?c = "command_new sha junk cid n k v cn nn rm"
  have "length (cd_payload ?c) = cmd_reqsize \<and> command_hash sha ?c = ?c"
    using assms by (simp add: command_new_def command_hash_def command_serialize_def)
  then have "reads (command_unserialize sha) (command_serialize ?c) ?c" by (rule commands.parse_ser)
  moreover have "cmd_cid (as_command ?c) = n" "cmd_hash (as_command ?c) = get_hash sha (command_serialize ?c)"
    by (simp_all add: as_command_def command_new_def command_hash_def command_serialize_def)
  ultimately show ?thesis by (simp add: Let_def)
qed

theorem command_roundtrip_witness:
  "cmd_cid (as_command (command_new toy_sha (replicate 1024 0) 5 1 2 3 0 0 0)) = 1"
  using command_roundtrip [of "replicate 1024 0" toy_sha 5 1 2 3 0 0 0] by (simp add: Let_def cmd_reqsize_def)

section \<open>Whatever bytes arrive\<close>

text \<open>A signature library is canonical when what it parses can be printed and parsed again.\<close>

definition canonical_sigs :: "secp \<Rightarrow> bool" where
  "canonical_sigs lib \<longleftrightarrow> (\<forall>bs sg. length bs = 64 \<longrightarrow> signature_parse_compact lib bs = Some sg \<longrightarrow> sig_printable lib sg)"

lemma get_data_length: "get_data_inplace n s = (Inr bs, t) \<Longrightarrow> length bs = n"
  by (auto simp: get_data_inplace_def Let_def split: if_splits)

lemma sig_unserialize_printable:
  assumes "canonical_sigs lib" and "sig_unserialize lib s = (Inr sg, t)"
  shows "sig_printable lib sg"
proof -
  obtain bs where "get_data_inplace 64 s = (Inr bs, t)" "signature_parse_compact lib bs = Some sg"
    using assms(2) by (auto simp: sig_unserialize_def get_parsed_def split: prod.splits sum.splits option.splits)
  then show ?thesis using assms(1) get_data_length unfolding canonical_sigs_def by blast
qed

lemma qs_unserialize_printable:
  assumes "canonical_sigs lib" and "qs_unserialize_from lib b is m s = (Inr m', t)"
    and "\<And>r sg. m r = Some sg \<Longrightarrow> sig_printable lib sg" and "m' r = Some sg"
  shows "sig_printable lib sg"
  using assms(2,3)
proof (induction "is" arbitrary: m s)
  case Nil
  then show ?case using assms(4) by (simp add: ret_def)
next
  case (Cons i "is")
  obtain v where v: "bits_get b (of_nat i) = Inr v"
    using Cons.prems(1) by (cases "bits_get b (of_nat i)") (auto simp: throw_def)
  show ?case
  proof (cases "v = 0")
    case True
    then show ?thesis using Cons.IH [of m s] Cons.prems v by simp
  next
    case False
    then obtain x u where x: "sig_unserialize lib s = (Inr x, u)" "qs_unserialize_from lib b is (m(of_nat i \<mapsto> x)) u = (Inr m', t)"
      using Cons.prems(1) v by (auto simp: bindp_eq_Inr)
    show ?thesis
      by (rule Cons.IH [OF x(2)]) (use sig_unserialize_printable [OF assms(1) x(1)] Cons.prems(2) in \<open>auto split: if_splits\<close>)
  qed
qed

lemma qc_unserialize_ok:
  assumes "canonical_sigs lib" and "qc_unserialize lib kind s = (Inr q, t)"
  shows "qc_ok lib kind q"
proof (cases kind)
  case Dummy
  then show ?thesis using assms(2) by (auto simp: bindp_eq_Inr ret_def)
next
  case Secp256k1
  then obtain c where c: "q = QuorumCertSecp256k1 c" "qs_wf c" using qc_unserialize_wf assms(2) by metis
  obtain u v where "qs_unserialize_from lib (qs_rids c) [0..<unat (bits_size (qs_rids c))] (\<lambda>_. None) u = (Inr (qs_sigs c), v)"
    using assms(2) Secp256k1 c(1) by (auto simp: bindp_eq_Inr ret_def)
  from qs_unserialize_printable [OF assms(1) this] show ?thesis using c Secp256k1 by (simp split: option.split)
qed

lemma length_get_extra: "get_extra n s = (Inr ex, t) \<Longrightarrow> length ex < 2 ^ 32"
  using unat_lt32 [of n] by (auto simp: get_extra_def ret_def split: if_splits dest: get_data_length)

lemma block_unserialize_typed:
  assumes "canonical_sigs lib" and "block_unserialize lib sha kind s = (Inr b, t)"
  shows "block_printable lib kind b \<and> (\<exists>bs. block_serialize lib b = Inr bs \<and> b = wire_block sha bs b)"
proof -
  obtain np nc :: u32 and ph cs ks vs q ne ex h where
    l: "length ph = unat np" "length cs = unat nc" "length ks = unat nc" "length vs = unat nc" "length ex < 2 ^ 32"
    and q: "qc_ok lib kind q"
    and b: "b = empty_block\<lparr>parent_hashes := ph, cmds := cs, keys := ks, vals := vs, qc := Some q, extra := ex, hash := h\<rparr>"
    and h: "block_hash lib sha (empty_block\<lparr>parent_hashes := ph, cmds := cs, keys := ks, vals := vs, qc := Some q, extra := ex\<rparr>) = Inr h"
    using assms(2) by (auto simp: block_unserialize_def bindp_eq_Inr Let_def ret_def lift_def throw_def split: sum.splits
        dest!: length_replicatep length_get_extra qc_unserialize_ok [OF assms(1)])
  have "block_printable lib kind b" using l q unat_lt32 [of np] unat_lt32 [of nc] by (simp add: b block_printable_def)
  moreover have "\<exists>bs. block_serialize lib b = Inr bs \<and> b = wire_block sha bs b"
    using h by (auto simp: b block_hash_def ebind_eq_Inr wire_block_def block_serialize_def)
  ultimately show ?thesis ..
qed

text \<open>(C21) Every block parsed from received bytes is well typed: it has a certificate of the configured kind that is
  well formed, as many keys and values as commands, and counts that fit the wire format; it can be printed again, its hash
  is the digest of the printed bytes, and every reader of these bytes gets the same block. So a replica can pass on and execute
  whatever it has received. The signature library is one whose parsed signatures print and parse again, as the compact form of
  ECDSA signatures does.\<close>

theorem parsed_block_typed:
  assumes "canonical_sigs lib" and "block_unserialize lib sha kind s = (Inr b, t)"
  shows "(case qc b of None \<Rightarrow> False | Some q \<Rightarrow> qc_ok lib kind q) \<and>
    length (keys b) = length (cmds b) \<and> length (vals b) = length (cmds b) \<and>
    (\<exists>bs. block_serialize lib b = Inr bs \<and> hash b = get_hash sha bs \<and> reads (block_unserialize lib sha kind) bs b)"
proof -
  have p: "block_printable lib kind b" using block_unserialize_typed [OF assms] by simp
  obtain bs where bs: "block_serialize lib b = Inr bs" "b = wire_block sha bs b" using block_unserialize_typed [OF assms] by auto
  have "hash b = get_hash sha bs" by (subst bs(2)) (simp add: wire_block_def)
  moreover obtain bs' where "block_serialize lib b = Inr bs'" "reads (block_unserialize lib sha kind) bs' (wire_block sha bs' b)"
    by (rule block_roundtrip_reads [OF p])
  ultimately show ?thesis using bs p by (auto simp: block_printable_def)
qed

theorem parsed_block_typed_witness:
  "\<exists>s b t. block_unserialize toy_lib toy_sha Dummy s = (Inr b, t) \<and> cmds b = [11] \<and> length (keys b) = 1 \<and>
    (\<exists>bs. block_serialize toy_lib b = Inr bs \<and> hash b = get_hash toy_sha bs)"
proof -
  obtain bs where "reads (block_unserialize toy_lib toy_sha Dummy) bs (wire_block toy_sha bs sample_block)"
    by (rule block_roundtrip_reads [OF sample_block_printable])
  from reads_written [OF this] obtain t where
    p: "block_unserialize toy_lib toy_sha Dummy (put_data bs ds_new) = (Inr (wire_block toy_sha bs sample_block), t)" by blast
  have "canonical_sigs toy_lib" by (auto simp: canonical_sigs_def toy_lib_def intro: toy_printable [unfolded toy_lib_def])
  from parsed_block_typed [OF this p] show ?thesis
    using p by (intro exI [of _ "put_data bs ds_new"] exI [of _ "wire_block toy_sha bs sample_block"] exI [of _ t] conjI)
      (auto simp: wire_block_def sample_block_def)
qed

end
