(* ===== verification/Replica_Safety.thy ===== *)
theory Replica_Safety
  imports Replica
begin

text \<open>
  Every handler of the replica and every call on its stack keeps the invariant of the protocol core and
  moves it forward, whatever bytes arrive; by rule induction the invariant holds in all reachable
  configurations.
\<close>

section \<open>Handlers\<close>

lemma quiet_mapp [quiet_intros]: "(\<And>x. quiet (f x)) \<Longrightarrow> quiet (mapp f xs)"
  by (induction xs) (simp_all add: quiet_intros)

lemma steady_mapp [steady_intros]: "(\<And>x. steady (f x)) \<Longrightarrow> steady (mapp f xs)"
  by (induction xs) (simp_all add: steady_intros)

lemma decide_after_mc_quiet [quiet_intros]: "quiet (decide_after_mc env cid)"
  unfolding decide_after_mc_def by (intro quiet_intros fatal_simps)

lemma mc_count_steady [steady_intros]: "steady (mc_count env cid pre)"
  unfolding mc_count_def
  by (intro steady_intros steady_modify quiet_steady [OF decide_after_mc_quiet]) simp_all

lemma receive_mc_local_steady [steady_intros]: "steady (receive_mc_local env prop)"
  unfolding receive_mc_local_def Let_def
  by (intro steady_intros steady_modify quiet_steady [OF update_other_f_plus_one_quiet]) simp_all

lemma propose_handler_steady [steady_intros]: "steady (propose_handler env peer prop)"
  unfolding propose_handler_def Let_def
  by (intro steady_intros quiet_steady [OF do_broadcast_proposal_quiet])

lemma own_name_keeps:
  assumes "core_inv s"
  shows "keeps s (s\<lparr>own_name := True\<rparr>)"
proof -
  have "hqc_height (s\<lparr>own_name := True\<rparr>) = hqc_height s" by (simp add: hqc_height_def split: option.split)
  moreover have "log_inv (s\<lparr>own_name := True\<rparr>)" using assms by (simp add: core_inv_def log_inv_def)
  ultimately show ?thesis using assms by (simp add: keeps_def core_inv_def core_le_def anc_refl)
qed

lemma proposal_delivered_steady [steady_intros]:
  assumes "core_host vt"
  shows "steady (proposal_delivered vt prop)"
proof (rule steady_keepsI)
  fix s :: base
  assume inv: "core_inv s"
  define u where "u = (if p_proposer prop = core_id s then s\<lparr>own_name := True\<rparr> else s)"
  have ku: "keeps s u" using own_name_keeps [OF inv] keeps_refl [OF inv] by (simp add: u_def)
  have "wp (on_receive_proposal vt prop) (\<lambda>_. keeps u) (\<lambda>e t. fatal e \<or> keeps u t) u"
    by (rule core_host.on_receive_proposal_keeps [OF assms keeps_inv [OF ku]]) (simp add: u_def lock_ready_def split: if_splits)
  then have "wp (on_receive_proposal vt prop) (\<lambda>_. keeps s) (\<lambda>e t. fatal e \<or> keeps s t) u"
    by (rule wp_mono) (use keeps_trans [OF ku] in \<open>auto simp: keeps_def [of u]\<close>)
  then show "wp (proposal_delivered vt prop) (\<lambda>_. keeps s) (\<lambda>e t. fatal e \<or> keeps s t) s"
    by (simp add: proposal_delivered_def wp_seqp wp_modify u_def)
qed

lemma delivered_steady [steady_intros]:
  assumes "core_host vt"
  shows "steady (vote_delivered vt v ok)" and "steady (LComplain_delivered vt c ok)"
    and "steady (RComplain_handler env vt peer c)" and "steady (remote_timeout vt cid k)"
  unfolding vote_delivered_def LComplain_delivered_def RComplain_handler_def remote_timeout_def
  by (intro steady_intros core_host.on_receive_vote_steady core_host.on_receive_LComplain_steady steady_modify
      core_host.on_receive_RComplain_steady core_host.start_local_complain_steady assms; simp)+

lemma base_deliver_blk_steady [steady_intros]:
  assumes "core_host vt"
  shows "steady (base_deliver_blk vt k)"
  unfolding base_deliver_blk_def
  by (intro steady_intros core_host.deliver_steady assms steady_modify) simp_all

section \<open>Reconfiguration and client commands\<close>

lemma multicast_recs_quiet [quiet_intros]: "quiet (multicast_recs r ty c)"
  unfolding multicast_recs_def by (intro quiet_intros)

lemma bump_quiet [quiet_intros]: "quiet (bump_echo c)" "quiet (bump_ready c)"
  unfolding bump_echo_def bump_ready_def by (rule quiet_modify, simp)+

lemma MsgRecs_handler_quiet [quiet_intros]: "quiet (MsgRecs_handler peer r)"
  unfolding MsgRecs_handler_def by (intro quiet_intros quiet_modify) simp_all

lemma refresh_peers_quiet [quiet_intros]: "quiet refresh_peers"
  unfolding refresh_peers_def update_config_parameters_def by (intro quiet_intros quiet_modify) simp_all

lemma apply_reconfig_quiet [quiet_intros]: "quiet (apply_reconfig r)"
  unfolding apply_reconfig_def by (intro quiet_intros quiet_modify) simp_all

lemma MsgRecsAggEchoReady_handler_quiet [quiet_intros]: "quiet (MsgRecsAggEchoReady_handler peer m)"
  unfolding MsgRecsAggEchoReady_handler_def Let_def by (intro quiet_intros)

lemma send_reconfig_ack_steady [steady_intros]: "steady (send_reconfig_ack fin r)"
  unfolding send_reconfig_ack_def
  by (intro steady_intros steady_modify quiet_steady [OF quiet_emit] quiet_steady [OF run_decision_waiting_quiet]) simp_all

lemma register_waiting_quiet [quiet_intros]: "quiet (register_waiting h cb)"
  unfolding register_waiting_def by (intro quiet_intros quiet_modify) simp_all

lemma cut_block_steady: "(\<And>bt. steady (propose bt)) \<Longrightarrow> steady (cut_block propose)"
  unfolding cut_block_def by (intro steady_intros beat_steady then_beat_steady steady_modify) simp_all

lemma cmd_pending_step_steady: "(\<And>bt. steady (propose bt)) \<Longrightarrow> steady (cmd_pending_step propose e cb)"
  unfolding cmd_pending_step_def
  by (intro steady_intros cut_block_steady steady_modify quiet_steady [OF register_waiting_quiet]
      quiet_steady [OF do_decide_read_only_quiet]) simp_all

lemma drain_cmds_steady: "(\<And>bt. steady (propose bt)) \<Longrightarrow> steady (drain_cmds propose es)"
proof (induction es)
  case (Cons e es)
  then show ?case by (simp only: drain_cmds.simps) (intro steady_intros cmd_pending_step_steady steady_modify, simp_all)
qed (simp add: steady_intros)

lemma cmd_pending_handler_steady: "(\<And>bt. steady (propose bt)) \<Longrightarrow> steady (cmd_pending_handler propose)"
  unfolding cmd_pending_handler_def by (intro steady_intros drain_cmds_steady)

section \<open>Parsing into the storage\<close>

text \<open>A reader that files blocks only files blocks as \<open>Block::unserialize\<close> builds them.\<close>

definition files_fresh :: "(data_stream \<times> entity_storage, 'a) prog \<Rightarrow> bool" where
  "files_fresh m \<longleftrightarrow> (\<forall>d st. \<exists>bs. (\<forall>b \<in> set bs. fresh_block b) \<and> snd (snd (m (d, st))) = fold (\<lambda>b st. snd (add_blk b st)) bs st)"

lemma files_fresh_bindp:
  assumes "files_fresh m" and "\<And>a. files_fresh (f a)"
  shows "files_fresh (bindp m f)"
  unfolding files_fresh_def
proof (intro allI)
  fix d st
  obtain r d' st' where m: "m (d, st) = (r, (d', st'))" by (metis prod_cases3)
  then obtain bs where bs: "\<forall>b \<in> set bs. fresh_block b" "st' = fold (\<lambda>b st. snd (add_blk b st)) bs st"
    using assms(1) unfolding files_fresh_def by (metis snd_conv)
  show "\<exists>bs. (\<forall>b \<in> set bs. fresh_block b) \<and> snd (snd (bindp m f (d, st))) = fold (\<lambda>b st. snd (add_blk b st)) bs st"
  proof (cases r)
    case (Inl e)
    then show ?thesis using m bs by (auto simp: bindp_def)
  next
    case (Inr a)
    obtain cs where "\<forall>b \<in> set cs. fresh_block b" "snd (snd (f a (d', st'))) = fold (\<lambda>b st. snd (add_blk b st)) cs st'"
      using assms(2) unfolding files_fresh_def by metis
    then show ?thesis using m bs Inr by (intro exI [of _ "bs @ cs"]) (auto simp: bindp_def)
  qed
qed

lemma files_fresh_basic: "files_fresh (ret a)" "files_fresh (throw e)" "files_fresh (on_stream n)"
  unfolding files_fresh_def
  by (auto simp: ret_def throw_def on_stream_def split: prod.split intro!: exI [of _ "[]"])

lemma files_fresh_replicatep: "files_fresh m \<Longrightarrow> files_fresh (replicatep n m)"
  by (induction n) (simp_all add: files_fresh_basic files_fresh_bindp)

lemma block_unserialize_fresh: "block_unserialize lib sha kind d = (Inr b, d') \<Longrightarrow> fresh_block b"
  by (auto simp: block_unserialize_def bindp_eq_Inr Let_def ret_def fresh_block_def empty_block_def)

lemma files_fresh_block:
  assumes "\<And>b. fresh_block b \<Longrightarrow> files_fresh (f b)"
  shows "files_fresh (bindp (on_stream (block_unserialize lib sha kind)) f)"
  unfolding files_fresh_def
proof (intro allI)
  fix d st
  obtain r d' where r: "block_unserialize lib sha kind d = (r, d')" by (metis surj_pair)
  show "\<exists>bs. (\<forall>b \<in> set bs. fresh_block b) \<and>
      snd (snd (bindp (on_stream (block_unserialize lib sha kind)) f (d, st))) = fold (\<lambda>b st. snd (add_blk b st)) bs st"
  proof (cases r)
    case (Inl e)
    then show ?thesis using r by (intro exI [of _ "[]"]) (simp add: bindp_def on_stream_def)
  next
    case (Inr b)
    then have "fresh_block b" using r block_unserialize_fresh by blast
    then show ?thesis using assms [of b] r Inr unfolding files_fresh_def by (simp add: bindp_def on_stream_def)
  qed
qed

lemma files_fresh_add:
  assumes "fresh_block b"
  shows "files_fresh (\<lambda>(d, st). case add_blk b st of (k, st') \<Rightarrow> (Inr (f k), (d, st')))"
  unfolding files_fresh_def
  by (intro allI exI [of _ "[b]"]) (use assms in \<open>simp add: add_blk_def\<close>)

lemma parsers_files_fresh:
  "files_fresh (proposal_unserialize lib sha kind)" "files_fresh (resp_block_parse lib sha kind)"
  unfolding proposal_unserialize_def resp_block_parse_def Let_def
  by (auto intro!: files_fresh_bindp files_fresh_block files_fresh_basic files_fresh_replicatep files_fresh_add
      split: prod.split)

lemma fold_add_keeps:
  assumes "\<forall>b \<in> set bs. fresh_block b" and "keeps s0 s"
  shows "keeps s0 (s\<lparr>storage := fold (\<lambda>b st. snd (add_blk b st)) bs (storage s)\<rparr>)"
  using assms
proof (induction bs arbitrary: s)
  case (Cons b bs)
  have "wp (core_add_blk b) (\<lambda>_. keeps s0) (\<lambda>e t. fatal e \<or> keeps s0 t) s"
    by (rule core_add_blk_steady [unfolded steady_def, rule_format]) (use Cons.prems in auto)
  then have "keeps s0 (s\<lparr>storage := snd (add_blk b (storage s))\<rparr>)"
    by (simp add: wp_def core_add_blk_def split_def Let_def)
  then show ?case using Cons.IH [of "s\<lparr>storage := snd (add_blk b (storage s))\<rparr>"] Cons.prems(1) by simp
qed simp

lemma parse_on_steady:
  assumes "files_fresh m"
  shows "steady (parse_on m bs)"
  unfolding steady_def
proof (intro allI impI)
  fix s0 s :: base
  assume k: "keeps s0 s"
  obtain r d st where m: "m (ds_of_bytes bs, storage s) = (r, (d, st))" by (metis prod_cases3)
  obtain xs where "\<forall>b \<in> set xs. fresh_block b" "st = fold (\<lambda>b st. snd (add_blk b st)) xs (storage s)"
    using assms m unfolding files_fresh_def by (metis snd_conv)
  then have "keeps s0 (s\<lparr>storage := st\<rparr>)" using fold_add_keeps [OF _ k] by simp
  then show "wp (parse_on m bs) (\<lambda>_. keeps s0) (\<lambda>e t. fatal e \<or> keeps s0 t) s"
    by (simp add: wp_def parse_on_def m split: sum.split)
qed

lemma parse_steady [steady_intros]:
  "steady (parse_only p bs)" "steady (parse_propose env bs)" "steady (parse_vote env bs)"
  "steady (parse_complain env bs)" "steady (parse_resp env bs)"
  unfolding parse_propose_def parse_vote_def parse_complain_def parse_resp_def parse_only_def
  by (intro steady_lift parse_on_steady parsers_files_fresh)+

section \<open>Fetching and delivery\<close>

lemma promises_quiet [quiet_intros]:
  "quiet (new_promise kd p)" "quiet (get_promise n)" "quiet (set_promise n kd p)"
  unfolding new_promise_def get_promise_def set_promise_def by (intro quiet_intros quiet_modify; simp)+

lemma quiet_blk_promise [quiet_intros]:
  "(\<And>ks. quiet (f ks)) \<Longrightarrow> (\<And>v. quiet (g v)) \<Longrightarrow> quiet m \<Longrightarrow>
   quiet (case p of BPending ks \<Rightarrow> f ks | BFulfilled v \<Rightarrow> g v | BRejected \<Rightarrow> m)"
  by (simp split: blk_promise.split)

lemma promise_ops_quiet [quiet_intros]:
  "quiet (then_promise n k)" "quiet (resolve_promise n v)" "quiet (reject_promise n)"
  unfolding then_promise_def resolve_promise_def reject_promise_def by (intro quiet_intros)+

lemma subscribe_quiet [quiet_intros]: "quiet (subscribe j i ns)"
  by (induction ns arbitrary: i) (simp_all add: quiet_intros)

lemma promise_all_steady [steady_intros]: "steady (promise_all ns a)"
  unfolding promise_all_def by (intro steady_intros steady_modify quiet_steady [OF subscribe_quiet]) simp_all

lemma slots_quiet [quiet_intros]: "quiet (fill_slot j i v)" "quiet (close_all j)"
  unfolding fill_slot_def close_all_def Let_def by (intro quiet_intros quiet_modify fatal_simps; simp)+

lemma fetch_quiet [quiet_intros]:
  "quiet (fetch_send h p)" "quiet (fetch_add_replica h p f)" "quiet (fetch_timeout h)" "quiet (async_fetch_blk h r f)"
  "quiet (on_fetch_blk k)"
  unfolding fetch_send_def fetch_add_replica_def fetch_timeout_def async_fetch_blk_def on_fetch_blk_def
  by (intro quiet_intros quiet_modify fatal_simps; simp)+

lemma answer_quiet [quiet_intros]: "quiet (answer now r)"
  unfolding answer_def by (intro quiet_intros quiet_modify) simp_all

lemma verify_blk_steady [steady_intros]: "steady (verify_blk env b)"
  unfolding verify_blk_def by (intro steady_intros quiet_steady [OF answer_quiet])

lemma steady_check [steady_intros]:
  "steady m \<Longrightarrow> (\<And>v. steady (f v)) \<Longrightarrow> (\<And>c. steady (g c)) \<Longrightarrow>
   steady (case x of NoCheck \<Rightarrow> m | CheckVote v \<Rightarrow> f v | CheckLComplain c \<Rightarrow> g c)"
  by (simp split: check.split)

lemma run_check_steady [steady_intros]: "steady (run_check env chk)"
  unfolding run_check_def by (intro steady_intros quiet_steady [OF answer_quiet])

lemma async_deliver_blk_quiet [quiet_intros]: "quiet (async_deliver_blk h p)"
  unfolding async_deliver_blk_def by (intro quiet_intros quiet_modify) simp_all

lemma on_fetched_steady [steady_intros]: "steady (on_fetched env peer k)"
  unfolding on_fetched_def by (intro steady_intros quiet_steady [OF answer_quiet] quiet_steady [OF fetch_quiet(4)])

lemma deliver_call_steady [steady_intros]: "core_host vt \<Longrightarrow> steady (deliver_call vt k)"
  unfolding deliver_call_def
  by (intro steady_intros quiet_steady [OF promise_ops_quiet(2)] quiet_steady [OF promise_ops_quiet(3)])

lemma value_at_steady [steady_intros]: "steady (value_at vs i f)"
  unfolding value_at_def by (intro steady_intros)

lemma run_awaited_steady [steady_intros]: "core_host vt \<Longrightarrow> steady (run_awaited vt a vs)"
  unfolding run_awaited_def
  by (cases a) (auto intro!: steady_intros quiet_steady [OF quiet_emit])

lemma work_step_steady: "core_host vt \<Longrightarrow> steady (work_step env vt w)"
  unfolding work_step_def
  by (auto split: work.split kont.split list.split
      intro!: steady_intros steady_modify quiet_steady [OF slots_quiet(1)] quiet_steady [OF slots_quiet(2)]
        quiet_steady [OF async_deliver_blk_quiet] quiet_steady [OF fetch_quiet(5)])

section \<open>Messages and events\<close>

lemma pool_answer_quiet [quiet_intros]: "quiet (pool_answer i)"
  unfolding pool_answer_def by (intro quiet_intros quiet_modify) simp_all

lemma recv_steady [steady_intros]:
  "steady (recv_propose env p bs)" "steady (recv_vote env p bs)" "steady (recv_LComplain env p bs)"
  "steady (recv_recs p bs)" "steady (recv_recs_msg p bs)" "steady (recv_req_blk p bs)" "steady (recv_resp_blk env bs)"
  "core_host vt \<Longrightarrow> steady (recv_RComplain env vt p bs)"
  unfolding recv_propose_def recv_vote_def recv_LComplain_def recv_recs_def recv_recs_msg_def recv_req_blk_def
    recv_resp_blk_def recv_RComplain_def
  by (intro steady_intros quiet_steady [OF MsgRecs_handler_quiet] quiet_steady [OF MsgRecsAggEchoReady_handler_quiet]
      quiet_steady [OF fetch_quiet(4)], assumption?)+

lemma handle_steady: "steady (handle env n ev)"
  unfolding handle_def Let_def
  by (cases ev) (auto intro!: steady_intros base_vt_host cmd_pending_handler_steady propose_beat_steady
      quiet_steady [OF fetch_quiet(3)] quiet_steady [OF pool_answer_quiet] steady_modify
      simp: exec_command_def remote_timer_def)

section \<open>Start-up\<close>

lemma core_extend_inv:
  "core_inv (core.extend c x) = core_inv c" "cache (core.extend c x) = cache c" "b0 (core.extend c x) = b0 c"
  "hqc (core.extend c x) = hqc c"
  by (simp_all add: core_inv_def log_inv_def cache_def core.defs)

text \<open>Before \<open>on_init\<close> the genesis block has no links.\<close>

definition uninit :: "base \<Rightarrow> base \<Rightarrow> bool" where
  "uninit s0 s \<longleftrightarrow> keeps s0 s \<and> hqc s = None \<and> (\<exists>g. cache s (b0 s) = Some g \<and> qc_ref g = None \<and> parent_hashes g = [])"

lemma uninit_view: "view s = view t \<Longrightarrow> uninit s0 s = uninit s0 t"
  using keeps_view [of s0 s t] keeps_view [of s0 t s] by (auto simp: uninit_def view_eq)

lemma add_replicas_uninit:
  assumes "uninit s0 s"
  shows "wp (add_replicas i rs) (\<lambda>_. uninit s0) (\<lambda>e _. fatal e) s"
  using assms
proof (induction rs arbitrary: i s)
  case Nil
  then show ?case by (simp add: wp_ret)
next
  case (Cons r rs)
  obtain g where g: "cache s (b0 s) = Some g" "qc_ref g = None" "parent_hashes g = []" and inv: "keeps s0 s" "hqc s = None"
    using Cons.prems by (auto simp: uninit_def)
  have v: "uninit s0 (set_cache ((cache s)(b0 s \<mapsto> g\<lparr>voted := insert x (voted g)\<rparr>)) s)" for x
    using core_step_field [OF keeps_inv [OF inv(1)] g(1) refl, where v = "insert x (voted g)" and sq = "self_qc g"
        and lc = "lcomplains g" and rc = "rcomplains g"] core_inv_blk [OF keeps_inv [OF inv(1)] g(1)] g inv(2) keeps_trans [OF inv(1)]
    by (auto simp: uninit_def blk_ok_def)
  have step: "wp (core_add_replica (of_nat i) (re_peer r) (re_pubkey r)) (\<lambda>_. uninit s0) (\<lambda>e _. fatal e) s"
    using g by (simp add: core_add_replica_def wp_simps)
      (rule uninit_view [THEN iffD1, OF _ v], simp add: view_eq cache_def set_cache_def)
  have peers: "wp (whenp (\<not> re_self r) (seqp (modify (\<lambda>s. s\<lparr>hs_peers := hs_peers s @ [re_peer r]\<rparr>))
      (modify (\<lambda>s. if re_peer r \<in> leave_set s then s else s\<lparr>hs_peers_current := hs_peers_current s @ [re_peer r]\<rparr>))))
      (\<lambda>_. uninit s0) (\<lambda>e _. fatal e) t" if t: "uninit s0 t" for t
  proof (rule wp_quiet [OF _ refl])
    show "quiet (whenp (\<not> re_self r) (seqp (modify (\<lambda>s :: base. s\<lparr>hs_peers := hs_peers s @ [re_peer r]\<rparr>))
        (modify (\<lambda>s. if re_peer r \<in> leave_set s then s else s\<lparr>hs_peers_current := hs_peers_current s @ [re_peer r]\<rparr>))))"
      by (intro quiet_intros quiet_modify) simp_all
    show "uninit s0 u" if "view u = view t" for u using uninit_view [OF that] t by simp
  qed
  show ?case
    unfolding add_replicas.simps wp_seqp [of "core_add_replica _ _ _"]
  proof (rule wp_mono [OF step])
    fix t assume t: "uninit s0 t"
    show "wp (seqp (whenp (\<not> re_self r) (seqp (modify (\<lambda>s. s\<lparr>hs_peers := hs_peers s @ [re_peer r]\<rparr>))
      (modify (\<lambda>s. if re_peer r \<in> leave_set s then s else s\<lparr>hs_peers_current := hs_peers_current s @ [re_peer r]\<rparr>))))
      (add_replicas (Suc i) rs)) (\<lambda>_. uninit s0) (\<lambda>e _. fatal e) t"
      unfolding wp_seqp [of "whenp _ _"] by (rule wp_mono [OF peers [OF t]]) (rule Cons.IH)
  qed
qed

lemma forp_quiet_uninit: "(\<And>x. quiet (f x)) \<Longrightarrow> uninit s0 s \<Longrightarrow> wp (forp xs f) (\<lambda>_. uninit s0) (\<lambda>e _. fatal e) s"
  by (rule wp_quiet [OF quiet_forp refl]) (auto dest: uninit_view)

lemma start_mc_inv:
  assumes "uninit s0 s"
  shows "wp (start_mc (base_vt env n) rs ars ors cm) (\<lambda>_ t. keeps s0 t \<and> hqc t \<noteq> None) (\<lambda>_ _. True) s"
proof -
  have node: "quiet (file_node i)" for i
    unfolding file_node_def by (rule quiet_modify) (simp add: split_def Let_def)
  have init: "wp (seqp (on_init (base_vt env n) nf) pm_init) (\<lambda>_ t. keeps s0 t \<and> hqc t \<noteq> None) (\<lambda>_ _. True) t"
    if t: "uninit s0 t" for t nf
  proof -
    obtain g where "cache t (b0 t) = Some g" "qc_ref g = None" "parent_hashes g = []" "core_inv t" "hqc t = None"
      using t by (auto simp: uninit_def keeps_def)
    then have "wp (on_init (base_vt env n) nf) (\<lambda>_ u. keeps t u \<and> hqc u \<noteq> None) (\<lambda>e u. fatal e \<or> keeps t u) t"
      by (intro bh.on_init_keeps)
    then show ?thesis
      unfolding wp_seqp
    proof (rule wp_mono)
      fix u assume u: "keeps t u \<and> hqc u \<noteq> None"
      have kt: "keeps s0 t" using t by (simp add: uninit_def)
      have "core_inv u \<and> core_le t u" using u by (simp add: keeps_def)
      then have ku: "keeps s0 u" by (rule keeps_trans [OF kt])
      have "keeps s0 v \<and> hqc v \<noteq> None" if v: "keeps u v" for v
      proof -
        have "core_inv v \<and> core_le u v" using v by (simp add: keeps_def)
        then show ?thesis using keeps_trans [OF ku] u by (simp add: core_le_def)
      qed
      then show "wp pm_init (\<lambda>_ t. keeps s0 t \<and> hqc t \<noteq> None) (\<lambda>_ _. True) u"
        by (intro wp_mono [OF pm_init_keeps [OF keeps_inv [OF ku]]])
    qed simp
  qed
  have rest: "wp (seqp (modify (\<lambda>s. s\<lparr>hs_other_peers := hs_other_peers s @ map re_peer (filter (\<lambda>r. \<not> re_self r) ors)\<rparr>))
     (seqp (modify (\<lambda>s. s\<lparr>hs_all_peers := hs_all_peers s @ map re_peer ars\<rparr>))
     (bindp (gets (\<lambda>s. length (hs_all_peers s))) (\<lambda>m. seqp (forp [0..<m] file_node)
     (bindp (gets (\<lambda>s. of_nat (length (hs_peers s) div 3))) (\<lambda>nfaulty. seqp (on_init (base_vt env n) nfaulty) pm_init))))))
     (\<lambda>_ t. keeps s0 t \<and> hqc t \<noteq> None) (\<lambda>_ _. True) t" if t: "uninit s0 t" for t
  proof -
    have u: "uninit s0 (t\<lparr>hs_other_peers := x, hs_all_peers := y\<rparr>)" for x y by (rule uninit_view [THEN iffD2, OF _ t]) simp
    show ?thesis
      unfolding wp_seqp [of "modify _"] wp_modify wp_bindp wp_gets wp_seqp [of "forp _ _"]
      by (rule wp_mono [OF forp_quiet_uninit [OF node]]) (use u init in \<open>simp_all add: wp_bindp wp_gets\<close>)
  qed
  have "uninit s0 (s\<lparr>cluster_map := cm\<rparr>)" by (rule uninit_view [THEN iffD2, OF _ assms]) simp
  then show ?thesis
    unfolding start_mc_def wp_seqp [of "modify _" "seqp (add_replicas _ _) _"] wp_modify wp_seqp [of "add_replicas _ _"]
    by (rule wp_mono [OF add_replicas_uninit]) (rule rest, simp_all)
qed

lemma started_inv:
  assumes "started env n a = Inr s"
  shows "core_inv s \<and> hqc s \<noteq> None \<and> (\<exists>gb. block_genesis (e_lib env) (e_sha env) True 1 = Inr gb \<and> b0 s = hash gb)"
proof -
  obtain s0 where s0: "base_new env (sa_blk_size a) (sa_rid a) (sa_cluster a) (sa_n_clusters a) (sa_priv_key a) (sa_proposer a) = Inr s0"
    and m: "start_mc (base_vt env n) (sa_replicas a) (sa_all_replicas a) (sa_other_replicas a) (sa_cluster_map a) s0 = (Inr (), s)"
    using assms unfolding started_def ebind_eq_Inr
    by (elim exE conjE) (simp split: prod.splits sum.splits)
  obtain c x where c: "core_new (e_lib env) (e_sha env) (sa_rid a) (sa_cluster a) (sa_priv_key a) = Inr c" "s0 = core.extend c x"
    using s0 by (auto simp: base_new_def ebind_eq_Inr)
  have "uninit s0 s0" using core_new_inv [OF c(1)] c(2) keeps_refl [of s0] by (simp add: uninit_def core_extend_inv)
  then have "wp (start_mc (base_vt env n) (sa_replicas a) (sa_all_replicas a) (sa_other_replicas a) (sa_cluster_map a))
      (\<lambda>_ t. keeps s0 t \<and> hqc t \<noteq> None) (\<lambda>_ _. True) s0" by (rule start_mc_inv)
  then have "keeps s0 s" "hqc s \<noteq> None" by (simp_all add: wp_def m)
  moreover obtain gb where "block_genesis (e_lib env) (e_sha env) True 1 = Inr gb" "b0 s0 = hash gb"
    using c by (auto simp: core_new_def ebind_eq_Inr core_extend_inv)
  ultimately show ?thesis by (auto simp: keeps_def core_le_def)
qed

section \<open>Reachable configurations\<close>

lemma steady_result:
  assumes "steady m" and "core_inv s" and "m s = (r, t)" and "\<And>e. r = Inl e \<Longrightarrow> \<not> fatal e"
  shows "core_inv t \<and> core_le s t"
proof -
  have "wp m (\<lambda>_. keeps s) (\<lambda>e t. fatal e \<or> keeps s t) s" using assms(1) keeps_refl [OF assms(2)] by (simp add: steady_def)
  then show ?thesis using assms(3,4) by (auto simp: wp_def keeps_def split: sum.splits)
qed

lemma rstep_keeps:
  assumes "rstep env n c d" and "core_inv (fst c)"
  shows "core_inv (fst d) \<and> core_le (fst c) (fst d)"
  using assms
proof cases
  case (rs_event ev s ws t)
  then show ?thesis using steady_result [OF handle_steady, of s env n ev "Inr ws" t] assms(2) by simp
next
  case (rs_event_fail ev s e t)
  then show ?thesis using steady_result [OF handle_steady, of s env n ev "Inl e" t] assms(2) by simp
next
  case (rs_work w s new t ws)
  then show ?thesis using steady_result [OF work_step_steady [OF base_vt_host], of s env env n w "Inr new" t] assms(2) by simp
next
  case (rs_work_fail w s e t ws)
  then show ?thesis using steady_result [OF work_step_steady [OF base_vt_host], of s env env n w "Inl e" t] assms(2) by simp
qed

lemma reach_inv: "reach env n a c \<Longrightarrow> core_inv (fst c) \<and> hqc (fst c) \<noteq> None \<and>
    (\<exists>gb. block_genesis (e_lib env) (e_sha env) True 1 = Inr gb \<and> b0 (fst c) = hash gb)"
proof (induction rule: reach.induct)
  case (reach_start s)
  then show ?case using started_inv by simp
next
  case (reach_step c d)
  then show ?case using rstep_keeps [of env n c d] by (auto simp: core_le_def)
qed

lemma rsteps_keeps:
  assumes "(rstep env n)\<^sup>*\<^sup>* c d" and "core_inv (fst c)"
  shows "core_inv (fst d) \<and> core_le (fst c) (fst d)"
  using assms
proof (induction rule: rtranclp_induct)
  case base
  then show ?case by (simp add: core_le_refl)
next
  case (step d e)
  then show ?case using rstep_keeps [of env n d e] core_le_trans [of "fst d" "fst c" "fst e"] by blast
qed

end
