(* ===== verification/Agreement.thy ===== *)
theory Agreement
  imports Replica_Safety
begin

text \<open>
  Agreement between replicas. From the logs of votes and the invariant of every correct replica it
  follows that the committed chains of two correct replicas do not fork. The argument is first made
  over an abstract tree of blocks and then instantiated with the caches of the replicas.
\<close>

section \<open>The argument over an abstract tree\<close>

text \<open>\<open>ord\<close> relates an ancestor to a block, \<open>ht\<close> is the height, \<open>J k j\<close> says that block \<open>k\<close> carries a certificate
  for \<open>j\<close>, and a log lists the voted blocks together with the locks.\<close>

lemma log_order:
  assumes "sorted_wrt (\<lambda>p q. ht (fst p) < ht (fst q) \<and> ht (snd p) \<le> ht (snd q)) vs"
    and "(u, l) \<in> set vs" and "(v, m) \<in> set vs"
  shows "ht u = ht v \<longrightarrow> u = v" and "ht u < ht v \<longrightarrow> ht l \<le> (ht m :: nat)"
proof -
  obtain i j where ij: "i < length vs" "vs ! i = (u, l)" "j < length vs" "vs ! j = (v, m)"
    using assms(2,3) by (auto simp: in_set_conv_nth)
  have lt: "ht (fst (vs ! a)) < ht (fst (vs ! b)) \<and> ht (snd (vs ! a)) \<le> ht (snd (vs ! b))" if "a < b" "b < length vs" for a b
    using assms(1) that by (auto simp: sorted_wrt_iff_nth_less)
  show "ht u = ht v \<longrightarrow> u = v" using lt [of i j] lt [of j i] ij by (cases i j rule: linorder_cases) auto
  show "ht u < ht v \<longrightarrow> ht l \<le> ht m" using lt [of i j] lt [of j i] ij by (cases i j rule: linorder_cases) auto
qed

lemma committed_extends:
  fixes ht :: "'b \<Rightarrow> nat"
  assumes refl: "ord e e" and trans: "\<And>a b c. ord a b \<Longrightarrow> ord b c \<Longrightarrow> ord a c"
    and root: "\<And>k j. J k j \<Longrightarrow> ord g j" and zero: "\<And>k j. J k j \<Longrightarrow> ht j = 0 \<Longrightarrow> j = g" and gz: "ht g = 0"
    and down: "\<And>k j i. J i k \<Longrightarrow> ord j k \<Longrightarrow> j \<noteq> k \<Longrightarrow> ht j < ht k"
    and up: "\<And>k j. J k j \<Longrightarrow> ord j k \<and> ht j < ht k"
    and meet: "\<And>i u j v. J i u \<Longrightarrow> J j v \<Longrightarrow> u \<noteq> g \<Longrightarrow> v \<noteq> g \<Longrightarrow>
      \<exists>r \<in> H. (\<exists>l. (u, l) \<in> set (votes r) \<and> l \<noteq> u) \<and> (\<exists>l. (v, l) \<in> set (votes r) \<and> l \<noteq> v)"
    and logs: "\<And>r. r \<in> H \<Longrightarrow> sorted_wrt (\<lambda>p q. ht (fst p) < ht (fst q) \<and> ht (snd p) \<le> ht (snd q)) (votes r)"
    and rule: "\<And>r k l. r \<in> H \<Longrightarrow> (k, l) \<in> set (votes r) \<Longrightarrow> (\<exists>j. J k j \<and> ht l < ht j) \<or> ord l k"
    and lock: "\<And>r k l j i. r \<in> H \<Longrightarrow> (k, l) \<in> set (votes r) \<Longrightarrow> J k j \<Longrightarrow> J j i \<Longrightarrow> ht i \<le> ht l"
    and lcert: "\<And>r k l. r \<in> H \<Longrightarrow> (k, l) \<in> set (votes r) \<Longrightarrow> l = g \<or> (\<exists>m. J m l)"
    and chain: "J n k2" "J k2 k1" "J k1 e" "ord e k1" "ord k1 k2" "ht k1 = Suc (ht e)" "ht k2 = Suc (Suc (ht e))"
    and w: "J m w" "ht e \<le> ht w"
  shows "ord e w"
  using w
proof (induction "ht w" arbitrary: w m rule: less_induct)
  case less
  show ?case
  proof (cases "e = g \<or> w = e")
    case True
    then show ?thesis using root less.prems refl by auto
  next
    case False
    have wg: "w \<noteq> g" using less.prems False zero [OF chain(3)] gz by auto
    have same: "w = v" if "J i v" "ht w = ht v" "v \<noteq> g" for i v
      using meet [OF less.prems(1) that(1) wg that(3)] log_order(1) [OF logs] that(2) by blast
    consider "ht w = ht e" | "ht w = ht k1" | "ht w = ht k2" | "ht k2 < ht w"
      using less.prems(2) chain(6,7) by linarith
    then show ?thesis
    proof cases
      case 1
      then show ?thesis using same [OF chain(3)] False by simp
    next
      case 2
      then show ?thesis using same [OF chain(2)] chain(4,6) gz by fastforce
    next
      case 3
      then show ?thesis using same [OF chain(1)] trans [OF chain(4,5)] chain(7) gz by fastforce
    next
      case 4
      have "k2 \<noteq> g" using chain(7) gz by auto
      then obtain r l2 lw where r: "r \<in> H" "(k2, l2) \<in> set (votes r)" "(w, lw) \<in> set (votes r)" "lw \<noteq> w"
        using meet [OF chain(1) less.prems(1) _ wg] by blast
      have "ht e \<le> ht l2" using lock [OF r(1,2) chain(2,3)] .
      then have elw: "ht e \<le> ht lw" using log_order(2) [OF logs [OF r(1)] r(2,3)] 4 by simp
      from rule [OF r(1,3)] show ?thesis
      proof
        assume "\<exists>j. J w j \<and> ht lw < ht j"
        then obtain j where j: "J w j" "ht lw < ht j" by blast
        then have "ord e j" using less.hyps [OF _ j(1)] up [OF j(1)] elw by simp
        then show ?thesis using up [OF j(1)] trans by blast
      next
        assume o: "ord lw w"
        then have lt: "ht lw < ht w" using down [OF less.prems(1)] r(4) by blast
        have "lw \<noteq> g" using elw False zero [OF chain(3)] gz by auto
        then obtain i where "J i lw" using lcert [OF r(1,3)] by blast
        then have "ord e lw" using less.hyps [OF lt] elw by blast
        then show ?thesis using o trans by blast
      qed
    qed
  qed
qed

section \<open>The caches of different replicas\<close>

text \<open>Two caches agree when a block hash determines the parents and the certificate.\<close>

definition caches_agree :: "(u256 \<rightharpoonup> block) \<Rightarrow> (u256 \<rightharpoonup> block) \<Rightarrow> u256 \<Rightarrow> bool" where
  "caches_agree c c' g \<longleftrightarrow> (\<forall>k b b'. c k = Some b \<longrightarrow> c' k = Some b' \<longrightarrow> k \<noteq> g \<longrightarrow>
     parent_hashes b = parent_hashes b' \<and> qc b = qc b')"

lemma anc_agree:
  assumes "anc c a k" and "cache_ok c g" and "cache_ok c' g" and "caches_agree c c' g"
    and "is_delivered c k" and "is_delivered c' k"
  shows "anc c' a k"
  using assms
proof induction
  case (anc_step k b p ps)
  have kg: "k \<noteq> g" using anc_step.hyps(1,2) anc_step.prems(1) by (auto simp: cache_ok_def blk_ok_def)
  obtain p1 ps1 where b: "parents b = p1 # ps1" "parent_hashes b = p1 # ps1" "is_delivered c p1"
    using delivered_linked [OF anc_step.prems(1,4) kg] anc_step.hyps(1) by (metis option.inject)
  obtain b' p2 ps2 where b': "c' k = Some b'" "parents b' = p2 # ps2" "parent_hashes b' = p2 # ps2" "is_delivered c' p2"
    by (rule delivered_linked [OF anc_step.prems(2,5) kg]) blast
  have "parent_hashes b = parent_hashes b'" using anc_step.prems(3) anc_step.hyps(1) b'(1) kg by (simp add: caches_agree_def)
  then have "p2 = p" using b b' anc_step.hyps(2) by simp
  then show ?case using anc_step b b' by (auto intro: anc.anc_step)
qed (simp add: anc_refl)

lemma hgt_agree:
  assumes "cache_ok c g" and "cache_ok c' g" and "caches_agree c c' g" and "nowrap c g"
    and "is_delivered c k" and "is_delivered c' k"
  shows "hgt c' k = hgt c k"
  using assms(5,6)
proof (induction "unat (hgt c k)" arbitrary: k rule: less_induct)
  case less
  show ?case
  proof (cases "k = g")
    case True
    then show ?thesis using assms(1,2) by (auto simp: cache_ok_def blk_ok_def hgt_def)
  next
    case False
    obtain b p ps where b: "c k = Some b" "parents b = p # ps" "parent_hashes b = p # ps" "is_delivered c p" "height b = hgt c p + 1"
      by (rule delivered_linked [OF assms(1) less.prems(1) False]) blast
    obtain b' p' ps' where b': "c' k = Some b'" "parent_hashes b' = p' # ps'" "is_delivered c' p'" "height b' = hgt c' p' + 1"
      by (rule delivered_linked [OF assms(2) less.prems(2) False]) blast
    have "p' = p" using assms(3) b b' False by (auto simp: caches_agree_def)
    moreover have "unat (hgt c p) < unat (hgt c k)"
      using parent_hgt [OF assms(1,4) less.prems(1) b(1,2)] by (simp add: word_less_nat_alt)
    ultimately have "hgt c' p' = hgt c p" using less.hyps b b' by simp
    then show ?thesis using b b' by (simp add: hgt_def)
  qed
qed

lemma qc_ref_agree:
  assumes "cache_ok c g" and "cache_ok c' g" and "caches_agree c c' g" and "k \<noteq> g"
    and "c k = Some b" "delivered b" "c' k = Some b'" "delivered b'"
  shows "qc_ref b' = qc_ref b"
  using cache_okD [OF assms(1,5)] cache_okD [OF assms(2,7)] assms(3-8)
  by (auto simp: blk_ok_def linked_def caches_agree_def)

lemma anc_root:
  assumes "cache_ok c g" and "nowrap c g" and "is_delivered c k"
  shows "anc c g k"
  using assms(3)
proof (induction "unat (hgt c k)" arbitrary: k rule: less_induct)
  case less
  show ?case
  proof (cases "k = g")
    case False
    obtain b p ps where b: "c k = Some b" "parents b = p # ps" "is_delivered c p"
      by (rule delivered_linked [OF assms(1) less.prems False]) blast
    then have "anc c g p"
      using parent_hgt [OF assms(1,2) less.prems b(1,2)] less.hyps by (simp add: word_less_nat_alt)
    then show ?thesis using b by (auto intro: anc_step)
  qed (simp add: anc_refl)
qed

section \<open>A family of correct replicas\<close>

text \<open>\<open>C\<close> gives the cache of each replica of \<open>H\<close>. Heights, ancestry and certificates are read from whichever
  replica has delivered the block.\<close>

definition family :: "'r set \<Rightarrow> ('r \<Rightarrow> u256 \<rightharpoonup> block) \<Rightarrow> u256 \<Rightarrow> bool" where
  "family H C g \<longleftrightarrow> (\<forall>x \<in> H. cache_ok (C x) g \<and> nowrap (C x) g) \<and> (\<forall>x \<in> H. \<forall>y \<in> H. caches_agree (C x) (C y) g)"

definition certifies :: "'r set \<Rightarrow> ('r \<Rightarrow> u256 \<rightharpoonup> block) \<Rightarrow> u256 \<Rightarrow> u256 \<Rightarrow> u256 \<Rightarrow> bool" where
  "certifies H C g k j \<longleftrightarrow> (\<exists>x \<in> H. \<exists>b. k \<noteq> g \<and> C x k = Some b \<and> delivered b \<and> qc_ref b = Some j)"

definition below :: "'r set \<Rightarrow> ('r \<Rightarrow> u256 \<rightharpoonup> block) \<Rightarrow> u256 \<Rightarrow> u256 \<Rightarrow> bool" where
  "below H C a k \<longleftrightarrow> (\<exists>x \<in> H. is_delivered (C x) k \<and> anc (C x) a k)"

definition level :: "'r set \<Rightarrow> ('r \<Rightarrow> u256 \<rightharpoonup> block) \<Rightarrow> u256 \<Rightarrow> nat" where
  "level H C k = (if \<exists>x \<in> H. is_delivered (C x) k then unat (hgt (C (SOME x. x \<in> H \<and> is_delivered (C x) k)) k) else 0)"

text \<open>Blocks extend the block their certificate is for.\<close>

definition extends_cert :: "'r set \<Rightarrow> ('r \<Rightarrow> u256 \<rightharpoonup> block) \<Rightarrow> u256 \<Rightarrow> bool" where
  "extends_cert H C g \<longleftrightarrow> (\<forall>x \<in> H. \<forall>k b j. k \<noteq> g \<longrightarrow> C x k = Some b \<longrightarrow> delivered b \<longrightarrow> qc_ref b = Some j \<longrightarrow>
     anc (C x) j k \<and> j \<noteq> k)"

lemma familyD:
  assumes "family H C g" and "x \<in> H"
  shows "cache_ok (C x) g" "nowrap (C x) g" "y \<in> H \<Longrightarrow> caches_agree (C x) (C y) g"
  using assms by (auto simp: family_def)

lemma level_eq:
  assumes f: "family H C g" and x: "x \<in> H" "is_delivered (C x) k"
  shows "level H C k = unat (hgt (C x) k)"
proof -
  define y where "y = (SOME x. x \<in> H \<and> is_delivered (C x) k)"
  have y: "y \<in> H \<and> is_delivered (C y) k"
    unfolding y_def by (rule someI [of _ x]) (simp add: x)
  have "hgt (C y) k = hgt (C x) k"
    using y x familyD [OF f] by (intro hgt_agree) auto
  then show ?thesis using x unfolding level_def y_def by auto
qed

lemma below_anc:
  assumes f: "family H C g" and "below H C a k" and "y \<in> H" "is_delivered (C y) k"
  shows "anc (C y) a k"
proof -
  obtain x where x: "x \<in> H" "is_delivered (C x) k" "anc (C x) a k" using assms(2) by (auto simp: below_def)
  show ?thesis by (rule anc_agree [OF x(3) familyD(1) [OF f x(1)] familyD(1) [OF f assms(3)] familyD(3) [OF f x(1) assms(3)] x(2) assms(4)])
qed

lemma below_trans:
  assumes f: "family H C g" and ab: "below H C a b" and bc: "below H C b c"
  shows "below H C a c"
proof -
  obtain x where x: "x \<in> H" "is_delivered (C x) c" "anc (C x) b c" using bc by (auto simp: below_def)
  have "is_delivered (C x) b" by (rule anc_delivered [OF x(3) familyD(1) [OF f x(1)] x(2)])
  then have "anc (C x) a b" by (rule below_anc [OF f ab x(1)])
  then show ?thesis using x anc_trans by (auto simp: below_def)
qed

lemma below_level:
  assumes f: "family H C g" and "below H C a k" and "a \<noteq> k"
  shows "level H C a < level H C k"
proof -
  obtain x where x: "x \<in> H" "is_delivered (C x) k" "anc (C x) a k" using assms(2) by (auto simp: below_def)
  then have "is_delivered (C x) a" using anc_delivered familyD(1) [OF f] by blast
  then show ?thesis
    using anc_hgt [OF x(3) familyD(1,2) [OF f x(1)] x(2)] assms(3) level_eq [OF f x(1)] x(2)
    by (simp add: word_less_nat_alt)
qed

lemma certifies_in:
  assumes f: "family H C g" and "certifies H C g k j" and y: "y \<in> H" "is_delivered (C y) k"
  obtains b where "C y k = Some b" "qc_ref b = Some j" "k \<noteq> g"
proof -
  obtain x b where x: "x \<in> H" "k \<noteq> g" "C x k = Some b" "delivered b" "qc_ref b = Some j"
    using assms(2) by (auto simp: certifies_def)
  obtain b' where b': "C y k = Some b'" "delivered b'" using y by (auto simp: is_delivered_def split: option.splits)
  have "qc_ref b' = qc_ref b"
    by (rule qc_ref_agree [OF familyD(1) [OF f x(1)] familyD(1) [OF f y(1)] familyD(3) [OF f x(1) y(1)] x(2-4) b'])
  then show ?thesis using that b' x by simp
qed

lemma certifies_below:
  assumes "extends_cert H C g" and "certifies H C g k j"
  shows "below H C j k" "j \<noteq> k"
proof -
  obtain x b where x: "x \<in> H" "k \<noteq> g" "C x k = Some b" "delivered b" "qc_ref b = Some j"
    using assms(2) by (auto simp: certifies_def)
  have "anc (C x) j k \<and> j \<noteq> k"
    by (rule assms(1) [unfolded extends_cert_def, rule_format, OF x])
  moreover have "is_delivered (C x) k" using x(3,4) by (simp add: is_delivered_def)
  ultimately show "below H C j k" "j \<noteq> k" using x(1) unfolding below_def by blast+
qed

lemma certifies_delivered:
  assumes f: "family H C g" and e: "extends_cert H C g" and c: "certifies H C g k j"
  obtains x where "x \<in> H" "is_delivered (C x) j"
proof -
  obtain x where x: "x \<in> H" "is_delivered (C x) k" "anc (C x) j k"
    using certifies_below [OF e c] by (auto simp: below_def)
  then show ?thesis using that anc_delivered familyD(1) [OF f] by blast
qed

lemma genesis_ref: "cache_ok c g \<Longrightarrow> c k = Some b \<Longrightarrow> qc_ref b = Some r \<Longrightarrow> k = g \<Longrightarrow> r = g"
  using cache_okD [of c g k b] by (simp add: blk_ok_def)

lemma certifiesI:
  assumes f: "family H C g" and x: "x \<in> H" "C x k = Some b" "qc_ref b = Some j" and "k \<noteq> g"
  shows "certifies H C g k j"
  using cache_okD [OF familyD(1) [OF f x(1)] x(2)] assms
  by (auto simp: certifies_def blk_ok_def split: if_splits)

text \<open>The three certificates behind a committed block.\<close>

lemma committed_chain:
  assumes f: "family H C g" and x: "x \<in> H" and w: "commit_wit (C x) e"
  obtains n k2 k1 where "certifies H C g n k2" "certifies H C g k2 k1" "certifies H C g k1 e"
    "below H C e k1" "below H C k1 k2" "level H C k1 = Suc (level H C e)" "level H C k2 = Suc (level H C k1)"
proof -
  obtain n nb k2 b2 k1 b1 ps qs where w: "C x n = Some nb" "qc_ref nb = Some k2" "C x k2 = Some b2"
    "qc_ref b2 = Some k1" "parents b2 = k1 # ps" "C x k1 = Some b1" "qc_ref b1 = Some e" "parents b1 = e # qs"
    using w unfolding commit_wit_def by blast
  note ok = familyD(1,2) [OF f x]
  have step: "k \<noteq> g \<and> is_delivered (C x) k \<and> below H C p k \<and> level H C k = Suc (level H C p)"
    if k: "C x k = Some b" "qc_ref b = Some r" "parents b = p # rs" for k b r p rs
  proof -
    have kg: "k \<noteq> g" and d: "is_delivered (C x) k"
      using cache_okD [OF ok(1) k(1)] k by (auto simp: blk_ok_def is_delivered_def split: if_splits)
    have p: "is_delivered (C x) p" "hgt (C x) k = hgt (C x) p + 1"
      using delivered_parent [OF ok(1) d k(1,3)] k(1) by (auto simp: hgt_def)
    have "hgt (C x) p < hgt (C x) k" by (rule parent_hgt [OF ok d k(1,3)])
    then have "unat (hgt (C x) k) = Suc (unat (hgt (C x) p))" using height_pred(1) [OF p(2)] by blast
    then show ?thesis
      using kg d x anc_step [of "C x" k b p rs p, OF k(1,3) anc_refl] level_eq [OF f x] p(1) by (auto simp: below_def)
  qed
  have "k2 \<noteq> g" using step [OF w(3-5)] by blast
  then have "n \<noteq> g" using genesis_ref [OF ok(1) w(1,2)] by blast
  then have "certifies H C g n k2" by (rule certifiesI [OF f x w(1,2)])
  moreover have "certifies H C g k2 k1" using step [OF w(3-5)] by (intro certifiesI [OF f x w(3,4)]) simp
  moreover have "certifies H C g k1 e" using step [OF w(6-8)] by (intro certifiesI [OF f x w(6,7)]) simp
  ultimately show ?thesis using that step [OF w(3-5)] step [OF w(6-8)] by simp
qed

section \<open>Agreement\<close>

text \<open>A certified block is the genesis block or was voted for by the correct members of a quorum, who were not
  locked on it yet when they voted.\<close>

definition quorum_voted :: "'r set \<Rightarrow> 'r set \<Rightarrow> ('r \<Rightarrow> (u256 \<times> u256) list) \<Rightarrow> u256 \<Rightarrow> bool" where
  "quorum_voted N H V k \<longleftrightarrow> (\<exists>Q \<subseteq> N. card N - (card N - 1) div 3 \<le> card Q \<and>
     (\<forall>r \<in> Q \<inter> H. \<exists>l. (k, l) \<in> set (V r) \<and> l \<noteq> k))"

lemma quorums_meet:
  assumes "finite N" and "F \<subseteq> N" and "card F \<le> (card N - 1) div 3" and "N \<noteq> {}"
    and "quorum_voted N (N - F) V u" and "quorum_voted N (N - F) V v"
  shows "\<exists>r \<in> N - F. (\<exists>l. (u, l) \<in> set (V r) \<and> l \<noteq> u) \<and> (\<exists>l. (v, l) \<in> set (V r) \<and> l \<noteq> v)"
proof -
  obtain A where A: "A \<subseteq> N" "card N - (card N - 1) div 3 \<le> card A"
      "\<forall>r \<in> A \<inter> (N - F). \<exists>l. (u, l) \<in> set (V r) \<and> l \<noteq> u"
    using assms(5) unfolding quorum_voted_def by blast
  obtain B where B: "B \<subseteq> N" "card N - (card N - 1) div 3 \<le> card B"
      "\<forall>r \<in> B \<inter> (N - F). \<exists>l. (v, l) \<in> set (V r) \<and> l \<noteq> v"
    using assms(6) unfolding quorum_voted_def by blast
  have "0 < card N" using assms(1,4) by (simp add: card_gt_0_iff)
  then have "card N + card F < card A + card B" using A(2) B(2) assms(3) by linarith
  then obtain r where "r \<in> A" "r \<in> B" "r \<notin> F" using card_inter_avoid [OF assms(1) A(1) B(1) assms(2)] by blast
  then show ?thesis using A(1,3) B(3) by blast
qed

text \<open>The log of a correct replica, read over the family.\<close>

definition log_ok :: "(u256 \<rightharpoonup> block) \<Rightarrow> u256 \<Rightarrow> (u256 \<times> u256) list \<Rightarrow> bool" where
  "log_ok c g vl \<longleftrightarrow>
     sorted_wrt (\<lambda>p q. hgt c (fst p) < hgt c (fst q) \<and> hgt c (snd p) \<le> hgt c (snd q)) vl \<and>
     (\<forall>(k, l) \<in> set vl. is_delivered c k \<and> is_delivered c l \<and> hgt c k \<noteq> 0 \<and> vote_rule c k l \<and> lock_cert c g l \<and> lock_rule c k l)"

lemma log_ok_core: "core_inv s \<Longrightarrow> nowrap (cache s) (b0 s) \<Longrightarrow> \<not> own_name s \<Longrightarrow> log_ok (cache s) (b0 s) (vote_log s)"
  unfolding log_ok_def core_inv_def log_inv_def votes_ok_def by fast

lemma log_level:
  assumes f: "family H C g" and r: "r \<in> H" and "log_ok (C r) g vl"
  shows "sorted_wrt (\<lambda>p q. level H C (fst p) < level H C (fst q) \<and> level H C (snd p) \<le> level H C (snd q)) vl"
proof (rule sorted_wrt_mono_rel)
  show "sorted_wrt (\<lambda>p q. hgt (C r) (fst p) < hgt (C r) (fst q) \<and> hgt (C r) (snd p) \<le> hgt (C r) (snd q)) vl"
    using assms(3) by (simp add: log_ok_def)
next
  fix p q assume pq: "p \<in> set vl" "q \<in> set vl"
    and lt: "hgt (C r) (fst p) < hgt (C r) (fst q) \<and> hgt (C r) (snd p) \<le> hgt (C r) (snd q)"
  have "is_delivered (C r) k \<and> is_delivered (C r) l" if "(k, l) \<in> set vl" for k l
    using assms(3) that unfolding log_ok_def by blast
  then have "is_delivered (C r) (fst x) \<and> is_delivered (C r) (snd x)" if "x \<in> set vl" for x
    using that by (metis prod.collapse)
  then show "level H C (fst p) < level H C (fst q) \<and> level H C (snd p) \<le> level H C (snd q)"
    using lt pq level_eq [OF f r] by (simp add: word_less_nat_alt word_le_nat_alt)
qed

lemma log_rule:
  assumes f: "family H C g" and e: "extends_cert H C g" and r: "r \<in> H" and l: "log_ok (C r) g vl" "(k, l) \<in> set vl"
  shows "(\<exists>j. certifies H C g k j \<and> level H C l < level H C j) \<or> below H C l k"
proof -
  have d: "is_delivered (C r) k" "is_delivered (C r) l" "hgt (C r) k \<noteq> 0" "vote_rule (C r) k l"
    using l unfolding log_ok_def by blast+
  have kg: "k \<noteq> g" using d(3) familyD(1) [OF f r] by (auto simp: cache_ok_def blk_ok_def hgt_def)
  show ?thesis
  proof (cases "anc (C r) l k")
    case True
    then show ?thesis using r d by (auto simp: below_def)
  next
    case False
    then obtain b j where b: "C r k = Some b" "qc_ref b = Some j" "hgt (C r) l < hgt (C r) j"
      using d(4) by (auto simp: vote_rule_def)
    have c: "certifies H C g k j" by (rule certifiesI [OF f r b(1,2) kg])
    have "anc (C r) j k" by (rule below_anc [OF f certifies_below(1) [OF e c] r d(1)])
    then have "is_delivered (C r) j" using anc_delivered [OF _ familyD(1) [OF f r] d(1)] by blast
    then show ?thesis using b(3) c level_eq [OF f r] d(2) by (auto simp: word_less_nat_alt)
  qed
qed

lemma log_lock:
  assumes f: "family H C g" and e: "extends_cert H C g" and r: "r \<in> H" and l: "log_ok (C r) g vl" "(k, l) \<in> set vl"
    and c: "certifies H C g k j" "certifies H C g j i"
  shows "level H C i \<le> level H C l"
proof -
  have d: "is_delivered (C r) k" "is_delivered (C r) l" "lock_rule (C r) k l"
    using l unfolding log_ok_def by blast+
  obtain b where b: "C r k = Some b" "qc_ref b = Some j" by (rule certifies_in [OF f c(1) r d(1)])
  have aj: "anc (C r) j k" by (rule below_anc [OF f certifies_below(1) [OF e c(1)] r d(1)])
  then have dj: "is_delivered (C r) j" using anc_delivered [OF _ familyD(1) [OF f r] d(1)] by blast
  obtain b2 where b2: "C r j = Some b2" "qc_ref b2 = Some i" by (rule certifies_in [OF f c(2) r dj])
  have ai: "anc (C r) i j" by (rule below_anc [OF f certifies_below(1) [OF e c(2)] r dj])
  then have di: "is_delivered (C r) i" using anc_delivered [OF _ familyD(1) [OF f r] dj] by blast
  have "hgt (C r) i \<le> hgt (C r) l"
    by (rule d(3) [unfolded lock_rule_def, rule_format, OF b aj b2 ai])
  then show ?thesis using level_eq [OF f r] d(2) di by (simp add: word_le_nat_alt)
qed

lemma log_cert:
  assumes f: "family H C g" and r: "r \<in> H" and l: "log_ok (C r) g vl" "(k, l) \<in> set vl"
  shows "l = g \<or> (\<exists>m. certifies H C g m l)"
proof -
  have "lock_cert (C r) g l" using l unfolding log_ok_def by blast
  then consider "l = g" | m b where "C r m = Some b" "qc_ref b = Some l" by (auto simp: lock_cert_def)
  then show ?thesis
  proof cases
    case 2
    then show ?thesis
      using certifiesI [OF f r 2] genesis_ref [OF familyD(1) [OF f r] 2] by blast
  qed simp
qed

text \<open>Two committed blocks lie on one branch.\<close>

lemma committed_chain_extends:
  assumes f: "family (N - F) C g" and e: "extends_cert (N - F) C g"
    and N: "finite N" "F \<subseteq> N" "card F \<le> (card N - 1) div 3"
    and logs: "\<And>r. r \<in> N - F \<Longrightarrow> log_ok (C r) g (V r)"
    and q: "\<And>k j. certifies (N - F) C g k j \<Longrightarrow> j \<noteq> g \<Longrightarrow> quorum_voted N (N - F) V j"
    and x: "x \<in> N - F" "commit_wit (C x) a" and y: "y \<in> N - F" "commit_wit (C y) b"
    and le: "level (N - F) C a \<le> level (N - F) C b"
  shows "below (N - F) C a b"
proof -
  let ?H = "N - F"
  let ?J = "certifies ?H C g" and ?o = "below ?H C" and ?h = "level ?H C"
  obtain n k2 k1 where ch: "?J n k2" "?J k2 k1" "?J k1 a" "?o a k1" "?o k1 k2" "?h k1 = Suc (?h a)" "?h k2 = Suc (?h k1)"
    by (rule committed_chain [OF f x])
  obtain m where m: "?J m b" by (rule committed_chain [OF f y])
  have gd: "?h g = 0" using level_eq [OF f x(1) delivered_genesis [OF familyD(1) [OF f x(1)]]] familyD(1) [OF f x(1)]
    by (auto simp: cache_ok_def blk_ok_def hgt_def)
  have J_delivered: "\<exists>z \<in> ?H. is_delivered (C z) j" if "?J k j" for k j
    by (rule certifies_delivered [OF f e that]) blast
  show ?thesis
  proof (rule committed_extends [where J = ?J and g = g and H = ?H and votes = V and n = n and ?k2.0 = k2 and ?k1.0 = k1 and m = m])
    show "?o a a" using J_delivered [OF ch(3)] by (auto simp: below_def intro: anc_refl)
    show "\<And>k j. ?J k j \<Longrightarrow> ?o g j"
      using J_delivered anc_root familyD(1,2) [OF f] unfolding below_def by meson
    show "\<And>k j. ?J k j \<Longrightarrow> ?h j = 0 \<Longrightarrow> j = g"
      using J_delivered level_eq [OF f] familyD(2) [OF f] unfolding nowrap_def by (metis unat_eq_zero)
    show "\<And>i u j v. ?J i u \<Longrightarrow> ?J j v \<Longrightarrow> u \<noteq> g \<Longrightarrow> v \<noteq> g \<Longrightarrow>
        \<exists>r \<in> ?H. (\<exists>l. (u, l) \<in> set (V r) \<and> l \<noteq> u) \<and> (\<exists>l. (v, l) \<in> set (V r) \<and> l \<noteq> v)"
      using quorums_meet [OF N] q x(1) by blast
    show "\<And>r. r \<in> ?H \<Longrightarrow> sorted_wrt (\<lambda>p q. ?h (fst p) < ?h (fst q) \<and> ?h (snd p) \<le> ?h (snd q)) (V r)"
      using log_level [OF f] logs by blast
    show "\<And>r k l. r \<in> ?H \<Longrightarrow> (k, l) \<in> set (V r) \<Longrightarrow> (\<exists>j. ?J k j \<and> ?h l < ?h j) \<or> ?o l k"
      using log_rule [OF f e] logs by blast
    show "\<And>r k l j i. r \<in> ?H \<Longrightarrow> (k, l) \<in> set (V r) \<Longrightarrow> ?J k j \<Longrightarrow> ?J j i \<Longrightarrow> ?h i \<le> ?h l"
      using log_lock [OF f e] logs by blast
    show "\<And>r k l. r \<in> ?H \<Longrightarrow> (k, l) \<in> set (V r) \<Longrightarrow> l = g \<or> (\<exists>m. ?J m l)"
      using log_cert [OF f] logs by blast
  qed (use ch m le gd below_trans [OF f] below_level [OF f] certifies_below [OF e] in \<open>auto\<close>)
qed

end
