(* ===== verification/Safety_Properties.thy ===== *)
theory Safety_Properties
  imports Agreement Scenario
begin

text \<open>
  The safety properties of a replica and of a cluster of replicas: the shape of the block tree in
  every reachable state, the rules of votes and locks, the committed chain, agreement.
\<close>

section \<open>Reachable states\<close>

lemma reach_core: "reach env n a (s, ws) \<Longrightarrow> core_inv s"
  using reach_inv [of env n a "(s, ws)"] by simp


lemma core_log:
  assumes "core_inv s"
  shows "votes_ok (cache s) (b0 s) (vheight s) (b_lock s) (vote_log s)" "lock_cert (cache s) (b0 s) (b_lock s)"
    "nowrap (cache s) (b0 s) \<Longrightarrow> hgt (cache s) (b_exec s) \<le> hgt (cache s) (b_lock s)"
    "nowrap (cache s) (b0 s) \<Longrightarrow> \<not> own_name s \<Longrightarrow> (k, l) \<in> set (vote_log s) \<Longrightarrow> lock_rule (cache s) k l"
    "b_exec s = b0 s \<or> commit_wit (cache s) (b_exec s)"
  using assms unfolding core_inv_def log_inv_def by blast+



text \<open>(C2) The block tree of a reachable replica: a delivered block other than the genesis block has its
  parents, at least one, all of them delivered, and stands one above its first parent; the blocks
  the protocol points to (lock, last executed block, highest certified block, tail) are delivered; and
  the decided blocks are exactly the ancestors of the last executed block.\<close>

theorem reachable_chain:
  assumes "reach env n a (s, ws)"
  shows "(\<forall>k b. cache s k = Some b \<and> delivered b \<and> k \<noteq> b0 s \<longrightarrow>
        parents b = parent_hashes b \<and> parents b \<noteq> [] \<and> (\<forall>p \<in> set (parents b). is_delivered (cache s) p) \<and>
        height b = hgt (cache s) (hd (parents b)) + 1) \<and>
      is_delivered (cache s) (b_lock s) \<and> is_delivered (cache s) (b_exec s) \<and> is_delivered (cache s) (hqc_tail s) \<and>
      (\<exists>k q. hqc s = Some (k, q) \<and> is_delivered (cache s) k \<and> qc_obj_hash q = k) \<and>
      (\<forall>k b. cache s k = Some b \<longrightarrow> hash b = k \<and> (decision b \<noteq> 0 \<longleftrightarrow> anc (cache s) k (b_exec s)))"
proof (intro conjI allI impI)
  have inv: "core_inv s" and h: "hqc s \<noteq> None" using reach_inv [OF assms] by auto
  show "is_delivered (cache s) (b_lock s)" "is_delivered (cache s) (b_exec s)" "is_delivered (cache s) (hqc_tail s)"
    "\<exists>k q. hqc s = Some (k, q) \<and> is_delivered (cache s) k \<and> qc_obj_hash q = k"
    using inv h by (auto simp: core_inv_def)
  fix k b assume "cache s k = Some b"
  note ok = core_inv_blk [OF inv this]
  show "hash b = k" "(decision b \<noteq> 0) = anc (cache s) k (b_exec s)"
    using ok inv \<open>cache s k = Some b\<close> by (auto simp: core_inv_def blk_ok_def)
next
  fix k b assume b: "cache s k = Some b \<and> delivered b \<and> k \<noteq> b0 s"
  then have "linked (cache s) b" using core_inv_blk [OF reach_core [OF assms], of k b] by (simp add: blk_ok_def)
  then show "parents b = parent_hashes b" "parents b \<noteq> []" "height b = hgt (cache s) (hd (parents b)) + 1"
    "\<forall>p \<in> set (parents b). is_delivered (cache s) p"
    by (auto simp: linked_def)
qed

theorem reachable_chain_witness: "is_delivered (cache toy0) (b_lock toy0) \<and> is_delivered (cache toy0) (b_exec toy0)"
  using reachable_chain [OF toy0_reach] by simp

text \<open>(C3) Nothing is taken back. From a reachable state, whatever events and messages follow: the last executed
  block stays an ancestor of the last executed block, the vote height and the heights of the lock and
  of the highest certified block do not drop, delivered blocks keep their parents and heights, and
  decided blocks stay decided.\<close>

theorem committed_stays:
  assumes "reach env n a (s, ws)" and "(rstep env n)\<^sup>*\<^sup>* (s, ws) (t, vs)"
  shows "anc (cache t) (b_exec s) (b_exec t) \<and> vheight s \<le> vheight t \<and>
      hgt (cache s) (b_lock s) \<le> hgt (cache t) (b_lock t) \<and> hqc_height s \<le> hqc_height t \<and>
      (\<forall>k b. cache s k = Some b \<longrightarrow> (\<exists>b'. cache t k = Some b' \<and> hash b' = hash b \<and> cmds b' = cmds b \<and>
        (delivered b \<longrightarrow> delivered b' \<and> parents b' = parents b \<and> height b' = height b) \<and> (decision b \<noteq> 0 \<longrightarrow> decision b' \<noteq> 0)))"
proof -
  have le: "core_le s t" using rsteps_keeps [OF assms(2)] reach_core [OF assms(1)] by (simp add: keeps_def)
  then have ext: "cache_ext (cache s) (cache t)" by (simp add: core_le_def)
  have "\<exists>b'. cache t k = Some b' \<and> hash b' = hash b \<and> cmds b' = cmds b \<and>
        (delivered b \<longrightarrow> delivered b' \<and> parents b' = parents b \<and> height b' = height b) \<and> (decision b \<noteq> 0 \<longrightarrow> decision b' \<noteq> 0)"
    if b: "cache s k = Some b" for k b
  proof -
    obtain b' where "cache t k = Some b'" "blk_ext b b'" by (rule cache_extD [OF ext b])
    then show ?thesis by (auto simp: blk_ext_def)
  qed
  then show ?thesis using le by (simp add: core_le_def)
qed

theorem committed_stays_witness: "anc (cache toy0) (b_exec toy0) (b_exec toy0)"
  using committed_stays [OF toy0_reach rtranclp.rtrancl_refl] by simp

text \<open>(C4) The votes of a replica: in strictly growing heights, and each for a block that carries a certificate
  for a block higher than the lock held then or that extends this lock. The lock is the genesis block or a
  certified block and never below the last executed block; the last executed block is the genesis block or
  the head of three certificates in a row on direct children.\<close>

theorem vote_and_lock_rules:
  assumes "reach env n a (s, ws)" and "nowrap (cache s) (b0 s)"
  shows "sorted_wrt (\<lambda>p q. hgt (cache s) (fst p) < hgt (cache s) (fst q)) (vote_log s) \<and>
      (\<forall>(k, l) \<in> set (vote_log s). hgt (cache s) k \<le> vheight s \<and> hgt (cache s) l \<le> hgt (cache s) (b_lock s) \<and>
        ((\<exists>b r. cache s k = Some b \<and> qc_ref b = Some r \<and> hgt (cache s) l < hgt (cache s) r) \<or> anc (cache s) l k)) \<and>
      (b_lock s = b0 s \<or> (\<exists>m b. cache s m = Some b \<and> qc_ref b = Some (b_lock s))) \<and>
      hgt (cache s) (b_exec s) \<le> hgt (cache s) (b_lock s) \<and> (b_exec s = b0 s \<or> commit_wit (cache s) (b_exec s))"
proof -
  note log = core_log [OF reach_core [OF assms(1)]]
  have "sorted_wrt (\<lambda>p q. hgt (cache s) (fst p) < hgt (cache s) (fst q)) (vote_log s)"
    using log(1) unfolding votes_ok_def by (auto elim: sorted_wrt_mono_rel [rotated])
  moreover have "\<forall>(k, l) \<in> set (vote_log s). hgt (cache s) k \<le> vheight s \<and> hgt (cache s) l \<le> hgt (cache s) (b_lock s) \<and>
        ((\<exists>b r. cache s k = Some b \<and> qc_ref b = Some r \<and> hgt (cache s) l < hgt (cache s) r) \<or> anc (cache s) l k)"
    using log(1) unfolding votes_ok_def vote_rule_def by fast
  ultimately show ?thesis using log(2,3,5) assms(2) by (simp add: lock_cert_def)
qed

theorem vote_and_lock_rules_witness: "hgt (cache toy0) (b_exec toy0) \<le> hgt (cache toy0) (b_lock toy0)"
proof -
  have "nowrap (cache toy0) (b0 toy0)"
    using toy0_fields(6) by (auto simp: nowrap_def is_delivered_def split: if_splits)
  then show ?thesis using vote_and_lock_rules [OF toy0_reach] by simp
qed

end
