(* ===== verification/Core_Properties.thy ===== *)
theory Core_Properties
  imports Safety_Properties
begin

text \<open>
  The operations of the protocol core, branch by branch: commit, voting rule, delivery, counting of
  votes, the ancestry check of the pace maker.
\<close>

section \<open>Commit\<close>

lemma path_above:
  assumes ok: "cache_ok c g" and nw: "nowrap c g" and d: "is_delivered c k" "is_delivered c e"
    and p: "path_to c k q x" "\<forall>y \<in> set q. hgt c e < hgt c y" "hgt c x \<le> hgt c e"
  shows "x = e \<longleftrightarrow> anc c e k" and "x = e \<Longrightarrow> set q = {j. anc c j k \<and> \<not> anc c j e}"
proof -
  have dx: "is_delivered c x" by (rule anc_delivered [OF path_anc [OF p(1)] ok d(1)])
  have "e \<notin> set q" using p(2) by auto
  then have "anc c e x" if "anc c e k" using anc_path [OF p(1)] that by blast
  then have "x = e" if "anc c e k" using that anc_hgt [OF _ ok nw dx, of e] p(3) by fastforce
  then show "x = e \<longleftrightarrow> anc c e k" using path_anc [OF p(1)] by blast
  show "set q = {j. anc c j k \<and> \<not> anc c j e}" if "x = e"
  proof -
    have "\<not> anc c j e" if "j \<in> set q" for j
      using anc_hgt [OF _ ok nw d(2), of j] p(2) that by (meson leD)
    then show ?thesis using anc_path [OF p(1)] \<open>x = e\<close> by blast
  qed
qed


lemma toy0_nowrap: "nowrap (cache toy0) (b0 toy0)"
  using toy0_fields(6) by (auto simp: nowrap_def is_delivered_def split: if_splits)

lemma toy0_delivered: "is_delivered (cache toy0) (b0 toy0)"
  using delivered_genesis reach_core [OF toy0_reach] by (auto simp: core_inv_def)


section \<open>The voting rule\<close>

text \<open>(C7) The opinion on a delivered block is computed without error: it is positive exactly when the block is
  higher than every block voted for and either carries a certificate for a block higher than the lock
  or extends the lock. A positive opinion records the vote, a negative one changes nothing.\<close>

theorem form_opinion_exact:
  assumes "reach env n a (s, ws)" and "nowrap (cache s) (b0 s)" and "cache s k = Some b" and "delivered b"
  shows "form_opinion k s =
    (if vheight s < height b \<and>
        ((\<exists>r. qc_ref b = Some r \<and> hgt (cache s) (b_lock s) < hgt (cache s) r) \<or> anc (cache s) (b_lock s) k)
     then (Inr True, s\<lparr>vheight := height b, vote_log := vote_log s @ [(k, b_lock s)]\<rparr>) else (Inr False, s))"
proof -
  have inv: "core_inv s" by (rule reach_core [OF assms(1)])
  then have ok: "cache_ok (cache s) (b0 s)" and dl: "is_delivered (cache s) (b_lock s)" by (simp_all add: core_inv_def)
  obtain lb where lb: "cache s (b_lock s) = Some lb" using dl by (auto simp: is_delivered_def split: option.splits)
  have hl: "hgt (cache s) (b_lock s) = height lb" by (simp add: hgt_def lb)
  have dk: "is_delivered (cache s) k" using assms(3,4) by (simp add: is_delivered_def)
  obtain x q where p: "path_to (cache s) k q x" "hgt (cache s) x \<le> height lb" "\<forall>y \<in> set q. height lb < hgt (cache s) y"
    and w: "\<And>Q E. wp (walk_from k (height lb)) Q E s = Q (x, q) s"
    by (rule walk_from_wp [OF inv dk, of "height lb"]) blast
  have x: "x = b_lock s \<longleftrightarrow> anc (cache s) (b_lock s) k"
    by (rule path_above [OF ok assms(2) dk dl p(1)]) (simp_all add: p hl)
  have ref: "\<exists>rb. cache s r = Some rb \<and> hgt (cache s) r = height rb" if "qc_ref b = Some r" for r
    using cache_okD [OF ok assms(3)] that by (auto simp: blk_ok_def hgt_def)
  let ?live = "\<exists>r. qc_ref b = Some r \<and> height lb < hgt (cache s) r"
  have above: "wp (qc_ref_above b (height lb)) Q E s = Q ?live s" for Q E
    using ref by (cases "qc_ref b") (auto simp: qc_ref_above_def wp_bindp wp_deref wp_ret)
  have "wp (form_opinion k) (\<lambda>v t. v = (vheight s < height b \<and> (?live \<or> anc (cache s) (b_lock s) k)) \<and>
      t = (if v then s\<lparr>vheight := height b, vote_log := vote_log s @ [(k, b_lock s)]\<rparr> else s)) (\<lambda>e t. False) s"
    by (simp add: form_opinion_def vote_for_def wp_bindp wp_gets wp_deref wp_if wp_ret wp_seqp wp_modify w x lb assms(3) above)
  then show ?thesis unfolding hl by (auto simp: wp_def split: prod.splits sum.splits)
qed

theorem form_opinion_exact_witness: "form_opinion (b0 toy0) toy0 = (Inr False, toy0)"
proof -
  obtain b where b: "cache toy0 (b0 toy0) = Some b" using toy0_fields(6) by auto
  then have "delivered b" "height b = 0"
    using core_inv_blk [OF reach_core [OF toy0_reach] b] by (simp_all add: blk_ok_def)
  then show ?thesis using form_opinion_exact [OF toy0_reach toy0_nowrap b] by (simp add: toy0_fields)
qed

section \<open>The ancestry check\<close>

text \<open>(C8) \<open>check_ancestry\<close> of the pace maker terminates on any two delivered blocks and decides ancestry.\<close>

theorem check_ancestry_decides:
  assumes "reach env n a (s, ws)" and "nowrap (cache s) (b0 s)" and "is_delivered (cache s) x" and "is_delivered (cache s) y"
  shows "check_ancestry x y s = (Inr (anc (cache s) x y), s)"
proof -
  have inv: "core_inv s" by (rule reach_core [OF assms(1)])
  then have ok: "cache_ok (cache s) (b0 s)" by (simp add: core_inv_def)
  obtain xb where xb: "cache s x = Some xb" using assms(3) by (auto simp: is_delivered_def split: option.splits)
  then have hx: "hgt (cache s) x = height xb" by (simp add: hgt_def)
  obtain z q where p: "path_to (cache s) y q z" "hgt (cache s) z \<le> height xb" "\<forall>j \<in> set q. height xb < hgt (cache s) j"
    and w: "\<And>Q E. wp (walk_from y (height xb)) Q E s = Q (z, q) s"
    by (rule walk_from_wp [OF inv assms(4), of "height xb"]) blast
  have "z = x \<longleftrightarrow> anc (cache s) x y"
    by (rule path_above [OF ok assms(2,4,3) p(1)]) (simp_all add: p hx)
  then have "wp (check_ancestry x y) (\<lambda>v t. v = anc (cache s) x y \<and> t = s) (\<lambda>e t. False) s"
    by (simp add: check_ancestry_def wp_bindp wp_deref xb w wp_ret)
  then show ?thesis by (auto simp: wp_def split: prod.splits sum.splits)
qed

theorem check_ancestry_decides_witness: "check_ancestry (b0 toy0) (b0 toy0) toy0 = (Inr True, toy0)"
  using check_ancestry_decides [OF toy0_reach toy0_nowrap toy0_delivered toy0_delivered] by (simp add: anc_refl)

section \<open>Delivery\<close>

lemma store_in_map_ok:
  assumes "cache s k = Some b"
  shows "wp (vt_store_in_map_for_mc (base_vt env m) k) (\<lambda>_ t. view t = view s) (\<lambda>_ _. False) s"
proof -
  have "vt_store_in_map_for_mc (base_vt env m) = store_in_map_for_mc" by (cases m) (simp_all add: mk_vt_def)
  then show ?thesis
    using assms by (simp add: store_in_map_for_mc_def wp_simps view_def cache_def add_cid_blkhash_def)
qed

text \<open>(C9) Delivery of an undelivered block, branch by branch. If all parents are delivered, there is one, and
  the certified block is in the cache, the block is delivered with its parents, one above the first
  of them, and its certificate resolved, and nothing else of the tree changes. If a parent is not delivered the
  exception ``block not delivered'' is raised and at most the parents field of the block is touched; if
  only the certified block is missing, the exception is ``block referred by qc not fetched''; a block with
  an empty list of parents runs into undefined behaviour.\<close>

theorem deliver_exact:
  assumes "cache s k = Some b" and "\<not> delivered b"
  shows "case on_deliver_blk (base_vt env m) k s of
      (Inr v, t) \<Rightarrow> v \<and> deliverable (cache s) b \<and>
        cache t = (cache s)(k \<mapsto> b\<lparr>parents := parent_hashes b, height := hgt (cache s) (hd (parent_hashes b)) + 1,
          qc_ref := (case qc b of None \<Rightarrow> qc_ref b | Some q \<Rightarrow> Some (qc_obj_hash q)), delivered := True\<rparr>)
    | (Inl e, t) \<Rightarrow>
        (if \<not> (\<forall>h \<in> set (parent_hashes b). is_delivered (cache s) h)
         then e = BlockNotDelivered \<and> (\<exists>ps. cache t = (cache s)(k \<mapsto> b\<lparr>parents := ps\<rparr>))
         else if parent_hashes b = [] then e = UndefinedBehaviour
         else e = QcBlockNotFetched \<and> (\<exists>q. qc b = Some q \<and> cache s (qc_obj_hash q) = None))"
proof -
  let ?all = "\<forall>h \<in> set (parent_hashes b). is_delivered (cache s) h"
  consider "\<not> ?all" | "parent_hashes b = []" | "deliverable (cache s) b"
    | p ps q where "?all" "parent_hashes b = p # ps" "qc b = Some q" "cache s (qc_obj_hash q) = None"
    unfolding deliverable_def by (metis list.exhaust not_None_eq)
  then show ?thesis
  proof cases
    case 1
    then show ?thesis using deliver_failure [OF assms 1, of "base_vt env m"] by (auto simp: wp_def split: prod.splits sum.splits)
  next
    case 2
    then have "wp (on_deliver_blk (base_vt env m) k) (\<lambda>_ _. False) (\<lambda>e _. e = UndefinedBehaviour) s"
      using assms by (simp add: on_deliver_blk_def wp_simps)
    then show ?thesis using 2 by (auto simp: wp_def split: prod.splits sum.splits)
  next
    case 3
    have "wp (vt_store_in_map_for_mc (base_vt env m) k) (\<lambda>_ u. view u = view t) (\<lambda>_ _. False) t" if "cache t k \<noteq> None" for t
      using store_in_map_ok that by blast
    from deliver_success [OF assms 3, of "base_vt env m" "\<lambda>_. False", OF this]
    show ?thesis using 3 by (auto simp: wp_def delivered_blk_def view_eq split: prod.splits sum.splits)
  next
    case 4
    then show ?thesis using deliver_no_qc [OF assms 4, of "base_vt env m"] by (auto simp: wp_def split: prod.splits sum.splits)
  qed
qed

definition toy_child :: base where
  "toy_child = set_cache ((cache toy0)(b0 toy0 + 1 \<mapsto> empty_block\<lparr>parent_hashes := [b0 toy0]\<rparr>)) toy0"

theorem deliver_exact_witness:
  "\<exists>t b. on_deliver_blk (base_vt toy_env 1) (b0 toy0 + 1) toy_child = (Inr True, t) \<and>
     cache t (b0 toy0 + 1) = Some b \<and> delivered b \<and> height b = 1"
proof -
  have ne: "b0 toy0 \<noteq> b0 toy0 + 1" by simp
  obtain g where g: "cache toy0 (b0 toy0) = Some g" "delivered g" "height g = 0"
    using toy0_delivered core_inv_blk [OF reach_core [OF toy0_reach]]
    by (auto simp: is_delivered_def blk_ok_def split: option.splits)
  have "cache toy_child (b0 toy0 + 1) = Some (empty_block\<lparr>parent_hashes := [b0 toy0]\<rparr>)" "cache toy_child (b0 toy0) = Some g"
    using g ne by (simp_all add: toy_child_def)
  then show ?thesis
    using deliver_exact [of toy_child "b0 toy0 + 1" "empty_block\<lparr>parent_hashes := [b0 toy0]\<rparr>" toy_env 1] g
    by (auto simp: empty_block_def is_delivered_def hgt_def split: prod.splits sum.splits)
qed

section \<open>Counting votes\<close>



end
