(* ===== verification/Inter_Cluster.thy ===== *)
theory Inter_Cluster
  imports Core_Properties
begin

text \<open>
  Messages of other clusters: the tracker of every height counts the messages of every cluster, and a height
  is finished when all clusters have been heard.
\<close>

section \<open>What the loops over the tracker compute\<close>

lemma all_nonzero_eq:
  "\<forall>i \<in> set is. i < length a \<Longrightarrow> all_nonzero a is = Inr (\<forall>i \<in> set is. a ! i \<noteq> 0)"
  by (induction "is") (simp_all add: vec_get_def)

definition heard :: "proposal list \<Rightarrow> int \<Rightarrow> nat set" where
  "heard ps cid =
     (\<lambda>p. unat (p_pre_amp_cluster_number p)) ` set (filter (\<lambda>p. cid_of_height (p_other_cluster_block_height p) = cid) ps)"

definition all_heard :: "nat \<Rightarrow> nat \<Rightarrow> proposal list \<Rightarrow> int \<Rightarrow> bool" where
  "all_heard n own ps cid \<longleftrightarrow> heard ps cid \<noteq> {} \<and> {..<n} \<subseteq> insert own (heard ps cid)"

definition times_heard :: "proposal list \<Rightarrow> int \<Rightarrow> nat \<Rightarrow> nat" where
  "times_heard ps cid i =
     length (filter (\<lambda>p. cid_of_height (p_other_cluster_block_height p) = cid \<and> unat (p_pre_amp_cluster_number p) = i) ps)"

definition tracker_for :: "nat \<Rightarrow> nat \<Rightarrow> proposal list \<Rightarrow> int \<Rightarrow> i32 list" where
  "tracker_for n own ps cid = map (\<lambda>i. of_nat (times_heard ps cid i + (if i = own then 1 else 0))) [0..<n]"

lemma times_heard_pos: "0 < times_heard ps cid i \<longleftrightarrow> i \<in> heard ps cid"
  by (auto simp: times_heard_def heard_def filter_empty_conv)

lemma times_heard_le: "times_heard ps cid i \<le> length ps"
  by (simp add: times_heard_def)

lemma heard_snoc:
  "heard (ps @ [p]) cid = (if cid_of_height (p_other_cluster_block_height p) = cid
     then insert (unat (p_pre_amp_cluster_number p)) (heard ps cid) else heard ps cid)"
  by (auto simp: heard_def)

lemma times_heard_snoc:
  "times_heard (ps @ [p]) cid i = times_heard ps cid i +
     (if cid_of_height (p_other_cluster_block_height p) = cid \<and> unat (p_pre_amp_cluster_number p) = i then 1 else 0)"
  by (simp add: times_heard_def)

lemma tracker_length [simp]: "length (tracker_for n own ps cid) = n"
  by (simp add: tracker_for_def)

lemma tracker_fresh:
  assumes "heard ps cid = {}" and "own < n"
  shows "tracker_for n own ps cid = (replicate n 0)[own := 1]"
proof -
  have "times_heard ps cid i = 0" for i using times_heard_pos [of ps cid i] assms(1) by simp
  then show ?thesis using assms(2) by (intro nth_equalityI) (auto simp: tracker_for_def nth_list_update)
qed

lemma tracker_snoc:
  assumes "cid_of_height (p_other_cluster_block_height p) = cid" and "unat (p_pre_amp_cluster_number p) = i" and "i < n"
  shows "tracker_for n own (ps @ [p]) cid = (tracker_for n own ps cid)[i := tracker_for n own ps cid ! i + 1]"
  using assms by (intro nth_equalityI) (auto simp: tracker_for_def times_heard_snoc nth_list_update)

lemma tracker_other:
  "cid_of_height (p_other_cluster_block_height p) \<noteq> cid \<Longrightarrow> tracker_for n own (ps @ [p]) cid = tracker_for n own ps cid"
  by (simp add: tracker_for_def times_heard_snoc)

lemma tracker_nonzero:
  assumes "length ps + 1 < 2 ^ 32" and "i < n"
  shows "tracker_for n own ps cid ! i \<noteq> 0 \<longleftrightarrow> i = own \<or> i \<in> heard ps cid"
proof -
  let ?k = "times_heard ps cid i + (if i = own then 1 else 0)"
  have "unat (of_nat ?k :: i32) = ?k" using times_heard_le [of ps cid i] assms(1) by (intro unat_of_nat32) auto
  moreover have "(of_nat ?k :: i32) = 0 \<longleftrightarrow> unat (of_nat ?k :: i32) = 0" by (rule unat_eq_0 [symmetric])
  ultimately have "(of_nat ?k :: i32) \<noteq> 0 \<longleftrightarrow> 0 < ?k" by (simp only: neq0_conv)
  then show ?thesis using assms(2) times_heard_pos [of ps cid i] by (auto simp: tracker_for_def)
qed

section \<open>The invariant over the messages received\<close>

definition mc_height :: "nat \<Rightarrow> nat \<Rightarrow> proposal list \<Rightarrow> base \<Rightarrow> int \<Rightarrow> bool" where
  "mc_height n own ps s cid \<longleftrightarrow> (cid \<in> finished_mc_cids s \<longleftrightarrow> all_heard n own ps cid) \<and>
     (all_heard n own ps cid \<or> cid_to_cluster_tracker_array s cid =
        (if heard ps cid = {} then None else Some (tracker_for n own ps cid)))"

definition mc_inv :: "nat \<Rightarrow> nat \<Rightarrow> proposal list \<Rightarrow> base \<Rightarrow> bool" where
  "mc_inv n own ps s \<longleftrightarrow> sint (n_clusters s) = int n \<and> sint (core_cluster_id s) = int own \<and> (\<forall>cid. mc_height n own ps s cid)"

lemma mc_height_other:
  assumes "cid_of_height (p_other_cluster_block_height p) \<noteq> c" and "mc_height n own ps s c"
    and "c \<in> finished_mc_cids t \<longleftrightarrow> c \<in> finished_mc_cids s"
    and "cid_to_cluster_tracker_array t c = cid_to_cluster_tracker_array s c"
  shows "mc_height n own (ps @ [p]) t c"
  using assms by (auto simp: mc_height_def all_heard_def heard_snoc tracker_other split: if_splits)

definition mc_view :: "base \<Rightarrow> i32 \<times> i32 \<times> entity_storage \<times> int set \<times> (int \<rightharpoonup> i32 list)" where
  "mc_view s = (n_clusters s, core_cluster_id s, storage s, finished_mc_cids s, cid_to_cluster_tracker_array s)"

lemma mc_inv_view: "mc_view t = mc_view s \<Longrightarrow> mc_inv n own ps t = mc_inv n own ps s"
  by (simp add: mc_view_def mc_inv_def mc_height_def)

lemma do_decide_view: "wp (do_decide fin k v) (\<lambda>_ t. mc_view t = mc_view s) (\<lambda>_ t. mc_view t = mc_view s) s"
  by (simp add: do_decide_def run_decision_waiting_def emit_def wp_simps mc_view_def split: option.split)

lemma decide_after_mc_view:
  "wp (decide_after_mc env cid) (\<lambda>_ t. mc_view t = mc_view s) (\<lambda>_ t. mc_view t = mc_view s) s"
proof -
  have d: "wp (do_decide fin k v) (\<lambda>_ t. mc_view t = mc_view s) (\<lambda>_ t. mc_view t = mc_view s) u" if "mc_view u = mc_view s" for fin k v u
    using do_decide_view [of fin k v u] that by simp
  show ?thesis
    unfolding decide_after_mc_def did_update_def reset_remote_view_change_timer_def
    by (auto simp: wp_simps split: option.split
        intro!: wp_forp [where I = "\<lambda>t. mc_view t = mc_view s"] d) (simp add: mc_view_def)
qed

text \<open>One message: the tracker after counting it, and the invariant for the longer list of messages.\<close>

lemma new_tracker_eq:
  assumes "mc_inv n own ps s" and "\<not> all_heard n own ps cid" and "junk_x env = 0" and "own < n"
    and "cid_of_height (p_other_cluster_block_height p) = cid" and "unat (p_pre_amp_cluster_number p) < n"
  shows "new_tracker env cid (p_pre_amp_cluster_number p) s = Inr (tracker_for n own (ps @ [p]) cid)"
proof -
  have h: "mc_height n own ps s cid" using assms(1) by (simp add: mc_inv_def)
  have "(case cid_to_cluster_tracker_array s cid of None \<Rightarrow> fresh_tracker env (n_clusters s) (core_cluster_id s) | Some a \<Rightarrow> Inr a) =
      Inr (tracker_for n own ps cid)"
  proof (cases "heard ps cid = {}")
    case True
    then have "cid_to_cluster_tracker_array s cid = None" using h assms(2) by (simp add: mc_height_def)
    then show ?thesis using True assms(1,3,4) by (simp add: mc_inv_def fresh_tracker_def vec_set_def tracker_fresh)
  next
    case False
    then have "cid_to_cluster_tracker_array s cid = Some (tracker_for n own ps cid)" using h assms(2) by (simp add: mc_height_def)
    then show ?thesis by simp
  qed
  moreover obtain i where i: "uint (p_pre_amp_cluster_number p) = int i" "unat (p_pre_amp_cluster_number p) = i"
    by (metis uint_nat)
  ultimately show ?thesis
    using assms(6) tracker_snoc [OF assms(5) i(2), of n own ps] by (simp add: new_tracker_def vec_get_def vec_set_def i)
qed

lemma mc_count_step:
  assumes inv: "mc_inv n own ps s" and nd: "\<not> all_heard n own ps cid" and "junk_x env = 0" and own: "own < n"
    and cid: "cid_of_height (p_other_cluster_block_height p) = cid" and pre: "unat (p_pre_amp_cluster_number p) < n"
    and len: "length ps + 2 < 2 ^ 32"
  shows "wp (mc_count env cid (p_pre_amp_cluster_number p)) (\<lambda>_ t. mc_inv n own (ps @ [p]) t \<and> storage t = storage s)
    (\<lambda>_ t. mc_inv n own (ps @ [p]) t \<and> storage t = storage s) s"
proof -
  let ?a = "tracker_for n own (ps @ [p]) cid"
  have nt: "new_tracker env cid (p_pre_amp_cluster_number p) s = Inr ?a"
    by (rule new_tracker_eq [OF assms(1-6)])
  have ne: "heard (ps @ [p]) cid \<noteq> {}" using cid by (simp add: heard_snoc)
  have full: "all_nonzero ?a [0..<nat (sint (n_clusters s))] = Inr (all_heard n own (ps @ [p]) cid)"
    using inv len ne tracker_nonzero [of "ps @ [p]" _ n own cid]
    by (subst all_nonzero_eq) (auto simp: mc_inv_def all_heard_def)
  have upd: "mc_inv n own (ps @ [p]) u"
    if "n_clusters u = n_clusters s" "core_cluster_id u = core_cluster_id s" "mc_height n own (ps @ [p]) u cid"
      "finished_mc_cids u - {cid} = finished_mc_cids s - {cid}"
      "\<And>c. c \<noteq> cid \<Longrightarrow> cid_to_cluster_tracker_array u c = cid_to_cluster_tracker_array s c" for u
  proof -
    have "mc_height n own (ps @ [p]) u c" for c
    proof (cases "c = cid")
      case False
      then show ?thesis using that(4,5) inv cid by (intro mc_height_other [of p c n own ps s]) (auto simp: mc_inv_def)
    qed (simp add: that(3))
    then show ?thesis using inv that(1,2) by (simp add: mc_inv_def)
  qed
  show ?thesis
  proof (cases "all_heard n own (ps @ [p]) cid")
    case False
    have "cid \<notin> finished_mc_cids s" using inv nd by (simp add: mc_inv_def mc_height_def)
    then have "mc_inv n own (ps @ [p]) (s\<lparr>cluster_tracker_array := ?a, cid_to_cluster_tracker_array := (cid_to_cluster_tracker_array s)(cid \<mapsto> ?a)\<rparr>)"
      using False ne by (intro upd) (simp_all add: mc_height_def)
    then show ?thesis using nt full False by (simp add: mc_count_def wp_simps)
  next
    case True
    let ?t = "s\<lparr>cluster_msg_count := cluster_msg_count s + 1, finished_mc_cids := insert cid (finished_mc_cids s)\<rparr>"
    have t: "mc_inv n own (ps @ [p]) u" if "mc_view u = mc_view ?t" for u
      using that True by (intro upd) (simp_all add: mc_height_def mc_view_def)
    have t': "mc_inv n own (ps @ [p]) (u\<lparr>cluster_tracker_array := b, cid_to_cluster_tracker_array := (cid_to_cluster_tracker_array u)(cid \<mapsto> b)\<rparr>)"
      if "mc_view u = mc_view ?t" for u b
      using that True by (intro upd) (simp_all add: mc_height_def mc_view_def)
    let ?Q = "\<lambda>u. mc_inv n own (ps @ [p]) u \<and> storage u = storage s"
    have "wp (decide_after_mc env cid) (\<lambda>_. wp (lift (reset_tracker (n_clusters s) (core_cluster_id s) ?a))
        (\<lambda>b. wp (seqp (modify (\<lambda>s. s\<lparr>cluster_tracker_array := b\<rparr>))
           (modify (\<lambda>s. s\<lparr>cid_to_cluster_tracker_array := (cid_to_cluster_tracker_array s)(cid \<mapsto> b)\<rparr>))) (\<lambda>_. ?Q) (\<lambda>_. ?Q))
        (\<lambda>_. ?Q)) (\<lambda>_. ?Q) ?t"
    proof (rule wp_mono [OF decide_after_mc_view])
      fix u assume u: "mc_view u = mc_view ?t"
      then have st: "storage u = storage s" by (simp add: mc_view_def)
      then show "?Q u" using t [OF u] by simp
      show "wp (lift (reset_tracker (n_clusters s) (core_cluster_id s) ?a))
        (\<lambda>b. wp (seqp (modify (\<lambda>s. s\<lparr>cluster_tracker_array := b\<rparr>))
           (modify (\<lambda>s. s\<lparr>cid_to_cluster_tracker_array := (cid_to_cluster_tracker_array s)(cid \<mapsto> b)\<rparr>))) (\<lambda>_. ?Q) (\<lambda>_. ?Q))
        (\<lambda>_. ?Q) u"
        using t [OF u] t' [OF u] st by (simp add: wp_simps split: sum.split)
    qed
    then show ?thesis using nt full True by (simp add: mc_count_def wp_simps)
  qed
qed

lemma receive_mc_step:
  assumes inv: "mc_inv n own ps s" and "junk_x env = 0" and "own < n"
    and pre: "unat (p_pre_amp_cluster_number p) < n" and k: "p_blk p = Some k" "cache s k \<noteq> None"
    and "length ps + 2 < 2 ^ 32"
  shows "mc_inv n own (ps @ [p]) (snd (receive_mc_local env p s)) \<and> cache (snd (receive_mc_local env p s)) = cache s"
proof -
  let ?cid = "cid_of_height (p_other_cluster_block_height p)"
  let ?Q = "\<lambda>t. mc_inv n own (ps @ [p]) t \<and> storage t = storage s"
  have main: "wp (bindp (gets (\<lambda>s. ?cid \<in> finished_mc_cids s)) (\<lambda>fin. whenp (\<not> fin) (mc_count env ?cid (p_pre_amp_cluster_number p))))
      (\<lambda>_. ?Q) (\<lambda>_. ?Q) u" if u: "mc_view u = mc_view s" for u
  proof (cases "all_heard n own ps ?cid")
    case True
    then have "mc_height n own (ps @ [p]) u ?cid" using inv u
      by (auto simp: mc_inv_def mc_height_def mc_view_def all_heard_def heard_snoc)
    moreover have "mc_height n own (ps @ [p]) u c" if "c \<noteq> ?cid" for c
      using inv u that by (intro mc_height_other [of p c n own ps s]) (auto simp: mc_inv_def mc_view_def)
    ultimately have "mc_height n own (ps @ [p]) u c" for c by (cases "c = ?cid") simp_all
    then have "mc_inv n own (ps @ [p]) u" using inv u by (simp add: mc_inv_def mc_view_def)
    moreover have "?cid \<in> finished_mc_cids u" using True inv u by (simp add: mc_inv_def mc_height_def mc_view_def)
    ultimately show ?thesis using u by (simp add: wp_simps mc_view_def)
  next
    case False
    then have "?cid \<notin> finished_mc_cids u" using inv u by (simp add: mc_inv_def mc_height_def mc_view_def)
    moreover have "mc_inv n own ps u" using inv mc_inv_view [OF u] by simp
    moreover have "storage u = storage s" using u by (simp add: mc_view_def)
    ultimately show ?thesis using mc_count_step [of n own ps u ?cid env p] False assms(2-4,7) by (simp add: wp_simps)
  qed
  have der: "wp (deref k) (\<lambda>_. wp (bindp (gets (\<lambda>s. ?cid \<in> finished_mc_cids s)) (\<lambda>fin. whenp (\<not> fin) (mc_count env ?cid (p_pre_amp_cluster_number p))))
      (\<lambda>_. ?Q) (\<lambda>_. ?Q)) (\<lambda>_. ?Q) u" if u: "mc_view u = mc_view s" for u
    using main [OF u] u k(2) by (auto simp: wp_deref mc_view_def cache_def)
  have config: "wp (bindp (gets (\<lambda>s. counter (clusterid_to_reconfig_count s) (p_pre_amp_cluster_number p))) (\<lambda>c. whenp (c \<noteq> p_reconfig_count p)
      (seqp (modify (\<lambda>s. s\<lparr>clusterid_to_reconfig_count := (clusterid_to_reconfig_count s)(p_pre_amp_cluster_number p \<mapsto> p_reconfig_count p)\<rparr>))
        (update_other_f_plus_one env (p_current_peer_set p) (sint (p_pre_amp_cluster_number p))))))
      (\<lambda>_ u. mc_view u = mc_view s) (\<lambda>_. ?Q) s"
    by (simp add: wp_simps update_other_f_plus_one_def Let_def mc_view_def)
  have "wp (receive_mc_local env p) (\<lambda>_. ?Q) (\<lambda>_. ?Q) s"
    unfolding receive_mc_local_def Let_def wp_seqp k(1) option.case
    by (rule wp_mono [OF config der])
  then show ?thesis by (simp add: wp_result cache_def)
qed

section \<open>Sequences of messages\<close>

definition mc_run :: "env \<Rightarrow> proposal list \<Rightarrow> base \<Rightarrow> base" where
  "mc_run env ps s = fold (\<lambda>p s. snd (receive_mc_local env p s)) ps s"

definition mc_msg_ok :: "nat \<Rightarrow> base \<Rightarrow> proposal \<Rightarrow> bool" where
  "mc_msg_ok n s p \<longleftrightarrow> unat (p_pre_amp_cluster_number p) < n \<and> (case p_blk p of None \<Rightarrow> False | Some k \<Rightarrow> cache s k \<noteq> None)"

lemma mc_run_inv:
  assumes "mc_inv n own [] s" and "junk_x env = 0" and "own < n" and "\<forall>p \<in> set ps. mc_msg_ok n s p" and "length ps + 1 < 2 ^ 32"
  shows "mc_inv n own ps (mc_run env ps s) \<and> cache (mc_run env ps s) = cache s"
  using assms(4,5)
proof (induction ps rule: rev_induct)
  case Nil
  show ?case using assms(1) by (simp add: mc_run_def)
next
  case (snoc p ps)
  then have IH: "mc_inv n own ps (mc_run env ps s)" "cache (mc_run env ps s) = cache s" by auto
  obtain k where "p_blk p = Some k" "cache s k \<noteq> None" "unat (p_pre_amp_cluster_number p) < n"
    using snoc.prems(1) by (auto simp: mc_msg_ok_def split: option.splits)
  then show ?case
    using receive_mc_step [OF IH(1) assms(2,3), of p k] IH(2) snoc.prems(2) by (simp add: mc_run_def)
qed

end
