(* ===== verification/Execution.thy ===== *)
theory Execution
  imports Core_Properties
begin

text \<open>
  Execution of committed commands: what a commit and a height heard late hand over to the state machine.
\<close>

definition executed :: "action list \<Rightarrow> finality list" where
  "executed as = concat (map (\<lambda>a. case a of StateMachineExecute f \<Rightarrow> [f] | _ \<Rightarrow> []) as)"

definition blk_finalities :: "replica_id \<Rightarrow> block \<Rightarrow> finality list" where
  "blk_finalities rid b = map (\<lambda>i. finality_of rid i b) [0..<length (cmds b)]"

definition committable :: "block \<Rightarrow> bool" where
  "committable b \<longleftrightarrow> qc b \<noteq> None \<and> length (cmds b) \<le> length (keys b) \<and> length (cmds b) \<le> length (vals b)"

section \<open>The commands of one block\<close>

text \<open>Commands have been executed and nothing else that execution depends on has changed.\<close>

definition runs :: "finality list \<Rightarrow> base \<Rightarrow> base \<Rightarrow> bool" where
  "runs fs s t \<longleftrightarrow> storage t = storage s \<and> core_id t = core_id s \<and> finished_mc_cids t = finished_mc_cids s \<and>
     finished_update_cids t = finished_update_cids s \<and> executed (outputs t) = executed (outputs s) @ fs"

lemma do_decide_runs: "wp (do_decide f k v) (\<lambda>_. runs [f] s) (\<lambda>_ _. False) s"
  by (simp add: do_decide_def run_decision_waiting_def emit_def wp_simps runs_def executed_def split: option.split)

lemma runs_trans: "runs fs s t \<Longrightarrow> runs gs t u \<Longrightarrow> runs (fs @ gs) s u"
  by (simp add: runs_def)

lemma decide_loop_runs:
  assumes "\<forall>i \<in> set is. i < length (keys b) \<and> i < length (vals b)"
  shows "wp (forp is (\<lambda>i. if i < length (keys b) \<and> i < length (vals b)
      then do_decide (finality_of rid i b) (keys b ! i) (vals b ! i) else throw UndefinedBehaviour))
    (\<lambda>_. runs (map (\<lambda>i. finality_of rid i b) is) s) (\<lambda>_ _. False) s"
  using assms
proof (induction "is" arbitrary: s)
  case Nil
  show ?case by (simp add: wp_ret runs_def)
next
  case (Cons i "is")
  have "wp (forp is (\<lambda>i. if i < length (keys b) \<and> i < length (vals b)
      then do_decide (finality_of rid i b) (keys b ! i) (vals b ! i) else throw UndefinedBehaviour))
      (\<lambda>_. runs (map (\<lambda>i. finality_of rid i b) (i # is)) s) (\<lambda>_ _. False) t" if "runs [finality_of rid i b] s t" for t
    by (rule wp_mono [OF Cons.IH]) (use Cons.prems runs_trans [OF that] in auto)
  then show ?case
    using Cons.prems by (simp add: wp_seqp) (rule wp_mono [OF do_decide_runs])
qed

lemma decide_cmds_runs:
  assumes "vt_do_decide vt = do_decide" and "committable b"
  shows "wp (decide_cmds vt rid b) (\<lambda>_. runs (blk_finalities rid b) s) (\<lambda>_ _. False) s"
  unfolding decide_cmds_def assms(1) blk_finalities_def finality_of_def [symmetric]
  by (rule decide_loop_runs) (use assms(2) in \<open>auto simp: committable_def\<close>)

section \<open>The callbacks of a commit\<close>

lemma base_vt_commit:
  "vt_do_decide (base_vt env m) = do_decide" "vt_do_consensus (base_vt env m) = do_consensus"
  "vt_get_leave_set (base_vt env m) = get_leave_set" "vt_check_leader (base_vt env m) = check_leader"
  "vt_do_broadcast_proposal_other_clusters (base_vt env m) = do_broadcast_proposal_other_clusters env"
  "vt_start_remote_view_change_timer (base_vt env m) = start_remote_view_change_timer"
  "vt_update_finished_update_cids (base_vt env m) = update_finished_update_cids"
  "vt_did_receive_mc (base_vt env m) = did_receive_mc"
  "vt_reset_remote_view_change_timer (base_vt env m) = reset_remote_view_change_timer"
  by (cases m; simp add: mk_vt_def)+

definition decided_blk :: "u256 \<Rightarrow> block \<Rightarrow> base \<Rightarrow> base \<Rightarrow> bool" where
  "decided_blk k b s t \<longleftrightarrow> cache t = (cache s)(k \<mapsto> b\<lparr>decision := 1\<rparr>) \<and> core_id t = core_id s \<and>
     finished_mc_cids t = finished_mc_cids s \<and>
     finished_update_cids t = insert (cid_of_height (height b)) (finished_update_cids s) \<and>
     executed (outputs t) = executed (outputs s) @
       (if cid_of_height (height b) \<in> finished_mc_cids s then blk_finalities (core_id s) b else [])"

lemma wp_decide_cmds:
  assumes "committable b" and "\<And>u. runs (blk_finalities rid b) t u \<Longrightarrow> Q () u"
  shows "wp (decide_cmds (base_vt env m) rid b) Q E t"
  by (rule wp_mono [OF decide_cmds_runs [OF base_vt_commit(1) assms(1)]]) (use assms(2) in auto)

lemma commit_blk_decides:
  assumes k: "cache s k = Some b" and b: "committable b"
  shows "wp (commit_blk (base_vt env m) k) (\<lambda>_. decided_blk k b s) (\<lambda>_ _. False) s"
proof -
  have fin: "blk_finalities rid (b\<lparr>decision := 1\<rparr>) = blk_finalities rid b" for rid
    by (simp add: blk_finalities_def finality_of_def)
  obtain q where q: "qc b = Some q" using b by (auto simp: committable_def)
  have c: "committable (b\<lparr>decision := 1\<rparr>)" using b by (simp add: committable_def)
  show ?thesis
    using k q
    by (simp add: commit_blk_def base_vt_commit do_consensus_def get_leave_set_def check_leader_def
        do_broadcast_proposal_other_clusters_def msg_propose_def emit_def proposal_new9_def
        start_remote_view_change_timer_def update_finished_update_cids_def did_receive_mc_def reset_remote_view_change_timer_def
        wp_simps wp_modify [abs_def] set_cache_def cache_def cong: if_cong)
      (intro conjI impI wp_decide_cmds c, simp_all add: runs_def decided_blk_def fin cache_def executed_def)
qed

section \<open>The commands of a branch\<close>

text \<open>The commands that committing block \<open>j\<close> executes: those of a block whose height every cluster has been heard of.\<close>

definition now_executed :: "base \<Rightarrow> u256 \<Rightarrow> finality list" where
  "now_executed s j = (case cache s j of None \<Rightarrow> [] | Some b \<Rightarrow>
     if cid_of_height (height b) \<in> finished_mc_cids s then blk_finalities (core_id s) b else [])"

lemma decided_blk_now:
  assumes "decided_blk k b s t" and "cache s k = Some b"
  shows "now_executed t j = now_executed s j" "hgt (cache t) j = hgt (cache s) j"
    "(case cache t j of None \<Rightarrow> False | Some b \<Rightarrow> committable b) = (case cache s j of None \<Rightarrow> False | Some b \<Rightarrow> committable b)"
    "executed (outputs t) = executed (outputs s) @ now_executed s k"
    "finished_update_cids t = insert (cid_of_height (hgt (cache s) k)) (finished_update_cids s)"
  using assms by (simp_all add: decided_blk_def now_executed_def blk_finalities_def finality_of_def hgt_def committable_def split: option.split)

lemma commit_loop_executes:
  assumes "\<forall>j \<in> set q. case cache s j of None \<Rightarrow> False | Some b \<Rightarrow> committable b"
  shows "wp (forp q (commit_blk (base_vt env m)))
    (\<lambda>_ t. executed (outputs t) = executed (outputs s) @ concat (map (now_executed s) q) \<and>
       finished_update_cids t = finished_update_cids s \<union> (\<lambda>j. cid_of_height (hgt (cache s) j)) ` set q)
    (\<lambda>_ _. False) s"
  using assms
proof (induction q arbitrary: s)
  case Nil
  show ?case by (simp add: wp_ret)
next
  case (Cons k q)
  then obtain b where b: "cache s k = Some b" "committable b" by (auto split: option.splits)
  show ?case
    unfolding forp.simps wp_seqp
  proof (rule wp_mono [OF commit_blk_decides [OF b]])
    fix t assume t: "decided_blk k b s t"
    note now = decided_blk_now [OF t b(1)]
    have "\<forall>j \<in> set q. case cache t j of None \<Rightarrow> False | Some b \<Rightarrow> committable b" using Cons.prems by (simp add: now(3))
    from Cons.IH [OF this]
    show "wp (forp q (commit_blk (base_vt env m)))
      (\<lambda>_ t. executed (outputs t) = executed (outputs s) @ concat (map (now_executed s) (k # q)) \<and>
         finished_update_cids t = finished_update_cids s \<union> (\<lambda>j. cid_of_height (hgt (cache s) j)) ` set (k # q))
      (\<lambda>_ _. False) t"
      by (rule wp_mono) (simp_all add: now fun_eq_iff)
  qed simp
qed

text \<open>A commit that returns executes the commands of the branch.\<close>

lemma commit_runs:
  assumes inv: "core_inv s" and nw: "nowrap (cache s) (b0 s)" and dlv: "is_delivered (cache s) k"
    and anc: "anc (cache s) (b_exec s) k"
    and ok: "\<And>j. anc (cache s) j k \<Longrightarrow> \<not> anc (cache s) j (b_exec s) \<Longrightarrow> case cache s j of None \<Rightarrow> False | Some b \<Rightarrow> committable b"
  shows "\<exists>q t. path_to (cache s) k q (b_exec s) \<and> commit (base_vt env m) k s = (Inr (), t) \<and> b_exec t = k \<and>
    executed (outputs t) = executed (outputs s) @ concat (map (now_executed s) (rev q)) \<and>
    finished_update_cids t = finished_update_cids s \<union> (\<lambda>j. cid_of_height (hgt (cache s) j)) ` set q"
proof -
  have de: "is_delivered (cache s) (b_exec s)" and cok: "cache_ok (cache s) (b0 s)" using inv by (simp_all add: core_inv_def)
  then obtain eb where eb: "cache s (b_exec s) = Some eb" by (auto simp: is_delivered_def split: option.splits)
  then have heb: "height eb = hgt (cache s) (b_exec s)" by (simp add: hgt_def)
  obtain x q where p: "path_to (cache s) k q x" "\<forall>y \<in> set q. height eb < hgt (cache s) y" "hgt (cache s) x \<le> height eb"
    and w: "\<And>Q E. wp (walk_from k (height eb)) Q E s = Q (x, q) s"
    by (rule walk_from_wp [OF inv dlv, of "height eb"]) blast
  note pa = path_above [OF cok nw dlv de p [unfolded heb]]
  have x: "x = b_exec s" using pa(1) anc by simp
  have "\<forall>j \<in> set (rev q). case cache s j of None \<Rightarrow> False | Some b \<Rightarrow> committable b"
    using pa(2) [OF x] ok by auto
  note loop = commit_loop_executes [OF this, of env m]
  have "wp (commit (base_vt env m) k) (\<lambda>_ t. b_exec t = k \<and>
      executed (outputs t) = executed (outputs s) @ concat (map (now_executed s) (rev q)) \<and>
      finished_update_cids t = finished_update_cids s \<union> (\<lambda>j. cid_of_height (hgt (cache s) j)) ` set q) (\<lambda>_ _. False) s"
    unfolding commit_def wp_bindp wp_gets wp_deref eb option.case w prod.case x
    by (simp add: wp_seqp) (rule wp_mono [OF loop], simp_all add: wp_modify)
  then show ?thesis using p(1) unfolding x by (auto simp: wp_def split: prod.splits sum.splits)
qed

section \<open>Execution when a height is heard late\<close>

lemma decide_after_mc_runs:
  assumes "cid_blkhash (storage s) cid = Some k" and "k \<noteq> junk_neg env" and "cache s k = Some b" and "committable b"
    and "cid \<in> finished_update_cids s"
  shows "wp (decide_after_mc env cid) (\<lambda>_. runs (blk_finalities (core_id s) b) s) (\<lambda>_ _. False) s"
proof -
  have "wp (forp [0..<length (cmds b)] (\<lambda>i. if i < length (keys b) \<and> i < length (vals b)
      then do_decide (finality_of (core_id s) i b) (keys b ! i) (vals b ! i) else throw UndefinedBehaviour))
      (\<lambda>_. wp (reset_remote_view_change_timer cid) (\<lambda>_. runs (blk_finalities (core_id s) b) s) (\<lambda>_ _. False)) (\<lambda>_ _. False) s"
    by (rule wp_mono [OF decide_loop_runs])
      (use assms(4) in \<open>auto simp: committable_def blk_finalities_def reset_remote_view_change_timer_def wp_modify runs_def\<close>)
  then show ?thesis
    using assms(1-3,5) by (simp add: decide_after_mc_def find_blk_hash_for_cid_def did_update_def wp_bindp wp_gets wp_whenp wp_deref wp_seqp)
qed

lemma store_in_map_first:
  assumes "cache s k = Some b" and "cid_blkhash (storage s) (cid_of_height (height b)) = Some j"
  shows "store_in_map_for_mc k s = (Inr (), s)"
  using assms by (simp add: store_in_map_for_mc_def prog_defs deref_def add_cid_blkhash_def map_insert_def)

end
