(* ===== verification/Replica_Properties.thy ===== *)
theory Replica_Properties
  imports Inter_Cluster Execution
begin

text \<open>Properties of the replica around the protocol core: reconfiguration, inter-cluster messages, execution.\<close>

section \<open>Reconfiguration\<close>

lemma echo_step:
  assumes "rm_type m = My_ECHO" and "rm_reconfig_count m = c"
    and "counter (reconfig_echo_counter s) c = get_recs_majority s + of_nat k" and "k + 1 < 2 ^ 32"
  shows "MsgRecsAggEchoReady_handler (Some p) m s = (Inr (), s\<lparr>reconfig_echo_counter := bump (reconfig_echo_counter s) c\<rparr>)"
    "counter (bump (reconfig_echo_counter s) c) c = get_recs_majority s + of_nat (Suc k)"
proof -
  show b: "counter (bump (reconfig_echo_counter s) c) c = get_recs_majority s + of_nat (Suc k)"
    using assms(3) by (simp add: bump_def counter_def [of "_(_ \<mapsto> _)"])
  have "(of_nat (Suc k) :: i32) \<noteq> 0"
    using unat_of_nat32 [of "Suc k"] assms(4) by (metis Suc_eq_plus1 nat.distinct(1) unat_0)
  then have "counter (bump (reconfig_echo_counter s) c) c \<noteq> get_recs_majority s" using b by simp
  then show "MsgRecsAggEchoReady_handler (Some p) m s = (Inr (), s\<lparr>reconfig_echo_counter := bump (reconfig_echo_counter s) c\<rparr>)"
    using assms(1,2)
    by (simp add: MsgRecsAggEchoReady_handler_def Let_def My_AGG_def My_ECHO_def My_READY_def prog_defs bump_echo_def get_recs_majority_def)
qed

text \<open>Handling messages one after the other.\<close>

definition handle_recs :: "u256 \<Rightarrow> recs_msg list \<Rightarrow> base \<Rightarrow> base" where
  "handle_recs p ms s = fold (\<lambda>m s. snd (MsgRecsAggEchoReady_handler (Some p) m s)) ms s"

lemma echoes_silent:
  assumes "\<forall>m \<in> set ms. rm_type m = My_ECHO \<and> rm_reconfig_count m = c"
    and "counter (reconfig_echo_counter s) c = get_recs_majority s + of_nat k" and "k + length ms < 2 ^ 32"
  shows "\<exists>f. handle_recs p ms s = s\<lparr>reconfig_echo_counter := f\<rparr>"
  using assms
proof (induction ms arbitrary: s k)
  case Nil
  show ?case by (rule exI [of _ "reconfig_echo_counter s"]) (simp add: handle_recs_def)
next
  case (Cons m ms)
  let ?t = "s\<lparr>reconfig_echo_counter := bump (reconfig_echo_counter s) c\<rparr>"
  have m: "rm_type m = My_ECHO" "rm_reconfig_count m = c" "k + 1 < 2 ^ 32" using Cons.prems by auto
  note step = echo_step [OF m(1,2) Cons.prems(2) m(3)]
  have "\<exists>f. handle_recs p ms ?t = ?t\<lparr>reconfig_echo_counter := f\<rparr>"
    by (rule Cons.IH [of ?t "Suc k"]) (use Cons.prems step(2) in \<open>auto simp: get_recs_majority_def\<close>)
  then show ?case using step(1) by (simp add: handle_recs_def)
qed

text \<open>(C26) A replica can miss the majority of a reconfiguration: when its counter of echoes is one below the majority
  and the aggregate message arrives, its own echo completes the majority without a ready message being
  sent, and no number of further echoes makes it send one, because the test asks for equality.\<close>

theorem echo_majority_missed:
  assumes "counter (reconfig_echo_counter s) c + 1 = get_recs_majority s"
    and "rm_type agg = My_AGG" and "rm_reconfig_count agg = c"
    and "\<forall>m \<in> set ms. rm_type m = My_ECHO \<and> rm_reconfig_count m = c" and "length ms < 2 ^ 32"
  shows "counter (reconfig_echo_counter (handle_recs p [agg] s)) c = get_recs_majority s \<and>
    outputs (handle_recs p (agg # ms) s) =
      outputs s @ [Multicast (MsgRecsAggEchoReady \<lparr>rm_recs = rm_recs agg, rm_type = My_ECHO, rm_reconfig_count = c\<rparr>) (hs_peers_current s)] \<and>
    reconfig_ready_counter (handle_recs p (agg # ms) s) = reconfig_ready_counter s"
proof -
  let ?o = "outputs s @ [Multicast (MsgRecsAggEchoReady \<lparr>rm_recs = rm_recs agg, rm_type = My_ECHO, rm_reconfig_count = c\<rparr>) (hs_peers_current s)]"
  let ?t = "s\<lparr>outputs := ?o, reconfig_echo_counter := bump (reconfig_echo_counter s) c\<rparr>"
  have a: "MsgRecsAggEchoReady_handler (Some p) agg s = (Inr (), ?t)"
    using assms(2,3)
    by (simp add: MsgRecsAggEchoReady_handler_def Let_def My_AGG_def My_ECHO_def My_READY_def prog_defs bump_echo_def multicast_recs_def emit_def)
  have b: "counter (bump (reconfig_echo_counter s) c) c = get_recs_majority s"
    using assms(1) by (simp add: bump_def counter_def [of "_(_ \<mapsto> _)"])
  then have "\<exists>f. handle_recs p ms ?t = ?t\<lparr>reconfig_echo_counter := f\<rparr>"
    using assms(4,5) by (intro echoes_silent [of _ _ _ 0]) (simp_all add: get_recs_majority_def)
  then show ?thesis using a b by (auto simp: handle_recs_def)
qed

theorem echo_majority_missed_witness:
  "outputs (handle_recs 7 [\<lparr>rm_recs = \<lparr>r_cluster_number = 0, r_node_number = 0, r_reconfig_mode = 1\<rparr>, rm_type = My_AGG, rm_reconfig_count = 5\<rparr>]
      (toy0\<lparr>reconfig_echo_counter := [5 \<mapsto> get_recs_majority toy0 - 1], outputs := []\<rparr>)) =
    [Multicast (MsgRecsAggEchoReady \<lparr>rm_recs = \<lparr>r_cluster_number = 0, r_node_number = 0, r_reconfig_mode = 1\<rparr>, rm_type = My_ECHO, rm_reconfig_count = 5\<rparr>) (hs_peers_current toy0)]"
  using echo_majority_missed [of "toy0\<lparr>reconfig_echo_counter := [5 \<mapsto> get_recs_majority toy0 - 1], outputs := []\<rparr>" 5
      "\<lparr>rm_recs = \<lparr>r_cluster_number = 0, r_node_number = 0, r_reconfig_mode = 1\<rparr>, rm_type = My_AGG, rm_reconfig_count = 5\<rparr>" "[]" 7]
  by (simp add: counter_def get_recs_majority_def)

section \<open>Heights heard from all clusters\<close>





section \<open>Execution\<close>

text \<open>(C6) In a state with the invariant of the core, committing a delivered block that extends the last executed
  one succeeds, provided the blocks on the way carry a certificate and enough keys and values. It
  hands the commands of the blocks on the branch to the state machine in the order of the chain, from the
  oldest block to the new head and within a block by index, leaving out exactly the blocks whose height
  has not been heard from every cluster, and it records the heights of all of them as committed.\<close>

theorem commit_executes_in_order:
  assumes "core_inv s" and "nowrap (cache s) (b0 s)" and "is_delivered (cache s) k" and "anc (cache s) (b_exec s) k"
    and "\<And>j. anc (cache s) j k \<Longrightarrow> \<not> anc (cache s) j (b_exec s) \<Longrightarrow> case cache s j of None \<Rightarrow> False | Some b \<Rightarrow> committable b"
  shows "\<exists>q t. path_to (cache s) k q (b_exec s) \<and> commit (base_vt env m) k s = (Inr (), t) \<and> b_exec t = k \<and>
    executed (outputs t) = executed (outputs s) @
      concat (map (\<lambda>j. case cache s j of None \<Rightarrow> [] | Some b \<Rightarrow>
        if cid_of_height (height b) \<in> finished_mc_cids s
        then map (\<lambda>i. finality_of (core_id s) i b) [0..<length (cmds b)] else []) (rev q)) \<and>
    finished_update_cids t = finished_update_cids s \<union> (\<lambda>j. cid_of_height (hgt (cache s) j)) ` set q"
  using commit_runs [OF assms] unfolding now_executed_def blk_finalities_def by blast

text \<open>A block on top of the genesis block, delivered in the small replica.\<close>

definition toy_blk :: block where
  "toy_blk = empty_block\<lparr>hash := b0 toy0 + 1, parent_hashes := [b0 toy0], cmds := [42], keys := [1], vals := [2],
     qc := Some (QuorumCertDummy (b0 toy0))\<rparr>"

definition toy_filed :: base where
  "toy_filed = set_cache ((cache toy0)(b0 toy0 + 1 \<mapsto> toy_blk)) toy0"

definition toy_ready :: base where
  "toy_ready = (set_cache ((cache toy_filed)(b0 toy0 + 1 \<mapsto> delivered_blk (cache toy_filed) toy_blk)) toy_filed)
     \<lparr>finished_mc_cids := {1}, outputs := []\<rparr>"

lemma toy_ready_inv: "core_inv toy_ready" "b0 toy_ready = b0 toy0" "b_exec toy_ready = b0 toy0" "cache toy_ready (b0 toy0 + 1) =
    Some (toy_blk\<lparr>parents := [b0 toy0], height := 1, qc_ref := Some (b0 toy0), delivered := True\<rparr>)"
  "dom (cache toy_ready) = {b0 toy0, b0 toy0 + 1}" "hgt (cache toy_ready) (b0 toy0) = 0"
proof -
  obtain g where g: "cache toy0 = [b0 toy0 \<mapsto> g]" using toy0_fields(6) by auto
  have inv0: "core_inv toy0" by (rule reach_core [OF toy0_reach])
  have ne: "b0 toy0 \<noteq> b0 toy0 + 1" by simp
  have gd: "delivered g" "height g = 0" using core_inv_blk [OF inv0, of "b0 toy0" g] g by (simp_all add: blk_ok_def)
  have "core_inv toy_filed"
    using core_step_new [OF inv0, of toy_blk] g ne
    by (simp add: toy_filed_def toy_blk_def blk_ok_def empty_block_def map_insert_def)
  moreover have "deliverable (cache toy_filed) toy_blk"
    using g gd ne by (simp add: deliverable_def toy_filed_def toy_blk_def is_delivered_def)
  ultimately have "core_inv (set_cache ((cache toy_filed)(b0 toy0 + 1 \<mapsto> delivered_blk (cache toy_filed) toy_blk)) toy_filed)"
    using core_step_links [of toy_filed "b0 toy0 + 1" toy_blk] by (simp add: toy_filed_def toy_blk_def empty_block_def)
  then show "core_inv toy_ready" unfolding toy_ready_def by (subst core_inv_view) (simp_all add: view_def cache_def set_cache_def)
  show "b0 toy_ready = b0 toy0" "b_exec toy_ready = b0 toy0"
    by (simp_all add: toy_ready_def toy_filed_def set_cache_def toy0_fields)
  show "cache toy_ready (b0 toy0 + 1) =
      Some (toy_blk\<lparr>parents := [b0 toy0], height := 1, qc_ref := Some (b0 toy0), delivered := True\<rparr>)"
    "dom (cache toy_ready) = {b0 toy0, b0 toy0 + 1}" "hgt (cache toy_ready) (b0 toy0) = 0"
    using g gd ne by (auto simp: toy_ready_def toy_filed_def set_cache_def cache_def delivered_blk_def toy_blk_def hgt_def)
qed

lemma toy_ready_path: "path_to (cache toy_ready) (b0 toy0 + 1) q (b0 toy0) \<longleftrightarrow> q = [b0 toy0 + 1]"
proof -
  have "parents g = []" if "cache toy_ready (b0 toy0) = Some g" for g
    using core_inv_blk [OF toy_ready_inv(1) that] toy_ready_inv(2) by (simp add: blk_ok_def)
  then have "path_to (cache toy_ready) (b0 toy0) r (b0 toy0) \<longleftrightarrow> r = []" for r
    by (cases r) (auto simp: path_to_Cons)
  then show ?thesis using toy_ready_inv(4) by (cases q) (auto simp: path_to_Cons)
qed

theorem commit_executes_in_order_witness:
  "\<exists>t. commit (base_vt toy_env 1) (b0 toy0 + 1) toy_ready = (Inr (), t) \<and> b_exec t = b0 toy0 + 1 \<and>
     executed (outputs t) = [\<lparr>f_rid = core_id toy_ready, f_decision = 1, f_cmd_idx = 0, f_cmd_height = 1,
       f_cmd_hash = 42, f_blk_hash = b0 toy0 + 1\<rparr>]"
proof -
  let ?k = "b0 toy0 + 1" and ?c = "cache toy_ready"
  have path: "path_to ?c ?k [?k] (b0 toy0)" using toy_ready_path by simp
  have dlv: "is_delivered ?c ?k" using toy_ready_inv(4) by (simp add: is_delivered_def)
  have out: "outputs toy_ready = []" "finished_mc_cids toy_ready = {1}" by (simp_all add: toy_ready_def)
  have "nowrap ?c (b0 toy0)"
    using toy_ready_inv(4,5) by (auto simp: nowrap_def is_delivered_def hgt_def dom_def set_eq_iff split: option.splits)
  moreover have "case ?c j of None \<Rightarrow> False | Some b \<Rightarrow> committable b" if "anc ?c j ?k" "\<not> anc ?c j (b0 toy0)" for j
    using anc_path [OF path, of j] that toy_ready_inv(4) by (auto simp: committable_def toy_blk_def)
  moreover have "anc ?c (b0 toy0) ?k" by (rule path_anc [OF path])
  ultimately show ?thesis
    using commit_executes_in_order [of toy_ready ?k toy_env 1, unfolded toy_ready_inv(2,3), OF toy_ready_inv(1) _ dlv]
      toy_ready_inv(4) out
    by (auto simp: toy_ready_path executed_def finality_of_def toy_blk_def cid_of_height_def empty_block_def)
qed

text \<open>(C25) A height that is heard from all clusters after it has been committed executes the commands of the block that
  was \<^emph>\<open>delivered\<close> first at that height: a second block of the same height does not replace the recorded one,
  even if it is the committed one.\<close>

theorem late_execution_first_delivered:
  assumes "cid_blkhash (storage s) h = Some k1" and "k1 \<noteq> junk_neg env" and "cache s k1 = Some b1" and "committable b1"
    and "cache s k2 = Some b2" and "cid_of_height (height b2) = h" and "h \<in> finished_update_cids s"
  shows "\<exists>t. seqp (store_in_map_for_mc k2) (decide_after_mc env h) s = (Inr (), t) \<and>
    executed (outputs t) = executed (outputs s) @ map (\<lambda>i. finality_of (core_id s) i b1) [0..<length (cmds b1)]"
proof -
  have "store_in_map_for_mc k2 s = (Inr (), s)" using store_in_map_first [OF assms(5)] assms(1,6) by simp
  moreover have "wp (decide_after_mc env h) (\<lambda>_. runs (blk_finalities (core_id s) b1) s) (\<lambda>_ _. False) s"
    by (rule decide_after_mc_runs [OF assms(1-4,7)])
  ultimately show ?thesis
    by (auto simp: seqp_def bindp_def wp_def runs_def blk_finalities_def split: prod.splits sum.splits)
qed

definition toy_fork_blk :: "u256 \<Rightarrow> block" where
  "toy_fork_blk k = empty_block\<lparr>hash := k, height := 1, cmds := [10 * k], keys := [1], vals := [1], qc := Some (QuorumCertDummy 0)\<rparr>"

definition toy_fork :: base where
  "toy_fork = toy0\<lparr>storage := (storage toy0)\<lparr>cid_blkhash := [1 \<mapsto> 5], blk_cache := [5 \<mapsto> toy_fork_blk 5, 6 \<mapsto> toy_fork_blk 6]\<rparr>,
     finished_update_cids := {1}, outputs := []\<rparr>"

theorem late_execution_first_delivered_witness:
  "\<exists>t. seqp (store_in_map_for_mc 6) (decide_after_mc toy_env 1) toy_fork = (Inr (), t) \<and> map f_cmd_hash (executed (outputs t)) = [50]"
proof -
  have s: "cid_blkhash (storage toy_fork) 1 = Some 5" "cache toy_fork 5 = Some (toy_fork_blk 5)"
      "cache toy_fork 6 = Some (toy_fork_blk 6)" "1 \<in> finished_update_cids toy_fork" "executed (outputs toy_fork) = []"
    by (simp_all add: toy_fork_def cache_def executed_def)
  have b: "committable (toy_fork_blk 5)" "cid_of_height (height (toy_fork_blk 6)) = 1" "cmds (toy_fork_blk 5) = [50]"
    by (simp_all add: toy_fork_blk_def committable_def cid_of_height_def)
  have "junk_neg toy_env = 255" by (simp add: toy_env_def)
  then obtain t where "seqp (store_in_map_for_mc 6) (decide_after_mc toy_env 1) toy_fork = (Inr (), t)"
      "executed (outputs t) = map (\<lambda>i. finality_of (core_id toy_fork) i (toy_fork_blk 5)) [0..<1]"
    using late_execution_first_delivered [OF s(1) _ s(2) b(1) s(3) b(2) s(4), of toy_env] s(5) b(3) by auto
  then show ?thesis using b(3) by (simp add: finality_of_def)
qed

end
