(* ===== verification/Round_Robin.thy ===== *)
theory Round_Robin
  imports Complex_Main Replica_State
begin

text \<open>
  The pace maker \<open>PMRoundRobinProposer\<close> of \<^verbatim>\<open>liveness.h\<close>: the proposer is rotated by timers with
  exponential backoff until a block of the current proposer is committed. The core and the replica, which it
  calls and which call it back, are a record of functions (\<open>host\<close>), with the contract as the locale \<open>pm_host\<close>.
  Timeouts are real numbers: doubling a \<open>double\<close> is exact below its overflow.
\<close>

section \<open>State\<close>

text \<open>The callback the timer is armed with, and its delay.\<close>

datatype rr_timer = OnExpTimeout real | RotateTimer real

text \<open>What waits for a promise: a beat to be resolved, the next step of \<open>do_new_consensus\<close>, the continuation of
  \<open>proposer_update_last_proposed\<close>. What waits for the next own proposal: the continuation of \<open>reg_proposal\<close> or a
  promise returned by \<open>async_wait_proposal\<close>.\<close>

datatype rr_cb = ResolveBeat nat | NewConsensus nat | UpdateLast

datatype rr_wait = RegProposal | WaitPromise nat

text \<open>The members of the pace maker, then what it sees of the core: its name, the number of replicas, the
  genesis block, the blocks with a majority of votes, the waiting continuations and the promises.
  \<open>rr_beats\<close> has the promises returned by \<open>beat\<close>, whose callbacks are continuations of the replica;
  \<open>rr_tcalls\<close> counts the calls deferred by \<open>get_tcall().async_call\<close>.\<close>

record rr_state =
  base_timeout :: real
  exp_timeout :: real
  prop_delay :: real
  rr_timer :: "rr_timer option"
  other_cluster_timer :: "real option"
  rr_proposer :: replica_id
  prop_blk :: "replica_id \<rightharpoonup> u256"
  rotating :: bool
  rr_pending_beats :: "nat list"
  last_proposed :: u256
  rr_locked :: bool
  rr_qc_finish :: nat
  pm_wait_propose :: nat
  pm_qc_manual :: nat
  rr_id :: replica_id
  rr_nreplicas :: nat
  rr_genesis :: u256
  rr_certified :: "u256 set"
  rr_propose_waiting :: "rr_wait list"
  rr_receive_waiting :: nat
  rr_qc_waiting :: "u256 \<rightharpoonup> nat"
  rr_promises :: "nat \<Rightarrow> rr_cb promise"
  rr_beats :: "nat \<Rightarrow> nat promise"
  rr_next :: nat
  rr_tcalls :: nat

text \<open>The constructor leaves the other members as the memory held them; \<open>init\<close> sets them.\<close>

definition rr_make :: "rr_state \<Rightarrow> real \<Rightarrow> real \<Rightarrow> rr_state" where
  "rr_make junk b d = junk\<lparr>base_timeout := b, prop_delay := d, rr_proposer := 0, rotating := False,
     rr_timer := None, other_cluster_timer := None, prop_blk := Map.empty, rr_pending_beats := []\<rparr>"

text \<open>The calls into the core and the replica: \<open>on_propose\<close> with commands, keys and values; the
  continuation of a beat with the value of its promise; the hashes of \<open>decision_waiting\<close>; and the length of the vector
  \<open>vals\<close> whose initialiser reads its own size.\<close>

record host =
  h_propose :: "u256 list \<Rightarrow> i32 list \<Rightarrow> i32 list \<Rightarrow> (rr_state, u256) prog"
  h_beat :: "nat \<Rightarrow> replica_id \<Rightarrow> (rr_state, unit) prog"
  h_pending :: "rr_state \<Rightarrow> u256 list"
  h_junk_vals :: nat

section \<open>Promises\<close>

definition rr_new :: "rr_cb promise \<Rightarrow> (rr_state, nat) prog" where
  "rr_new p = bindp (gets rr_next) (\<lambda>n.
     seqp (modify (\<lambda>s. s\<lparr>rr_promises := (rr_promises s)(n := p)\<rparr>))
     (seqp (modify (\<lambda>s. s\<lparr>rr_next := n + 1\<rparr>)) (ret n)))"

definition rr_reject :: "(rr_state \<Rightarrow> nat) \<Rightarrow> (rr_state, unit) prog" where
  "rr_reject pm = bindp (gets pm) (\<lambda>n. bindp (gets (\<lambda>s. rr_promises s n)) (\<lambda>p. case p of
      Pending cbs \<Rightarrow> modify (\<lambda>s. s\<lparr>rr_promises := (rr_promises s)(n := Rejected)\<rparr>)
    | Fulfilled v \<Rightarrow> ret ()
    | Rejected \<Rightarrow> ret ()))"

definition rr_then :: "(rr_cb \<Rightarrow> (rr_state, unit) prog) \<Rightarrow> nat \<Rightarrow> rr_cb \<Rightarrow> (rr_state, unit) prog" where
  "rr_then run n cb = bindp (gets (\<lambda>s. rr_promises s n)) (\<lambda>p. case p of
      Pending cbs \<Rightarrow> modify (\<lambda>s. s\<lparr>rr_promises := (rr_promises s)(n := Pending (cbs @ [cb]))\<rparr>)
    | Fulfilled v \<Rightarrow> run cb
    | Rejected \<Rightarrow> ret ())"

definition rr_resolve :: "(rr_cb \<Rightarrow> (rr_state, unit) prog) \<Rightarrow> nat \<Rightarrow> (rr_state, unit) prog" where
  "rr_resolve run n = bindp (gets (\<lambda>s. rr_promises s n)) (\<lambda>p. case p of
      Pending cbs \<Rightarrow> seqp (modify (\<lambda>s. s\<lparr>rr_promises := (rr_promises s)(n := Fulfilled 0)\<rparr>)) (forp cbs run)
    | Fulfilled v \<Rightarrow> ret ()
    | Rejected \<Rightarrow> ret ())"

definition rr_resolve_beat :: "host \<Rightarrow> nat \<Rightarrow> (rr_state, unit) prog" where
  "rr_resolve_beat host n = bindp (gets rr_proposer) (\<lambda>v. bindp (gets (\<lambda>s. rr_beats s n)) (\<lambda>p. case p of
      Pending cbs \<Rightarrow> seqp (modify (\<lambda>s. s\<lparr>rr_beats := (rr_beats s)(n := Fulfilled v)\<rparr>)) (forp cbs (\<lambda>i. h_beat host i v))
    | Fulfilled w \<Rightarrow> ret ()
    | Rejected \<Rightarrow> ret ()))"

definition rr_async_qc_finish :: "u256 \<Rightarrow> (rr_state, nat) prog" where
  "rr_async_qc_finish k = bindp (gets (\<lambda>s. k \<in> rr_certified s)) (\<lambda>c.
     if c then rr_new (Fulfilled 0)
     else bindp (gets (\<lambda>s. rr_qc_waiting s k)) (\<lambda>w. case w of
        Some q \<Rightarrow> ret q
      | None \<Rightarrow> bindp (rr_new (Pending [])) (\<lambda>q.
          seqp (modify (\<lambda>s. s\<lparr>rr_qc_waiting := (rr_qc_waiting s)(k \<mapsto> q)\<rparr>)) (ret q))))"

section \<open>Operations\<close>

definition rr_reg_proposal :: "(rr_state, unit) prog" where
  "rr_reg_proposal = modify (\<lambda>s. s\<lparr>rr_propose_waiting := rr_propose_waiting s @ [RegProposal]\<rparr>)"

definition rr_reg_receive_proposal :: "(rr_state, unit) prog" where
  "rr_reg_receive_proposal = modify (\<lambda>s. s\<lparr>rr_receive_waiting := rr_receive_waiting s + 1\<rparr>)"

definition proposer_schedule_next :: "host \<Rightarrow> (rr_state, unit) prog" where
  "proposer_schedule_next host = bindp (gets rr_pending_beats) (\<lambda>bs. bindp (gets rr_locked) (\<lambda>l.
     if bs = [] \<or> l then ret ()
     else
       seqp (modify (\<lambda>s. s\<lparr>rr_pending_beats := tl bs\<rparr>))
       (seqp (rr_reject rr_qc_finish)
       (bindp (gets last_proposed) (\<lambda>k. bindp (rr_async_qc_finish k) (\<lambda>q.
        seqp (modify (\<lambda>s. s\<lparr>rr_qc_finish := q\<rparr>))
       (seqp (rr_then (\<lambda>_. rr_resolve_beat host (hd bs)) q (ResolveBeat (hd bs)))
       (modify (\<lambda>s. s\<lparr>rr_locked := True\<rparr>)))))))))"

definition proposer_update_last_proposed :: "(rr_state, unit) prog" where
  "proposer_update_last_proposed =
     seqp (rr_reject pm_wait_propose)
     (bindp (rr_new (Pending [UpdateLast])) (\<lambda>n.
      seqp (modify (\<lambda>s. s\<lparr>rr_propose_waiting := rr_propose_waiting s @ [WaitPromise n]\<rparr>))
      (modify (\<lambda>s. s\<lparr>pm_wait_propose := n\<rparr>))))"

text \<open>\<open>do_new_consensus\<close>: the callback proposes again until the block of step 3 has its certificate. If the
  certificate is already there the callback runs at once.\<close>

function do_new_consensus :: "host \<Rightarrow> nat \<Rightarrow> u256 list \<Rightarrow> (rr_state, unit) prog" where
  "do_new_consensus host x cs =
     bindp (h_propose host cs (replicate (length cs) 0) (replicate (h_junk_vals host) 0)) (\<lambda>blk.
     seqp (rr_reject pm_qc_manual)
     (bindp (rr_async_qc_finish blk) (\<lambda>q.
      seqp (modify (\<lambda>s. s\<lparr>pm_qc_manual := q\<rparr>))
      (rr_then (\<lambda>_. if x \<ge> 3 then ret () else do_new_consensus host (x + 1) []) q (NewConsensus x)))))"
  by pat_completeness auto
termination by (relation "measure (\<lambda>(h, x, cs). 4 - x)") auto

declare do_new_consensus.simps [simp del]

text \<open>The continuation of a promise; \<open>k\<close> is the block of the proposal the promise is resolved with.\<close>

definition rr_run :: "host \<Rightarrow> u256 \<Rightarrow> rr_cb \<Rightarrow> (rr_state, unit) prog" where
  "rr_run host k cb = (case cb of
      ResolveBeat n \<Rightarrow> rr_resolve_beat host n
    | NewConsensus x \<Rightarrow> if x \<ge> 3 then ret () else do_new_consensus host (x + 1) []
    | UpdateLast \<Rightarrow>
        seqp (modify (\<lambda>s. s\<lparr>last_proposed := k\<rparr>))
        (seqp (modify (\<lambda>s. s\<lparr>rr_locked := False\<rparr>))
        (seqp (proposer_schedule_next host) proposer_update_last_proposed)))"

definition on_exp_timeout :: "host \<Rightarrow> (rr_state, unit) prog" where
  "on_exp_timeout host = bindp (gets (\<lambda>s. rr_proposer s = rr_id s)) (\<lambda>me.
     seqp (whenp me (do_new_consensus host 0 []))
     (modify (\<lambda>s. s\<lparr>rr_timer := Some (RotateTimer (prop_delay s))\<rparr>)))"

definition reject_all :: "(rr_state, unit) prog" where
  "reject_all = seqp (rr_reject rr_qc_finish) (seqp (rr_reject pm_wait_propose) (rr_reject pm_qc_manual))"

definition rr_rotate :: "(rr_state, unit) prog" where
  "rr_rotate =
     seqp rr_reg_proposal (seqp rr_reg_receive_proposal
     (seqp (modify (\<lambda>s. s\<lparr>prop_blk := Map.empty\<rparr>)) (seqp (modify (\<lambda>s. s\<lparr>rotating := True\<rparr>))
     (bindp (gets rr_nreplicas) (\<lambda>n. if n = 0 then throw UndefinedBehaviour else
      seqp (modify (\<lambda>s. s\<lparr>rr_proposer := of_nat ((unat (rr_proposer s) + 1) mod n)\<rparr>))
     (seqp reject_all
     (seqp (modify (\<lambda>s. s\<lparr>rr_timer := Some (OnExpTimeout (exp_timeout s))\<rparr>))
     (modify (\<lambda>s. s\<lparr>exp_timeout := exp_timeout s * 2\<rparr>)))))))))"

definition stop_rotate :: "(rr_state, unit) prog" where
  "stop_rotate =
     seqp (modify (\<lambda>s. s\<lparr>rr_timer := None\<rparr>))
     (seqp reject_all
     (seqp (modify (\<lambda>s. s\<lparr>rotating := False\<rparr>))
     (seqp (modify (\<lambda>s. s\<lparr>rr_locked := False\<rparr>))
     (seqp (modify (\<lambda>s. s\<lparr>last_proposed := rr_genesis s\<rparr>))
     (seqp proposer_update_last_proposed
     (bindp (gets (\<lambda>s. rr_proposer s = rr_id s)) (\<lambda>me.
      whenp me (modify (\<lambda>s. s\<lparr>rr_tcalls := rr_tcalls s + 1\<rparr>)))))))))"

text \<open>The deferred call of \<open>stop_rotate\<close>.\<close>

definition repropose :: "host \<Rightarrow> (rr_state, unit) prog" where
  "repropose host = bindp (gets (h_pending host)) (\<lambda>cs.
     if cs = [] then ret () else do_new_consensus host 0 cs)"

definition on_consensus :: "u256 \<Rightarrow> (rr_state, unit) prog" where
  "on_consensus blk =
     seqp (modify (\<lambda>s. s\<lparr>rr_timer := None\<rparr>))
     (seqp (modify (\<lambda>s. s\<lparr>exp_timeout := base_timeout s\<rparr>))
     (bindp (gets (\<lambda>s. prop_blk s (rr_proposer s) = Some blk)) (\<lambda>c.
      seqp (whenp c stop_rotate)
      (modify (\<lambda>s. s\<lparr>other_cluster_timer := Some 1\<rparr>)))))"

definition impeach :: "(rr_state, unit) prog" where
  "impeach = bindp (gets rotating) (\<lambda>r. if r then ret () else rr_rotate)"

definition rr_init :: "(rr_state, unit) prog" where
  "rr_init = seqp (modify (\<lambda>s. s\<lparr>exp_timeout := base_timeout s\<rparr>)) stop_rotate"

definition rr_beat :: "host \<Rightarrow> (rr_state, nat) prog" where
  "rr_beat host = bindp (gets (\<lambda>s. \<not> rotating s \<and> rr_proposer s = rr_id s)) (\<lambda>me. bindp (gets rr_next) (\<lambda>n.
     seqp (modify (\<lambda>s. s\<lparr>rr_next := n + 1\<rparr>))
     (if me then
        seqp (modify (\<lambda>s. s\<lparr>rr_beats := (rr_beats s)(n := Pending [])\<rparr>))
        (seqp (modify (\<lambda>s. s\<lparr>rr_pending_beats := rr_pending_beats s @ [n]\<rparr>))
        (seqp (proposer_schedule_next host) (ret n)))
      else seqp (modify (\<lambda>s. s\<lparr>rr_beats := (rr_beats s)(n := Fulfilled (rr_proposer s))\<rparr>)) (ret n))))"

text \<open>The vote goes to the proposer of the block; setting the proposer is not supported.\<close>

definition rr_beat_resp :: "replica_id \<Rightarrow> (replica_id \<Rightarrow> (rr_state, unit) prog) \<Rightarrow> (rr_state, unit) prog" where
  "rr_beat_resp last_proposer f = f last_proposer"

definition rr_get_pending_size :: "rr_state \<Rightarrow> nat" where
  "rr_get_pending_size s = length (rr_pending_beats s)"

definition rr_set_proposer :: "replica_id \<Rightarrow> (rr_state, unit) prog" where
  "rr_set_proposer r = ret ()"

text \<open>The continuations of \<open>reg_proposal\<close> and \<open>reg_receive_proposal\<close>, run for a proposal of block \<open>k\<close>: the core replaces
  its promise before it resolves the old one.\<close>

definition note_proposal :: "replica_id \<Rightarrow> u256 \<Rightarrow> (rr_state, unit) prog \<Rightarrow> (rr_state, unit) prog" where
  "note_proposal r k again =
     seqp (modify (\<lambda>s. if prop_blk s r = None then s\<lparr>prop_blk := (prop_blk s)(r \<mapsto> k)\<rparr> else s))
     (bindp (gets rotating) (\<lambda>rot. whenp rot again))"

definition rr_on_propose :: "host \<Rightarrow> u256 \<Rightarrow> (rr_state, unit) prog" where
  "rr_on_propose host k = bindp (gets rr_propose_waiting) (\<lambda>ws.
     seqp (modify (\<lambda>s. s\<lparr>rr_propose_waiting := []\<rparr>))
     (forp ws (\<lambda>w. case w of
        RegProposal \<Rightarrow> bindp (gets rr_id) (\<lambda>r. note_proposal r k rr_reg_proposal)
      | WaitPromise n \<Rightarrow> rr_resolve (rr_run host k) n)))"

definition rr_on_receive_proposal :: "replica_id \<Rightarrow> u256 \<Rightarrow> (rr_state, unit) prog" where
  "rr_on_receive_proposal r k = bindp (gets rr_receive_waiting) (\<lambda>c.
     seqp (modify (\<lambda>s. s\<lparr>rr_receive_waiting := 0\<rparr>))
     (forp [0..<c] (\<lambda>_. note_proposal r k rr_reg_receive_proposal)))"

definition rr_on_qc_finish :: "host \<Rightarrow> u256 \<Rightarrow> (rr_state, unit) prog" where
  "rr_on_qc_finish host k = bindp (gets (\<lambda>s. rr_qc_waiting s k)) (\<lambda>w. case w of
      None \<Rightarrow> ret ()
    | Some q \<Rightarrow> seqp (rr_resolve (rr_run host k) q) (modify (\<lambda>s. s\<lparr>rr_qc_waiting := (rr_qc_waiting s)(k := None)\<rparr>)))"

text \<open>A timer that fires is no longer armed.\<close>

definition fire_timer :: "host \<Rightarrow> (rr_state, unit) prog" where
  "fire_timer host = bindp (gets rr_timer) (\<lambda>t. case t of
      None \<Rightarrow> ret ()
    | Some (OnExpTimeout d) \<Rightarrow> seqp (modify (\<lambda>s. s\<lparr>rr_timer := None\<rparr>)) (on_exp_timeout host)
    | Some (RotateTimer d) \<Rightarrow> seqp (modify (\<lambda>s. s\<lparr>rr_timer := None\<rparr>)) rr_rotate)"

section \<open>Events\<close>

datatype rr_event = TimerFires | OwnProposal u256 | ReceivedProposal replica_id u256 | QcFinish u256
  | Committed u256 | Impeached | Beat | DeferredCall

fun rr_handle :: "host \<Rightarrow> rr_event \<Rightarrow> (rr_state, unit) prog" where
  "rr_handle host TimerFires = fire_timer host"
| "rr_handle host (OwnProposal k) = rr_on_propose host k"
| "rr_handle host (ReceivedProposal r k) = rr_on_receive_proposal r k"
| "rr_handle host (QcFinish k) = seqp (modify (\<lambda>s. s\<lparr>rr_certified := insert k (rr_certified s)\<rparr>)) (rr_on_qc_finish host k)"
| "rr_handle host (Committed k) = on_consensus k"
| "rr_handle host Impeached = impeach"
| "rr_handle host Beat = seqp (rr_beat host) (ret ())"
| "rr_handle host DeferredCall = bindp (gets rr_tcalls) (\<lambda>n. whenp (0 < n)
     (seqp (modify (\<lambda>s. s\<lparr>rr_tcalls := rr_tcalls s - 1\<rparr>)) (repropose host)))"

definition rr_events :: "host \<Rightarrow> rr_event list \<Rightarrow> rr_state \<Rightarrow> rr_state" where
  "rr_events host es s = fold (\<lambda>e s. snd (rr_handle host e s)) es s"

lemma rr_events_simps [simp]:
  "rr_events host [] s = s" "rr_events host (e # es) s = rr_events host es (snd (rr_handle host e s))"
  "rr_events host (es @ fs) s = rr_events host fs (rr_events host es s)"
  by (simp_all add: rr_events_def)

section \<open>What the replica must leave alone\<close>

text \<open>The role of the pace maker: everything that decides on rotation. Own proposals may be noted.\<close>

definition same_role :: "rr_state \<Rightarrow> rr_state \<Rightarrow> bool" where
  "same_role s t \<longleftrightarrow> rr_proposer t = rr_proposer s \<and> rr_timer t = rr_timer s \<and> exp_timeout t = exp_timeout s \<and>
     base_timeout t = base_timeout s \<and> prop_delay t = prop_delay s \<and> rotating t = rotating s \<and> rr_id t = rr_id s \<and>
     rr_nreplicas t = rr_nreplicas s \<and> (\<forall>r. r \<noteq> rr_id s \<longrightarrow> prop_blk t r = prop_blk s r)"

definition role_quiet :: "(rr_state, 'a) prog \<Rightarrow> bool" where
  "role_quiet m \<longleftrightarrow> (\<forall>s. wp m (\<lambda>_. same_role s) (\<lambda>_ _. False) s)"

named_theorems role_intros "programs that leave the role alone"

lemma same_role_refl [simp]: "same_role s s"
  by (simp add: same_role_def)

lemma same_role_trans: "same_role s t \<Longrightarrow> same_role t u \<Longrightarrow> same_role s u"
  by (simp add: same_role_def)

lemma role_quiet_bindp [role_intros]:
  assumes "role_quiet m" and "\<And>a. role_quiet (f a)"
  shows "role_quiet (bindp m f)"
  unfolding role_quiet_def wp_bindp
proof
  fix s
  have "wp (f a) (\<lambda>_. same_role s) (\<lambda>_ _. False) t" if "same_role s t" for a t
    by (rule wp_mono [OF assms(2) [unfolded role_quiet_def, rule_format]]) (auto intro: same_role_trans [OF that])
  then show "wp m (\<lambda>a. wp (f a) (\<lambda>_. same_role s) (\<lambda>_ _. False)) (\<lambda>_ _. False) s"
    by (intro wp_mono [OF assms(1) [unfolded role_quiet_def, rule_format]]) auto
qed

lemma role_quiet_seqp [role_intros]: "role_quiet m \<Longrightarrow> role_quiet n \<Longrightarrow> role_quiet (seqp m n)"
  unfolding seqp_def by (rule role_quiet_bindp)

lemma role_quiet_gets [role_intros]: "role_quiet (gets f)"
  by (simp add: role_quiet_def wp_simps)

lemma role_quiet_ret [role_intros]: "role_quiet (ret a)"
  by (simp add: role_quiet_def wp_simps)

lemma role_quiet_modify: "(\<And>s. same_role s (f s)) \<Longrightarrow> role_quiet (modify f)"
  by (simp add: role_quiet_def wp_simps)

lemma role_quiet_if [role_intros]: "(c \<Longrightarrow> role_quiet m) \<Longrightarrow> (\<not> c \<Longrightarrow> role_quiet n) \<Longrightarrow> role_quiet (if c then m else n)"
  by simp

lemma role_quiet_whenp [role_intros]: "role_quiet m \<Longrightarrow> role_quiet (whenp c m)"
  by (simp add: role_quiet_def wp_simps)

lemma role_quiet_forp [role_intros]: "(\<And>x. role_quiet (f x)) \<Longrightarrow> role_quiet (forp xs f)"
  by (induction xs) (simp_all add: role_intros)

lemma role_quiet_option [role_intros]:
  "role_quiet m \<Longrightarrow> (\<And>a. role_quiet (f a)) \<Longrightarrow> role_quiet (case x of None \<Rightarrow> m | Some a \<Rightarrow> f a)"
  by (simp split: option.split)

lemma role_quiet_promise [role_intros]:
  "(\<And>cs. role_quiet (f cs)) \<Longrightarrow> (\<And>v. role_quiet (g v)) \<Longrightarrow> role_quiet m \<Longrightarrow>
   role_quiet (case p of Pending cs \<Rightarrow> f cs | Fulfilled v \<Rightarrow> g v | Rejected \<Rightarrow> m)"
  by (simp split: promise.split)

lemma promise_role [role_intros]:
  "role_quiet (rr_new p)" "role_quiet (rr_reject pm)" "role_quiet (rr_async_qc_finish k)" "role_quiet rr_reg_proposal"
  "role_quiet rr_reg_receive_proposal" "role_quiet reject_all" "role_quiet proposer_update_last_proposed"
  unfolding rr_new_def rr_reject_def rr_async_qc_finish_def rr_reg_proposal_def rr_reg_receive_proposal_def reject_all_def
    proposer_update_last_proposed_def
  by (intro role_intros role_quiet_modify; simp add: same_role_def)+

lemma rr_then_role: "(\<And>cb. role_quiet (run cb)) \<Longrightarrow> role_quiet (rr_then run n cb)"
  unfolding rr_then_def by (intro role_intros role_quiet_modify) (simp_all add: same_role_def)

lemma rr_resolve_role: "(\<And>cb. role_quiet (run cb)) \<Longrightarrow> role_quiet (rr_resolve run n)"
  unfolding rr_resolve_def by (intro role_intros role_quiet_modify) (simp_all add: same_role_def)

lemma role_quietD: "role_quiet m \<Longrightarrow> wp m (\<lambda>_. same_role s) (\<lambda>_ _. False) s"
  by (simp add: role_quiet_def)

lemma role_quiet_snd: "role_quiet m \<Longrightarrow> same_role s (snd (m s))"
  using role_quietD [of m s] by (auto simp: wp_def split: prod.splits sum.splits)

text \<open>Two timers make one rotation: the first lets an elected proposer propose, the second rotates.\<close>

definition turn :: "rr_state \<Rightarrow> nat \<Rightarrow> rr_state \<Rightarrow> bool" where
  "turn s k t \<longleftrightarrow> rr_proposer t = of_nat ((unat (rr_proposer s) + k) mod rr_nreplicas s) \<and>
     exp_timeout t = 2 ^ k * exp_timeout s \<and> rr_nreplicas t = rr_nreplicas s \<and> rr_id t = rr_id s \<and>
     (\<exists>d. rr_timer t = Some (OnExpTimeout d))"

lemma rr_rotate_wp:
  assumes "0 < rr_nreplicas s"
  shows "wp rr_rotate (\<lambda>_ t. same_role (s\<lparr>prop_blk := Map.empty, rotating := True,
      rr_proposer := of_nat ((unat (rr_proposer s) + 1) mod rr_nreplicas s),
      rr_timer := Some (OnExpTimeout (exp_timeout s)), exp_timeout := exp_timeout s * 2\<rparr>) t \<and>
    (\<forall>r. prop_blk t r = None)) (\<lambda>_ _. False) s"
  using assms
  by (simp add: rr_rotate_def reject_all_def rr_reject_def rr_reg_proposal_def rr_reg_receive_proposal_def wp_simps
      same_role_def split: promise.split)

text \<open>A rotation whose timer has been deleted goes on only with a block of the current proposer.\<close>

definition waits_for :: "replica_id \<Rightarrow> rr_state \<Rightarrow> bool" where
  "waits_for p s \<longleftrightarrow> rotating s \<and> rr_proposer s = p \<and> rr_timer s = None \<and> rr_id s \<noteq> p \<and> prop_blk s p = None"

lemma waits_for_role: "waits_for p s \<Longrightarrow> same_role s t \<Longrightarrow> waits_for p t"
  by (auto simp: waits_for_def same_role_def)

lemma received_waits:
  assumes "waits_for p s" and "r \<noteq> p"
  shows "waits_for p (snd (rr_on_receive_proposal r k s))"
proof -
  have step: "wp (note_proposal r k rr_reg_receive_proposal) (\<lambda>_. waits_for p) (\<lambda>_ _. False) t" if "waits_for p t" for t
    using that assms(2) by (simp add: note_proposal_def rr_reg_receive_proposal_def wp_simps waits_for_def)
  have "waits_for p (s\<lparr>rr_receive_waiting := 0\<rparr>)" using assms(1) by (simp add: waits_for_def)
  then have "wp (forp [0..<rr_receive_waiting s] (\<lambda>_. note_proposal r k rr_reg_receive_proposal)) (\<lambda>_. waits_for p) (\<lambda>_ _. False)
      (s\<lparr>rr_receive_waiting := 0\<rparr>)"
    by (intro wp_forp [where I = "waits_for p"] step)
  then have "wp (rr_on_receive_proposal r k) (\<lambda>_. waits_for p) (\<lambda>_ _. False) s"
    by (simp add: rr_on_receive_proposal_def wp_bindp wp_gets wp_seqp wp_modify)
  then show ?thesis by (auto simp: wp_def split: prod.splits sum.splits)
qed

section \<open>The contract with the replica\<close>

text \<open>Proposing a block and running the continuation of a beat return and leave the role alone (in particular, no block
  is committed meanwhile).\<close>

locale pm_host =
  fixes host :: host
  assumes propose_role: "role_quiet (h_propose host cs ks vs)"
    and beat_role: "role_quiet (h_beat host i v)"
begin

lemma rr_resolve_beat_role: "role_quiet (rr_resolve_beat host n)"
  unfolding rr_resolve_beat_def by (intro role_intros role_quiet_modify beat_role) (simp_all add: same_role_def)

lemma schedule_next_role: "role_quiet (proposer_schedule_next host)"
  unfolding proposer_schedule_next_def
  by (intro role_intros role_quiet_modify rr_then_role rr_resolve_beat_role) (simp_all add: same_role_def)

lemma do_new_consensus_role: "role_quiet (do_new_consensus host x cs)"
proof (induction "4 - x" arbitrary: x cs rule: less_induct)
  case less
  show ?case
    unfolding do_new_consensus.simps [of host x cs]
    by (intro role_intros role_quiet_modify rr_then_role propose_role) (simp_all add: same_role_def less)
qed

lemma rr_run_role: "role_quiet (rr_run host k cb)"
  unfolding rr_run_def
  by (cases cb) (simp_all add: rr_resolve_beat_role do_new_consensus_role role_intros schedule_next_role role_quiet_modify same_role_def)

lemma on_propose_role: "role_quiet (rr_on_propose host k)"
proof -
  have "role_quiet (case w of RegProposal \<Rightarrow> bindp (gets rr_id) (\<lambda>r. note_proposal r k rr_reg_proposal)
      | WaitPromise n \<Rightarrow> rr_resolve (rr_run host k) n)" for w
  proof (cases w)
    case RegProposal
    have "wp (bindp (gets rr_id) (\<lambda>r. note_proposal r k rr_reg_proposal)) (\<lambda>_. same_role s) (\<lambda>_ _. False) s" for s
      by (simp add: note_proposal_def rr_reg_proposal_def wp_simps same_role_def)
    then show ?thesis using RegProposal by (simp add: role_quiet_def)
  next
    case (WaitPromise n)
    then show ?thesis by (simp add: rr_resolve_role rr_run_role)
  qed
  then show ?thesis
    unfolding rr_on_propose_def by (intro role_intros role_quiet_modify) (simp_all add: same_role_def)
qed

lemma on_qc_finish_role: "role_quiet (rr_on_qc_finish host k)"
  unfolding rr_on_qc_finish_def
  by (intro role_intros role_quiet_modify rr_resolve_role rr_run_role) (simp_all add: same_role_def)

lemma beat_role': "role_quiet (rr_beat host)"
  unfolding rr_beat_def by (intro role_intros role_quiet_modify schedule_next_role) (simp_all add: same_role_def)

lemma repropose_role: "role_quiet (repropose host)"
  unfolding repropose_def by (intro role_intros do_new_consensus_role)

lemma on_exp_timeout_wp:
  "wp (on_exp_timeout host) (\<lambda>_ t. same_role (s\<lparr>rr_timer := Some (RotateTimer (prop_delay s))\<rparr>) t) (\<lambda>_ _. False) s"
proof -
  have "wp (whenp c (do_new_consensus host 0 [])) (\<lambda>_. same_role s) (\<lambda>_ _. False) s" for c
    by (rule role_quietD) (intro role_intros do_new_consensus_role)
  then have "wp (whenp (rr_proposer s = rr_id s) (do_new_consensus host 0 []))
      (\<lambda>_ t. same_role (s\<lparr>rr_timer := Some (RotateTimer (prop_delay s))\<rparr>) (t\<lparr>rr_timer := Some (RotateTimer (prop_delay t))\<rparr>)) (\<lambda>_ _. False) s"
    by (rule wp_mono) (simp_all add: same_role_def)
  then show ?thesis
    by (simp only: on_exp_timeout_def wp_bindp wp_gets wp_seqp wp_modify [abs_def])
qed

lemma one_turn:
  assumes "turn s k t" and "0 < rr_nreplicas s" and "rr_nreplicas s \<le> 2 ^ 16" and "unat (rr_proposer s) < rr_nreplicas s"
  shows "turn s (Suc k) (rr_events host [TimerFires, TimerFires] t)"
proof -
  obtain d where d: "rr_timer t = Some (OnExpTimeout d)" using assms(1) by (auto simp: turn_def)
  let ?u = "snd (rr_handle host TimerFires t)"
  have "wp (rr_handle host TimerFires) (\<lambda>_ u. same_role (t\<lparr>rr_timer := Some (RotateTimer (prop_delay t))\<rparr>) u) (\<lambda>_ _. False) t"
    using on_exp_timeout_wp [of "t\<lparr>rr_timer := None\<rparr>"] by (simp add: fire_timer_def wp_simps d)
  then have u: "same_role (t\<lparr>rr_timer := Some (RotateTimer (prop_delay t))\<rparr>) ?u"
    by (auto simp: wp_def split: prod.splits sum.splits)
  let ?v = "snd (rr_handle host TimerFires ?u)"
  have n: "rr_nreplicas ?u = rr_nreplicas s" using u assms(1) by (simp add: same_role_def turn_def)
  have "rr_timer ?u = Some (RotateTimer (prop_delay t))" using u by (simp add: same_role_def)
  then have "wp (rr_handle host TimerFires) (\<lambda>_ v. rr_proposer v = of_nat ((unat (rr_proposer ?u) + 1) mod rr_nreplicas s) \<and>
      rr_timer v = Some (OnExpTimeout (exp_timeout ?u)) \<and> exp_timeout v = exp_timeout ?u * 2 \<and> rr_nreplicas v = rr_nreplicas s \<and>
      rr_id v = rr_id ?u) (\<lambda>_ _. False) ?u"
    using wp_mono [OF rr_rotate_wp [of "?u\<lparr>rr_timer := None\<rparr>"]] assms(2) n by (simp add: fire_timer_def wp_simps same_role_def)
  then have v: "rr_proposer ?v = of_nat ((unat (rr_proposer ?u) + 1) mod rr_nreplicas s)"
      "rr_timer ?v = Some (OnExpTimeout (exp_timeout ?u))" "exp_timeout ?v = exp_timeout ?u * 2" "rr_nreplicas ?v = rr_nreplicas s"
      "rr_id ?v = rr_id ?u"
    by (auto simp: wp_def split: prod.splits sum.splits)
  have p: "rr_proposer ?u = of_nat ((unat (rr_proposer s) + k) mod rr_nreplicas s)" "exp_timeout ?u = 2 ^ k * exp_timeout s" "rr_id ?u = rr_id s"
    using u assms(1) by (simp_all add: same_role_def turn_def)
  have "(unat (rr_proposer s) + k) mod rr_nreplicas s < 2 ^ 16"
    using assms(2,3) mod_less_divisor [of "rr_nreplicas s"] by (meson less_le_trans)
  then have "unat (rr_proposer ?u) = (unat (rr_proposer s) + k) mod rr_nreplicas s" unfolding p(1) by (simp add: unat_of_nat)
  then show ?thesis using v p by (simp add: turn_def mod_Suc_eq)
qed

lemma turns:
  assumes "rr_timer s = Some (OnExpTimeout d)" and "0 < rr_nreplicas s" and "rr_nreplicas s \<le> 2 ^ 16" and "unat (rr_proposer s) < rr_nreplicas s"
  shows "turn s k (rr_events host (replicate (2 * k) TimerFires) s)"
proof (induction k)
  case 0
  show ?case using assms(1,4) by (simp add: turn_def)
next
  case (Suc k)
  have "replicate (2 * Suc k) TimerFires = replicate (2 * k) TimerFires @ [TimerFires, TimerFires]"
    using replicate_add [of "2 * k" 2 TimerFires] by (simp add: numeral_2_eq_2)
  then show ?case using one_turn [OF Suc assms(2-4)] by simp
qed

lemma handle_waits:
  assumes w: "waits_for p s" and "\<And>k. e \<noteq> ReceivedProposal p k"
  shows "waits_for p (snd (rr_handle host e s))"
proof (cases e)
  case TimerFires
  then show ?thesis using w by (simp add: fire_timer_def prog_defs waits_for_def)
next
  case (OwnProposal k)
  then show ?thesis using waits_for_role [OF w role_quiet_snd [OF on_propose_role]] by simp
next
  case (ReceivedProposal r k)
  then show ?thesis using received_waits [OF w] assms(2) by auto
next
  case (QcFinish k)
  have "role_quiet (rr_handle host (QcFinish k))"
    unfolding rr_handle.simps by (intro role_intros role_quiet_modify on_qc_finish_role) (simp add: same_role_def)
  then show ?thesis using waits_for_role [OF w role_quiet_snd] QcFinish by simp
next
  case (Committed k)
  then show ?thesis using w by (simp add: on_consensus_def prog_defs waits_for_def)
next
  case Impeached
  then show ?thesis using w by (simp add: impeach_def prog_defs waits_for_def)
next
  case Beat
  have "role_quiet (rr_handle host Beat)"
    unfolding rr_handle.simps by (intro role_intros beat_role')
  then show ?thesis using waits_for_role [OF w role_quiet_snd] Beat by simp
next
  case DeferredCall
  have "role_quiet (rr_handle host DeferredCall)"
    unfolding rr_handle.simps by (intro role_intros role_quiet_modify repropose_role) (simp add: same_role_def)
  then show ?thesis using waits_for_role [OF w role_quiet_snd] DeferredCall by simp
qed

lemma events_wait:
  assumes "waits_for p s" and "\<forall>e \<in> set es. \<forall>k. e \<noteq> ReceivedProposal p k"
  shows "waits_for p (rr_events host es s)"
  using assms by (induction es arbitrary: s) (simp_all add: handle_waits del: rr_handle.simps)

end

section \<open>The core the pace maker sees\<close>

text \<open>Proposing a block names it and resolves the promise \<open>propose_waiting\<close>, which runs the continuations of the pace
  maker; a beat that is resolved with the own name proposes. As in \<open>HotStuff_Base\<close> the depth of re-entrance is bounded.\<close>

fun rr_core :: "nat \<Rightarrow> host" where
  "rr_core 0 = \<lparr>h_propose = (\<lambda>cs ks vs. gets rr_genesis), h_beat = (\<lambda>i v. ret ()), h_pending = (\<lambda>s. []), h_junk_vals = 0\<rparr>"
| "rr_core (Suc n) = \<lparr>
     h_propose = (\<lambda>cs ks vs. bindp (gets (\<lambda>s. rr_genesis s + of_nat (rr_next s))) (\<lambda>k.
        seqp (modify (\<lambda>s. s\<lparr>rr_next := rr_next s + 1\<rparr>)) (seqp (rr_on_propose (rr_core n) k) (ret k)))),
     h_beat = (\<lambda>i v. bindp (gets (\<lambda>s. v = rr_id s)) (\<lambda>me. whenp me
        (bindp (gets (\<lambda>s. rr_genesis s + of_nat (rr_next s))) (\<lambda>k.
         seqp (modify (\<lambda>s. s\<lparr>rr_next := rr_next s + 1\<rparr>)) (rr_on_propose (rr_core n) k))))),
     h_pending = (\<lambda>s. []), h_junk_vals = 0\<rparr>"

lemma rr_core_host: "pm_host (rr_core n)"
proof (induction n)
  case 0
  show ?case by unfold_locales (simp_all add: role_intros)
next
  case (Suc n)
  show ?case
    by unfold_locales
      (simp, intro role_intros role_quiet_modify pm_host.on_propose_role [OF Suc], simp add: same_role_def)+
qed

interpretation rc: pm_host "rr_core n" for n
  by (rule rr_core_host)

end
