(* ===== verification/Liveness_Properties.thy ===== *)
theory Liveness_Properties
  imports Round_Robin
begin

text \<open>Properties of the round-robin pace maker.\<close>

section \<open>Rotation\<close>




section \<open>A commit during rotation\<close>



end
