(* ===== verification/Hash_Table.thy ===== *)
theory Hash_Table
  imports Prelude
begin

text \<open>
  The chained hash table \<open>CTSL::HashMap\<close> (\<^verbatim>\<open>HashNode.h\<close>, \<^verbatim>\<open>HashBucket.h\<close>, \<^verbatim>\<open>HashMap.h\<close>). The nodes of all buckets
  live in one heap of numbered cells; a bucket is the pointer to its first node. Every operation holds
  the lock of its bucket from its first to its last instruction, so operations are atomic. Following a
  chain is a loop that need not end on an arbitrary heap, so the operations are partial: no value means
  that the loop does not return.
\<close>

section \<open>Data\<close>

record ('k, 'v) hash_node =
  hn_next :: "nat option"
  hn_key :: 'k
  hn_value :: 'v

type_synonym ('k, 'v) node_heap = "nat \<rightharpoonup> ('k, 'v) hash_node"

record ('k, 'v) hash_map =
  hm_nodes :: "('k, 'v) node_heap"
  hm_next :: nat
  hashTable :: "nat option list"

section \<open>Buckets\<close>

text \<open>The search loop of \<open>find\<close>, \<open>insert\<close> and \<open>erase\<close>: the previous node and the node with the key.\<close>

partial_function (option) seek ::
  "('k, 'v) node_heap \<Rightarrow> 'k \<Rightarrow> nat option \<Rightarrow> nat option \<Rightarrow> (nat option \<times> nat option) outcome" where
  "seek h key prev node = (case node of
      None \<Rightarrow> Some (Inr (prev, None))
    | Some a \<Rightarrow> (case h a of
          None \<Rightarrow> Some (Inl UndefinedBehaviour)
        | Some n \<Rightarrow> if hn_key n = key then Some (Inr (prev, Some a)) else seek h key (Some a) (hn_next n)))"

definition bucket_find :: "('k, 'v) node_heap \<Rightarrow> nat option \<Rightarrow> 'k \<Rightarrow> 'v option outcome" where
  "bucket_find h head key = obind (seek h key None head) (\<lambda>(prev, node). case node of
      None \<Rightarrow> Some (Inr None)
    | Some a \<Rightarrow> (case h a of None \<Rightarrow> Some (Inl UndefinedBehaviour) | Some n \<Rightarrow> Some (Inr (Some (hn_value n)))))"

text \<open>\<open>new\<close> gives the cell \<open>fresh\<close>.\<close>

definition bucket_insert ::
  "('k, 'v) node_heap \<Rightarrow> nat \<Rightarrow> nat option \<Rightarrow> 'k \<Rightarrow> 'v \<Rightarrow> (('k, 'v) node_heap \<times> nat \<times> nat option) outcome" where
  "bucket_insert h fresh head key value = obind (seek h key None head) (\<lambda>(prev, node). case node of
      None \<Rightarrow>
        let h' = h(fresh \<mapsto> \<lparr>hn_next = None, hn_key = key, hn_value = value\<rparr>) in
        (case head of
           None \<Rightarrow> Some (Inr (h', fresh + 1, Some fresh))
         | Some _ \<Rightarrow> (case prev of
             None \<Rightarrow> Some (Inl UndefinedBehaviour)
           | Some p \<Rightarrow> (case h' p of
               None \<Rightarrow> Some (Inl UndefinedBehaviour)
             | Some n \<Rightarrow> Some (Inr (h'(p \<mapsto> n\<lparr>hn_next := Some fresh\<rparr>), fresh + 1, head)))))
    | Some a \<Rightarrow> (case h a of
        None \<Rightarrow> Some (Inl UndefinedBehaviour)
      | Some n \<Rightarrow> Some (Inr (h(a \<mapsto> n\<lparr>hn_value := value\<rparr>), fresh, head))))"

definition bucket_erase ::
  "('k, 'v) node_heap \<Rightarrow> nat option \<Rightarrow> 'k \<Rightarrow> (('k, 'v) node_heap \<times> nat option) outcome" where
  "bucket_erase h head key = obind (seek h key None head) (\<lambda>(prev, node). case node of
      None \<Rightarrow> Some (Inr (h, head))
    | Some a \<Rightarrow> (case h a of
        None \<Rightarrow> Some (Inl UndefinedBehaviour)
      | Some n \<Rightarrow>
          if head = Some a then Some (Inr (h(a := None), hn_next n))
          else (case prev of
              None \<Rightarrow> Some (Inl UndefinedBehaviour)
            | Some p \<Rightarrow> (case h p of
                None \<Rightarrow> Some (Inl UndefinedBehaviour)
              | Some q \<Rightarrow> Some (Inr ((h(p \<mapsto> q\<lparr>hn_next := hn_next n\<rparr>))(a := None), head))))))"

partial_function (option) free_nodes :: "('k, 'v) node_heap \<Rightarrow> nat option \<Rightarrow> ('k, 'v) node_heap outcome" where
  "free_nodes h node = (case node of
      None \<Rightarrow> Some (Inr h)
    | Some a \<Rightarrow> (case h a of
          None \<Rightarrow> Some (Inl UndefinedBehaviour)
        | Some n \<Rightarrow> free_nodes (h(a := None)) (hn_next n)))"

definition bucket_clear :: "('k, 'v) node_heap \<Rightarrow> nat option \<Rightarrow> (('k, 'v) node_heap \<times> nat option) outcome" where
  "bucket_clear h head = obind (free_nodes h head) (\<lambda>h'. Some (Inr (h', None)))"

section \<open>The table\<close>

definition HASH_SIZE_DEFAULT :: nat where
  "HASH_SIZE_DEFAULT = 28607"

definition hash_map_new :: "nat \<Rightarrow> ('k, 'v) hash_map" where
  "hash_map_new n = \<lparr>hm_nodes = (\<lambda>_. None), hm_next = 0, hashTable = replicate n None\<rparr>"

text \<open>\<open>hashFn(key) % hashSize\<close>; the remainder by zero is undefined.\<close>

definition bucket_of :: "('k \<Rightarrow> u64) \<Rightarrow> 'k \<Rightarrow> ('k, 'v) hash_map \<Rightarrow> nat outcome" where
  "bucket_of hashFn key m = (if hashTable m = [] then Some (Inl UndefinedBehaviour)
     else Some (Inr (unat (hashFn key) mod length (hashTable m))))"

definition hm_find :: "('k \<Rightarrow> u64) \<Rightarrow> 'k \<Rightarrow> ('k, 'v) hash_map \<Rightarrow> 'v option outcome" where
  "hm_find hashFn key m = obind (bucket_of hashFn key m) (\<lambda>i. bucket_find (hm_nodes m) (hashTable m ! i) key)"

definition hm_insert :: "('k \<Rightarrow> u64) \<Rightarrow> 'k \<Rightarrow> 'v \<Rightarrow> ('k, 'v) hash_map \<Rightarrow> ('k, 'v) hash_map outcome" where
  "hm_insert hashFn key value m = obind (bucket_of hashFn key m) (\<lambda>i.
     obind (bucket_insert (hm_nodes m) (hm_next m) (hashTable m ! i) key value) (\<lambda>(h, n, head).
     Some (Inr \<lparr>hm_nodes = h, hm_next = n, hashTable = (hashTable m)[i := head]\<rparr>)))"

definition hm_erase :: "('k \<Rightarrow> u64) \<Rightarrow> 'k \<Rightarrow> ('k, 'v) hash_map \<Rightarrow> ('k, 'v) hash_map outcome" where
  "hm_erase hashFn key m = obind (bucket_of hashFn key m) (\<lambda>i.
     obind (bucket_erase (hm_nodes m) (hashTable m ! i) key) (\<lambda>(h, head).
     Some (Inr (m\<lparr>hm_nodes := h, hashTable := (hashTable m)[i := head]\<rparr>))))"

fun clear_buckets :: "('k, 'v) node_heap \<Rightarrow> nat option list \<Rightarrow> (('k, 'v) node_heap \<times> nat option list) outcome" where
  "clear_buckets h [] = Some (Inr (h, []))"
| "clear_buckets h (p # ps) = obind (bucket_clear h p) (\<lambda>(h', p').
     obind (clear_buckets h' ps) (\<lambda>(h'', ps'). Some (Inr (h'', p' # ps'))))"

definition hm_clear :: "('k, 'v) hash_map \<Rightarrow> ('k, 'v) hash_map outcome" where
  "hm_clear m = obind (clear_buckets (hm_nodes m) (hashTable m)) (\<lambda>(h, ps). Some (Inr (m\<lparr>hm_nodes := h, hashTable := ps\<rparr>)))"

section \<open>Chains\<close>

fun chain :: "('k, 'v) node_heap \<Rightarrow> nat option \<Rightarrow> nat list \<Rightarrow> bool" where
  "chain h p [] \<longleftrightarrow> p = None"
| "chain h p (a # as) \<longleftrightarrow> p = Some a \<and> (\<exists>n. h a = Some n \<and> chain h (hn_next n) as)"

definition key_at :: "('k, 'v) node_heap \<Rightarrow> nat \<Rightarrow> 'k" where
  "key_at h a = hn_key (the (h a))"

definition entries :: "('k, 'v) node_heap \<Rightarrow> nat list \<Rightarrow> ('k \<times> 'v) list" where
  "entries h as = map (\<lambda>a. (key_at h a, hn_value (the (h a)))) as"

lemma chain_dom: "chain h p as \<Longrightarrow> set as \<subseteq> dom h"
  by (induction as arbitrary: p) auto

lemma chain_cong: "(\<And>a. a \<in> set as \<Longrightarrow> h' a = h a) \<Longrightarrow> chain h' p as = chain h p as"
  by (induction as arbitrary: p) auto

lemma chain_keep: "a \<notin> set as \<Longrightarrow> chain (h(a := x)) p as = chain h p as"
  by (rule chain_cong) auto

lemma entries_cong: "(\<And>a. a \<in> set as \<Longrightarrow> h' a = h a) \<Longrightarrow> entries h' as = entries h as"
  by (simp add: entries_def key_at_def)

lemma entries_simps [simp]: "entries h [] = []" "entries h (a # as) = (key_at h a, hn_value (the (h a))) # entries h as"
  "entries h (as @ bs) = entries h as @ entries h bs"
  by (simp_all add: entries_def)

text \<open>The search loop ends and stops at the first node with the key.\<close>

lemma seek_hit:
  assumes "chain h p (as @ a # bs)" and "key \<notin> key_at h ` set as" and "key_at h a = key"
  shows "seek h key prev p = Some (Inr ((if as = [] then prev else Some (last as)), Some a))"
  using assms
proof (induction as arbitrary: p prev)
  case Nil
  then show ?case by (subst seek.simps) (auto simp: key_at_def)
next
  case (Cons x as)
  then obtain n where n: "p = Some x" "h x = Some n" "chain h (hn_next n) (as @ a # bs)" "hn_key n \<noteq> key"
    by (auto simp: key_at_def)
  then have "seek h key prev p = seek h key (Some x) (hn_next n)" by (subst seek.simps) simp
  then show ?case using Cons.IH [OF n(3)] Cons.prems by auto
qed

lemma seek_miss:
  assumes "chain h p as" and "key \<notin> key_at h ` set as"
  shows "seek h key prev p = Some (Inr ((if as = [] then prev else Some (last as)), None))"
  using assms
proof (induction as arbitrary: p prev)
  case Nil
  then show ?case by (subst seek.simps) simp
next
  case (Cons x as)
  then obtain n where n: "p = Some x" "h x = Some n" "chain h (hn_next n) as" "hn_key n \<noteq> key"
    by (auto simp: key_at_def)
  then have "seek h key prev p = seek h key (Some x) (hn_next n)" by (subst seek.simps) simp
  then show ?case using Cons.IH [OF n(3)] Cons.prems by auto
qed

lemma chain_split_last: "chain h p (as @ [a]) \<Longrightarrow> \<exists>n. h a = Some n \<and> hn_next n = None"
  by (induction as arbitrary: p) auto

lemma chain_append_new:
  assumes "chain h p (as @ [a])" and "h a = Some n" and "distinct (as @ [a])" and "f \<notin> set (as @ [a])"
  shows "chain ((h(f \<mapsto> x))(a \<mapsto> n\<lparr>hn_next := Some f\<rparr>)) p (as @ [a, f]) \<longleftrightarrow> hn_next x = None"
  using assms by (induction as arbitrary: p) auto

lemma chain_unlink:
  assumes "chain h p (as @ q # a # bs)" and "h q = Some m" and "h a = Some n" and "distinct (as @ q # a # bs)"
  shows "chain ((h(q \<mapsto> m\<lparr>hn_next := hn_next n\<rparr>))(a := None)) p (as @ q # bs)"
  using assms
proof (induction as arbitrary: p)
  case Nil
  then show ?case by (auto intro: chain_cong [THEN iffD2, rotated])
next
  case (Cons x as)
  then show ?case by auto
qed

lemma chain_set_value:
  assumes "chain h p as" and "h a = Some n"
  shows "chain (h(a \<mapsto> n\<lparr>hn_value := v\<rparr>)) p as"
  using assms by (induction as arbitrary: p) auto

lemma free_nodes_chain:
  assumes "chain h p as" and "distinct as"
  shows "free_nodes h p = Some (Inr (h |` (- set as)))"
  using assms
proof (induction as arbitrary: h p)
  case Nil
  then show ?case by (subst free_nodes.simps) (simp add: restrict_map_def)
next
  case (Cons a as)
  then obtain n where n: "p = Some a" "h a = Some n" "chain h (hn_next n) as" by auto
  then have "chain (h(a := None)) (hn_next n) as" using Cons.prems(2) by (simp add: chain_keep)
  then have "free_nodes (h(a := None)) (hn_next n) = Some (Inr ((h(a := None)) |` (- set as)))"
    by (rule Cons.IH) (use Cons.prems(2) in simp)
  moreover have "(h(a := None)) |` (- set as) = h |` (- set (a # as))"
    by (auto simp: restrict_map_def fun_eq_iff)
  ultimately show ?case using n by (subst free_nodes.simps) (simp only: option.case)
qed

section \<open>Layout\<close>

text \<open>\<open>ass\<close> lists the nodes of every bucket: each bucket is a chain of nodes with different keys that belong to
  it, and the nodes of the buckets are all the nodes there are.\<close>

definition hm_layout :: "('k \<Rightarrow> u64) \<Rightarrow> ('k, 'v) hash_map \<Rightarrow> nat list list \<Rightarrow> bool" where
  "hm_layout F m ass \<longleftrightarrow> length ass = length (hashTable m) \<and>
     (\<forall>i < length ass. chain (hm_nodes m) (hashTable m ! i) (ass ! i) \<and> distinct (map (key_at (hm_nodes m)) (ass ! i)) \<and>
        (\<forall>a \<in> set (ass ! i). unat (F (key_at (hm_nodes m) a)) mod length ass = i)) \<and>
     dom (hm_nodes m) = (\<Union>i < length ass. set (ass ! i)) \<and> (\<forall>a \<in> dom (hm_nodes m). a < hm_next m)"

definition hm_inv :: "('k \<Rightarrow> u64) \<Rightarrow> ('k, 'v) hash_map \<Rightarrow> bool" where
  "hm_inv F m \<longleftrightarrow> hashTable m \<noteq> [] \<and> (\<exists>ass. hm_layout F m ass)"

text \<open>What the table holds.\<close>

definition holds :: "('k, 'v) node_heap \<Rightarrow> 'k \<Rightarrow> 'v \<Rightarrow> bool" where
  "holds h k v \<longleftrightarrow> (\<exists>a n. h a = Some n \<and> hn_key n = k \<and> hn_value n = v)"

abbreviation stored :: "('k, 'v) hash_map \<Rightarrow> 'k \<Rightarrow> 'v \<Rightarrow> bool" where
  "stored m \<equiv> holds (hm_nodes m)"

lemma holds_upd: "holds (h(a \<mapsto> n)) k v \<longleftrightarrow> hn_key n = k \<and> hn_value n = v \<or> holds (h(a := None)) k v"
proof
  assume "holds (h(a \<mapsto> n)) k v"
  then obtain b c where "(h(a \<mapsto> n)) b = Some c" "hn_key c = k" "hn_value c = v" unfolding holds_def by blast
  then show "hn_key n = k \<and> hn_value n = v \<or> holds (h(a := None)) k v"
    unfolding holds_def by (cases "b = a") (auto intro!: exI [of _ b])
next
  assume "hn_key n = k \<and> hn_value n = v \<or> holds (h(a := None)) k v"
  then show "holds (h(a \<mapsto> n)) k v"
  proof
    assume "hn_key n = k \<and> hn_value n = v"
    then show ?thesis unfolding holds_def by (intro exI [of _ a] exI [of _ n]) simp
  next
    assume "holds (h(a := None)) k v"
    then obtain b c where "b \<noteq> a" "h b = Some c" "hn_key c = k" "hn_value c = v"
      unfolding holds_def by (metis fun_upd_apply option.distinct(1))
    then show ?thesis unfolding holds_def by (intro exI [of _ b] exI [of _ c]) simp
  qed
qed

lemma holds_del:
  assumes "h a = Some n" and "\<And>b c. h b = Some c \<Longrightarrow> hn_key c = hn_key n \<Longrightarrow> b = a"
  shows "holds (h(a := None)) k v \<longleftrightarrow> k \<noteq> hn_key n \<and> holds h k v"
proof
  assume "holds (h(a := None)) k v"
  then obtain b c where "b \<noteq> a" "h b = Some c" "hn_key c = k" "hn_value c = v"
    unfolding holds_def by (metis fun_upd_apply option.distinct(1))
  then show "k \<noteq> hn_key n \<and> holds h k v" using assms(2) unfolding holds_def by blast
next
  assume "k \<noteq> hn_key n \<and> holds h k v"
  then obtain b c where b: "k \<noteq> hn_key n" "h b = Some c" "hn_key c = k" "hn_value c = v" unfolding holds_def by blast
  then have "b \<noteq> a" using assms(1) by auto
  then show "holds (h(a := None)) k v" unfolding holds_def using b by (intro exI [of _ b] exI [of _ c]) simp
qed

lemma holds_same:
  assumes "h a = Some n" and "hn_key n' = hn_key n" and "hn_value n' = hn_value n"
  shows "holds (h(a \<mapsto> n')) = holds h"
proof (intro ext)
  fix k v
  have "holds (h(a \<mapsto> n')) k v \<longleftrightarrow> holds (h(a \<mapsto> n)) k v" unfolding holds_upd using assms by simp
  then show "holds (h(a \<mapsto> n')) k v = holds h k v" using assms(1) by (simp add: fun_upd_idem)
qed

lemma layoutD:
  assumes "hm_layout F m ass" and "i < length ass"
  shows "chain (hm_nodes m) (hashTable m ! i) (ass ! i)" "distinct (map (key_at (hm_nodes m)) (ass ! i))"
    "\<And>a. a \<in> set (ass ! i) \<Longrightarrow> unat (F (key_at (hm_nodes m) a)) mod length ass = i"
    "distinct (ass ! i)" "i < length (hashTable m)"
  using assms by (auto simp: hm_layout_def distinct_map)

lemma layout_node:
  assumes l: "hm_layout F m ass" and n: "hm_nodes m a = Some n"
  shows "a \<in> set (ass ! (unat (F (hn_key n)) mod length ass))" and "unat (F (hn_key n)) mod length ass < length ass" and "a < hm_next m"
proof -
  have "a \<in> dom (hm_nodes m)" using n by blast
  then obtain i where i: "i < length ass" "a \<in> set (ass ! i)" using l by (auto simp: hm_layout_def)
  then have "unat (F (hn_key n)) mod length ass = i" using layoutD(3) [OF l i(1) i(2)] n by (simp add: key_at_def)
  then show "a \<in> set (ass ! (unat (F (hn_key n)) mod length ass))" "unat (F (hn_key n)) mod length ass < length ass"
    using i by simp_all
  show "a < hm_next m" using l n by (auto simp: hm_layout_def)
qed

lemma layout_unique:
  assumes l: "hm_layout F m ass" and a: "hm_nodes m a = Some n" and b: "hm_nodes m b = Some n'" and k: "hn_key n = hn_key n'"
  shows "a = b"
proof -
  let ?i = "unat (F (hn_key n)) mod length ass"
  have "a \<in> set (ass ! ?i)" "b \<in> set (ass ! ?i)" "?i < length ass"
    using layout_node [OF l a] layout_node [OF l b] k by auto
  then show ?thesis using layoutD(2) [OF l, of ?i] a b k unfolding distinct_map inj_on_def key_at_def by force
qed

lemma layout_del:
  assumes l: "hm_layout F m ass" and a: "hm_nodes m a = Some n"
  shows "holds ((hm_nodes m)(a := None)) k v \<longleftrightarrow> k \<noteq> hn_key n \<and> stored m k v"
  by (rule holds_del [where h = "hm_nodes m", OF a]) (rule layout_unique [OF l _ a])

text \<open>The position of a key: in its bucket, or nowhere.\<close>

lemma layout_seek:
  assumes l: "hm_layout F m ass" and ne: "hashTable m \<noteq> []" and i: "i = unat (F key) mod length ass"
  obtains (hit) as a bs n where "ass ! i = as @ a # bs" "hm_nodes m a = Some n" "hn_key n = key"
      "seek (hm_nodes m) key None (hashTable m ! i) = Some (Inr ((if as = [] then None else Some (last as)), Some a))"
    | (miss) "key \<notin> key_at (hm_nodes m) ` set (ass ! i)" "\<And>v. \<not> stored m key v"
      "seek (hm_nodes m) key None (hashTable m ! i) = Some (Inr ((if ass ! i = [] then None else Some (last (ass ! i))), None))"
proof (cases "key \<in> key_at (hm_nodes m) ` set (ass ! i)")
  case True
  have il: "i < length ass" using l ne i by (simp add: hm_layout_def)
  obtain as a bs where as: "ass ! i = as @ a # bs" "key_at (hm_nodes m) a = key" "\<forall>x \<in> set as. key_at (hm_nodes m) x \<noteq> key"
    using True split_list_first_prop [of "ass ! i" "\<lambda>a. key_at (hm_nodes m) a = key"] by auto
  have ch: "chain (hm_nodes m) (hashTable m ! i) (as @ a # bs)" using layoutD(1) [OF l il] as(1) by simp
  then obtain n where n: "hm_nodes m a = Some n" using chain_dom by force
  have "seek (hm_nodes m) key None (hashTable m ! i) = Some (Inr ((if as = [] then None else Some (last as)), Some a))"
    by (rule seek_hit [OF ch _ as(2)]) (use as(3) in auto)
  then show ?thesis using hit [OF as(1) n] as(2) n by (simp add: key_at_def)
next
  case False
  have il: "i < length ass" using l ne i by (simp add: hm_layout_def)
  have "\<not> stored m key v" for v
    using layout_node(1) [OF l] False i by (force simp: holds_def key_at_def)
  then show ?thesis using miss [OF False] seek_miss [OF layoutD(1) [OF l il] False] by simp
qed

section \<open>The operations implement a map\<close>

lemma find_stored:
  assumes "hm_inv F m"
  obtains x where "hm_find F key m = Some (Inr x)" "\<And>v. x = Some v \<longleftrightarrow> stored m key v"
proof -
  obtain ass where l: "hm_layout F m ass" and ne: "hashTable m \<noteq> []" using assms by (auto simp: hm_inv_def)
  have len: "length ass = length (hashTable m)" using l by (simp add: hm_layout_def)
  from l ne refl show ?thesis
  proof (cases rule: layout_seek [where key = key])
    case (hit as a bs n)
    have "hn_value n = v \<longleftrightarrow> stored m key v" for v
      using layout_unique [OF l hit(2)] hit(2,3) by (force simp: holds_def)
    then show ?thesis using that [of "Some (hn_value n)"] hit ne len
      by (simp add: hm_find_def bucket_of_def bucket_find_def)
  next
    case miss
    then show ?thesis using that [of None] ne len by (simp add: hm_find_def bucket_of_def bucket_find_def)
  qed
qed

lemma layoutI:
  assumes "length ass = length (hashTable m)"
    and "\<And>i. i < length ass \<Longrightarrow> chain (hm_nodes m) (hashTable m ! i) (ass ! i) \<and> distinct (map (key_at (hm_nodes m)) (ass ! i)) \<and>
        (\<forall>a \<in> set (ass ! i). unat (F (key_at (hm_nodes m) a)) mod length ass = i)"
    and "dom (hm_nodes m) = (\<Union>i < length ass. set (ass ! i))" and "\<And>a. a \<in> dom (hm_nodes m) \<Longrightarrow> a < hm_next m"
  shows "hm_layout F m ass"
  using assms by (simp add: hm_layout_def)

text \<open>Buckets other than the one that changed.\<close>

lemma other_bucket:
  assumes l: "hm_layout F m ass" and j: "j < length ass" "i < length ass" "j \<noteq> i" and a: "a \<in> set (ass ! i)"
  shows "a \<notin> set (ass ! j)"
  using layoutD(3) [OF l j(1)] layoutD(3) [OF l j(2) a] j(3) by auto

lemma bucket_kept:
  assumes l: "hm_layout F m ass" and j: "j < length ass" and same: "\<And>a. a \<in> set (ass ! j) \<Longrightarrow> h a = hm_nodes m a"
  shows "chain h (hashTable m ! j) (ass ! j) \<and> distinct (map (key_at h) (ass ! j)) \<and>
     (\<forall>a \<in> set (ass ! j). unat (F (key_at h a)) mod length ass = j)"
proof -
  have k: "key_at h a = key_at (hm_nodes m) a" if "a \<in> set (ass ! j)" for a using same [OF that] by (simp add: key_at_def)
  then have "distinct (map (key_at h) (ass ! j))" using layoutD(2) [OF l j] by (simp cong: map_cong)
  moreover have "chain h (hashTable m ! j) (ass ! j)"
    using layoutD(1) [OF l j] chain_cong [of "ass ! j" h "hm_nodes m"] same by simp
  ultimately show ?thesis using layoutD(2,3) [OF l j] k by simp
qed

text \<open>Replacing one bucket: what has to be shown about the new table.\<close>

lemma layout_replace:
  assumes l: "hm_layout F m ass" and i: "i < length ass"
    and others: "\<And>j a. j < length ass \<Longrightarrow> j \<noteq> i \<Longrightarrow> a \<in> set (ass ! j) \<Longrightarrow> h a = hm_nodes m a"
    and new: "chain h p bs" "distinct (map (key_at h) bs)" "\<And>a. a \<in> set bs \<Longrightarrow> unat (F (key_at h a)) mod length ass = i"
    and d: "dom h = (dom (hm_nodes m) - set (ass ! i)) \<union> set bs" and lt: "\<And>a. a \<in> dom h \<Longrightarrow> a < nx"
  shows "hm_layout F \<lparr>hm_nodes = h, hm_next = nx, hashTable = (hashTable m)[i := p]\<rparr> (ass[i := bs])"
proof (rule layoutI)
  show "length (ass[i := bs]) = length (hashTable \<lparr>hm_nodes = h, hm_next = nx, hashTable = (hashTable m)[i := p]\<rparr>)"
    using l by (simp add: hm_layout_def)
  fix j assume j: "j < length (ass[i := bs])"
  show "chain (hm_nodes \<lparr>hm_nodes = h, hm_next = nx, hashTable = (hashTable m)[i := p]\<rparr>)
      (hashTable \<lparr>hm_nodes = h, hm_next = nx, hashTable = (hashTable m)[i := p]\<rparr> ! j) (ass[i := bs] ! j) \<and>
      distinct (map (key_at (hm_nodes \<lparr>hm_nodes = h, hm_next = nx, hashTable = (hashTable m)[i := p]\<rparr>)) (ass[i := bs] ! j)) \<and>
      (\<forall>a \<in> set (ass[i := bs] ! j). unat (F (key_at (hm_nodes \<lparr>hm_nodes = h, hm_next = nx, hashTable = (hashTable m)[i := p]\<rparr>) a))
        mod length (ass[i := bs]) = j)"
  proof (cases "j = i")
    case True
    then show ?thesis using new i layoutD(5) [OF l i] by simp
  next
    case False
    then show ?thesis using bucket_kept [OF l _ others, of j] j by simp
  qed
next
  have out: "set (ass ! j) \<inter> set (ass ! i) = {}" if "j < length ass" "j \<noteq> i" for j
    using other_bucket [OF l that(1) i that(2)] by blast
  have dm: "dom (hm_nodes m) = (\<Union>j < length ass. set (ass ! j))" using l by (simp add: hm_layout_def)
  have "(\<Union>j < length ass. set (ass[i := bs] ! j)) = (\<Union>j \<in> {..<length ass} - {i}. set (ass ! j)) \<union> set bs"
    using i by (auto simp: nth_list_update split: if_splits)
  also have "(\<Union>j \<in> {..<length ass} - {i}. set (ass ! j)) = dom (hm_nodes m) - set (ass ! i)"
    unfolding dm using out by (auto simp: disjoint_iff)
  finally show "dom (hm_nodes \<lparr>hm_nodes = h, hm_next = nx, hashTable = (hashTable m)[i := p]\<rparr>) =
      (\<Union>j < length (ass[i := bs]). set (ass[i := bs] ! j))" using d by simp
qed (use lt in simp)

lemma insert_stored:
  assumes "hm_inv F m"
  obtains t where "hm_insert F key value m = Some (Inr t)" "hm_inv F t"
    "\<And>k v. stored t k v \<longleftrightarrow> (if k = key then v = value else stored m k v)"
proof -
  obtain ass where l: "hm_layout F m ass" and ne: "hashTable m \<noteq> []" using assms by (auto simp: hm_inv_def)
  have len: "length ass = length (hashTable m)" using l by (simp add: hm_layout_def)
  define i where "i = unat (F key) mod length ass"
  have i: "i < length ass" using ne len by (simp add: i_def)
  let ?h = "hm_nodes m" and ?f = "hm_next m"
  have lt: "a < ?f" if "a \<in> dom ?h" for a using l that by (simp add: hm_layout_def)
  have dm: "set (ass ! j) \<subseteq> dom ?h" if "j < length ass" for j using chain_dom layoutD(1) [OF l that] by blast
  have conc: "\<exists>t. hm_insert F key value m = Some (Inr t) \<and> hm_inv F t \<and> (\<forall>k v. stored t k v \<longleftrightarrow> (if k = key then v = value else stored m k v))"
    if b: "bucket_insert ?h ?f (hashTable m ! i) key value = Some (Inr (h, nx, p))"
      and lay: "hm_layout F \<lparr>hm_nodes = h, hm_next = nx, hashTable = (hashTable m)[i := p]\<rparr> bss"
      and st: "\<And>k v. holds h k v \<longleftrightarrow> (if k = key then v = value else stored m k v)" for h nx p bss
    using ne len b lay st unfolding i_def
    by (auto simp: hm_insert_def bucket_of_def hm_inv_def)
  have "\<exists>t. hm_insert F key value m = Some (Inr t) \<and> hm_inv F t \<and> (\<forall>k v. stored t k v \<longleftrightarrow> (if k = key then v = value else stored m k v))"
    using l ne i_def
  proof (cases rule: layout_seek)
    case (hit as a bs n)
    let ?n = "n\<lparr>hn_value := value\<rparr>"
    have key: "key_at (?h(a \<mapsto> ?n)) = key_at ?h" using hit(2) by (auto simp: key_at_def)
    have lay: "hm_layout F \<lparr>hm_nodes = ?h(a \<mapsto> ?n), hm_next = ?f, hashTable = (hashTable m)[i := hashTable m ! i]\<rparr> (ass[i := ass ! i])"
    proof (rule layout_replace [OF l i])
      show "chain (?h(a \<mapsto> ?n)) (hashTable m ! i) (ass ! i)" by (rule chain_set_value [OF layoutD(1) [OF l i] hit(2)])
      show "distinct (map (key_at (?h(a \<mapsto> ?n))) (ass ! i))" unfolding key by (rule layoutD(2) [OF l i])
      show "\<And>b. b \<in> set (ass ! i) \<Longrightarrow> unat (F (key_at (?h(a \<mapsto> ?n)) b)) mod length ass = i"
        unfolding key by (rule layoutD(3) [OF l i])
      show "dom (?h(a \<mapsto> ?n)) = dom ?h - set (ass ! i) \<union> set (ass ! i)" using dm [OF i] hit(1,2) by auto
      show "\<And>j b. j < length ass \<Longrightarrow> j \<noteq> i \<Longrightarrow> b \<in> set (ass ! j) \<Longrightarrow> (?h(a \<mapsto> ?n)) b = ?h b"
        using other_bucket [OF l _ i, of _ a] hit(1) by auto
    qed (use lt hit(2) in auto)
    have st2: "holds (?h(a \<mapsto> ?n)) k v \<longleftrightarrow> (if k = key then v = value else stored m k v)" for k v
      unfolding holds_upd using layout_del [OF l hit(2), of k v] hit(3) by auto
    show ?thesis by (rule conc [OF _ lay st2]) (use hit in \<open>simp add: bucket_insert_def\<close>)
  next
    case miss
    let ?x = "\<lparr>hn_next = None, hn_key = key, hn_value = value\<rparr>"
    have nf: "?f \<notin> dom ?h" using lt by blast
    have lt': "a < Suc ?f" if "?h a = Some y" for a y using lt [of a] that by (auto intro: less_SucI)
    have key: "key_at (h) x = key_at ?h x" if "h x = ?h x" for h x using that by (simp add: key_at_def)
    show ?thesis
    proof (cases "ass ! i" rule: rev_cases)
      case Nil
      then have hd: "hashTable m ! i = None" using layoutD(1) [OF l i] by simp
      have lay: "hm_layout F \<lparr>hm_nodes = ?h(?f \<mapsto> ?x), hm_next = ?f + 1, hashTable = (hashTable m)[i := Some ?f]\<rparr> (ass[i := [?f]])"
      proof (rule layout_replace [OF l i])
        show "\<And>j a. j < length ass \<Longrightarrow> j \<noteq> i \<Longrightarrow> a \<in> set (ass ! j) \<Longrightarrow> (?h(?f \<mapsto> ?x)) a = ?h a"
          using dm nf by (auto split: if_splits)
      qed (use Nil i lt' nf in \<open>auto simp: key_at_def i_def\<close>)
      have st2: "holds (?h(?f \<mapsto> ?x)) k v \<longleftrightarrow> (if k = key then v = value else stored m k v)" for k v
        unfolding holds_upd using miss(2) nf by (auto simp: fun_upd_idem domIff)
      show ?thesis by (rule conc [OF _ lay st2]) (use miss(3) Nil hd in \<open>simp add: bucket_insert_def\<close>)
    next
      case (snoc as a)
      then obtain n where n: "?h a = Some n" "hn_next n = None" using chain_split_last layoutD(1) [OF l i] by metis
      have an: "a \<noteq> ?f" using nf n by auto
      let ?h' = "(?h(?f \<mapsto> ?x))(a \<mapsto> n\<lparr>hn_next := Some ?f\<rparr>)"
      have key': "key_at ?h' b = key_at ?h b" if "b \<noteq> ?f" for b using that n by (simp add: key_at_def)
      have fi: "?f \<notin> set (ass ! j)" if "j < length ass" for j using dm [OF that] nf by blast
      have lay: "hm_layout F \<lparr>hm_nodes = ?h', hm_next = ?f + 1, hashTable = (hashTable m)[i := hashTable m ! i]\<rparr> (ass[i := as @ [a, ?f]])"
      proof (rule layout_replace [OF l i])
        show "chain ?h' (hashTable m ! i) (as @ [a, ?f])"
          using chain_append_new [of ?h "hashTable m ! i" as a n ?f ?x] layoutD(1,4) [OF l i] snoc n fi [OF i] by simp
        have k0: "map (key_at ?h') (as @ [a, ?f]) = map (key_at ?h) (ass ! i) @ [key]"
        proof -
          have "map (key_at ?h') (as @ [a]) = map (key_at ?h) (as @ [a])"
          proof (rule map_cong [OF refl])
            fix b assume "b \<in> set (as @ [a])"
            then have "b \<noteq> ?f" using fi [OF i] snoc by auto
            then show "key_at ?h' b = key_at ?h b" by (rule key')
          qed
          then show ?thesis using snoc an by (simp add: key_at_def [of _ ?f])
        qed
        show "distinct (map (key_at ?h') (as @ [a, ?f]))"
          unfolding k0 using miss(1) layoutD(2) [OF l i] by auto
        show "unat (F (key_at ?h' b)) mod length ass = i" if "b \<in> set (as @ [a, ?f])" for b
        proof (cases "b = ?f")
          case True
          then show ?thesis using an by (simp add: key_at_def i_def)
        next
          case False
          then show ?thesis using layoutD(3) [OF l i, of b] that snoc key' by simp
        qed
        show "\<And>j b. j < length ass \<Longrightarrow> j \<noteq> i \<Longrightarrow> b \<in> set (ass ! j) \<Longrightarrow> ?h' b = ?h b"
          using fi other_bucket [OF l _ i, of _ a] snoc by auto
        show "dom ?h' = dom ?h - set (ass ! i) \<union> set (as @ [a, ?f])" using dm [OF i] snoc by auto
      qed (use lt' n in auto)
      have hd: "hashTable m ! i = Some (hd (as @ [a]))" using layoutD(1) [OF l i] snoc by (cases as) auto
      have st2: "holds ?h' k v \<longleftrightarrow> (if k = key then v = value else stored m k v)" for k v
      proof -
        have "holds ?h' = holds (?h(?f \<mapsto> ?x))" by (rule holds_same [of _ _ n]) (use n an in simp_all)
        moreover have "holds (?h(?f \<mapsto> ?x)) k v \<longleftrightarrow> (if k = key then v = value else stored m k v)"
          unfolding holds_upd using miss(2) nf by (auto simp: fun_upd_idem domIff)
        ultimately show ?thesis by simp
      qed
      show ?thesis by (rule conc [OF _ lay st2]) (use miss(3) snoc n an hd in \<open>simp add: bucket_insert_def\<close>)
    qed
  qed
  then show ?thesis using that by blast
qed

lemma erase_stored:
  assumes "hm_inv F m"
  obtains t where "hm_erase F key m = Some (Inr t)" "hm_inv F t" "\<And>k v. stored t k v \<longleftrightarrow> k \<noteq> key \<and> stored m k v"
proof -
  obtain ass where l: "hm_layout F m ass" and ne: "hashTable m \<noteq> []" using assms by (auto simp: hm_inv_def)
  have len: "length ass = length (hashTable m)" using l by (simp add: hm_layout_def)
  define i where "i = unat (F key) mod length ass"
  have i: "i < length ass" using ne len by (simp add: i_def)
  let ?h = "hm_nodes m" and ?f = "hm_next m"
  have lt: "a < ?f" if "?h a = Some n" for a n using l that by (auto simp: hm_layout_def)
  have dm: "set (ass ! i) \<subseteq> dom ?h" using chain_dom layoutD(1) [OF l i] by blast
  have conc: "\<exists>t. hm_erase F key m = Some (Inr t) \<and> hm_inv F t \<and> (\<forall>k v. stored t k v \<longleftrightarrow> k \<noteq> key \<and> stored m k v)"
    if b: "bucket_erase ?h (hashTable m ! i) key = Some (Inr (h, p))"
      and lay: "hm_layout F \<lparr>hm_nodes = h, hm_next = ?f, hashTable = (hashTable m)[i := p]\<rparr> bss"
      and st: "\<And>k v. holds h k v \<longleftrightarrow> k \<noteq> key \<and> stored m k v" for h p bss
  proof -
    have "m\<lparr>hm_nodes := h, hashTable := (hashTable m)[i := p]\<rparr> = \<lparr>hm_nodes = h, hm_next = ?f, hashTable = (hashTable m)[i := p]\<rparr>"
      by simp
    then have "hm_erase F key m = Some (Inr \<lparr>hm_nodes = h, hm_next = ?f, hashTable = (hashTable m)[i := p]\<rparr>)"
      using ne len b unfolding i_def by (simp add: hm_erase_def bucket_of_def)
    moreover have "hm_inv F \<lparr>hm_nodes = h, hm_next = ?f, hashTable = (hashTable m)[i := p]\<rparr>"
      using lay ne unfolding hm_inv_def by auto
    ultimately show ?thesis using st by (intro exI [of _ "\<lparr>hm_nodes = h, hm_next = ?f, hashTable = (hashTable m)[i := p]\<rparr>"]) simp
  qed
  have "\<exists>t. hm_erase F key m = Some (Inr t) \<and> hm_inv F t \<and> (\<forall>k v. stored t k v \<longleftrightarrow> k \<noteq> key \<and> stored m k v)"
    using l ne i_def
  proof (cases rule: layout_seek)
    case miss
    have lay: "hm_layout F \<lparr>hm_nodes = ?h, hm_next = ?f, hashTable = (hashTable m)[i := hashTable m ! i]\<rparr> ass"
      using l by (cases m) simp
    then show ?thesis by (rule conc [rotated]) (use miss in \<open>auto simp: bucket_erase_def\<close>)
  next
    case (hit as a bs n)
    have st: "holds (?h(a := None)) k v \<longleftrightarrow> k \<noteq> key \<and> stored m k v" for k v
      using layout_del [OF l hit(2), of k v] hit(3) by simp
    have ch: "chain ?h (hashTable m ! i) (as @ a # bs)" "distinct (as @ a # bs)"
      "distinct (map (key_at ?h) (as @ a # bs))" using layoutD(1,2,4) [OF l i] hit(1) by simp_all
    have out: "b \<notin> set (ass ! j)" if "j < length ass" "j \<noteq> i" "b \<in> set (as @ a # bs)" for j b
      using other_bucket [OF l that(1) i that(2)] that(3) hit(1) by simp
    show ?thesis
    proof (cases as rule: rev_cases)
      case Nil
      then have hd: "hashTable m ! i = Some a" "chain ?h (hn_next n) bs" using ch(1) hit(2) by auto
      have lay: "hm_layout F \<lparr>hm_nodes = ?h(a := None), hm_next = ?f, hashTable = (hashTable m)[i := hn_next n]\<rparr> (ass[i := bs])"
      proof (rule layout_replace [OF l i])
        have nb: "a \<notin> set bs" using ch(2) Nil by simp
        then show "chain (?h(a := None)) (hn_next n) bs" using hd(2) by (simp add: chain_keep)
        have key: "map (key_at (?h(a := None))) bs = map (key_at ?h) bs" using nb by (auto simp: key_at_def)
        show "distinct (map (key_at (?h(a := None))) bs)" unfolding key using ch(3) by simp
        show "unat (F (key_at (?h(a := None)) b)) mod length ass = i" if "b \<in> set bs" for b
          using layoutD(3) [OF l i, of b] hit(1) that nb by (auto simp: key_at_def)
        show "dom (?h(a := None)) = dom ?h - set (ass ! i) \<union> set bs" using dm hit(1) Nil nb by auto
        show "\<And>j b. j < length ass \<Longrightarrow> j \<noteq> i \<Longrightarrow> b \<in> set (ass ! j) \<Longrightarrow> (?h(a := None)) b = ?h b"
          using out [of _ a] by auto
      qed (use lt in \<open>auto split: if_splits\<close>)
      show ?thesis by (rule conc [OF _ lay st]) (use hit Nil hd in \<open>simp add: bucket_erase_def\<close>)
    next
      case (snoc cs q)
      have qd: "q \<in> dom ?h" using dm hit(1) snoc by auto
      then obtain m' where q: "?h q = Some m'" by blast
      have ne': "q \<noteq> a" "hashTable m ! i \<noteq> Some a" using ch(1,2) snoc by (cases cs; auto)+
      let ?h' = "(?h(q \<mapsto> m'\<lparr>hn_next := hn_next n\<rparr>))(a := None)"
      have lay: "hm_layout F \<lparr>hm_nodes = ?h', hm_next = ?f, hashTable = (hashTable m)[i := hashTable m ! i]\<rparr> (ass[i := as @ bs])"
      proof (rule layout_replace [OF l i])
        have nb: "a \<notin> set (as @ bs)" using ch(2) by simp
        show "chain ?h' (hashTable m ! i) (as @ bs)"
          using chain_unlink [of ?h "hashTable m ! i" cs q a bs m' n] ch(1,2) snoc q hit(2) by simp
        have key: "key_at ?h' b = key_at ?h b" if "b \<in> set (as @ bs)" for b using nb that q by (auto simp: key_at_def)
        have "map (key_at ?h') (as @ bs) = map (key_at ?h) (as @ bs)" by (rule map_cong [OF refl key])
        moreover have "distinct (map (key_at ?h) (as @ bs))" using ch(3) by simp
        ultimately show "distinct (map (key_at ?h') (as @ bs))" by (simp only:)
        show "unat (F (key_at ?h' b)) mod length ass = i" if "b \<in> set (as @ bs)" for b
          using layoutD(3) [OF l i, of b] hit(1) that key [OF that] by auto
        show "dom ?h' = dom ?h - set (ass ! i) \<union> set (as @ bs)" using dm hit(1) nb snoc by auto
        show "\<And>j b. j < length ass \<Longrightarrow> j \<noteq> i \<Longrightarrow> b \<in> set (ass ! j) \<Longrightarrow> ?h' b = ?h b"
          using out [of _ a] out [of _ q] snoc by auto
      qed (use lt q in \<open>auto split: if_splits\<close>)
      have st2: "holds ?h' k v \<longleftrightarrow> k \<noteq> key \<and> stored m k v" for k v
      proof -
        have "?h' = (?h(a := None))(q \<mapsto> m'\<lparr>hn_next := hn_next n\<rparr>)" using ne'(1) by (simp add: fun_upd_twist)
        moreover have "holds ((?h(a := None))(q \<mapsto> m'\<lparr>hn_next := hn_next n\<rparr>)) = holds (?h(a := None))"
          by (rule holds_same [of _ _ m']) (use q ne' in simp_all)
        ultimately show ?thesis using st by simp
      qed
      show ?thesis by (rule conc [OF _ lay st2]) (use hit snoc q ne' in \<open>simp add: bucket_erase_def\<close>)
    qed
  qed
  then show ?thesis using that by blast
qed

lemma clear_empties:
  assumes "hm_inv F m"
  obtains t where "hm_clear m = Some (Inr t)" "hm_inv F t" "hm_nodes t = (\<lambda>_. None)" "length (hashTable t) = length (hashTable m)"
proof -
  obtain ass where l: "hm_layout F m ass" and ne: "hashTable m \<noteq> []" using assms by (auto simp: hm_inv_def)
  have len: "length ass = length (hashTable m)" using l by (simp add: hm_layout_def)
  have run: "clear_buckets h ps = Some (Inr (h |` (- (\<Union>i < length ps. set (bss ! i))), replicate (length ps) None))"
    if "length bss = length ps" "\<And>i. i < length ps \<Longrightarrow> chain h (ps ! i) (bss ! i) \<and> distinct (bss ! i)"
      "\<And>i j. i < length ps \<Longrightarrow> j < length ps \<Longrightarrow> i \<noteq> j \<Longrightarrow> set (bss ! i) \<inter> set (bss ! j) = {}" for h :: "('a, 'b) node_heap" and ps bss
    using that
  proof (induction ps arbitrary: h bss)
    case Nil
    then show ?case by (simp add: restrict_map_def)
  next
    case (Cons p ps)
    then obtain as cs where bss: "bss = as # cs" by (cases bss) auto
    let ?h = "h |` (- set as)"
    have ca: "chain h p as" "distinct as" using Cons.prems(2) [of 0] bss by simp_all
    have dj: "set as \<inter> set (cs ! i) = {}" if "i < length ps" for i
      using Cons.prems(3) [of 0 "Suc i"] that bss by simp
    have "clear_buckets ?h ps = Some (Inr (?h |` (- (\<Union>i < length ps. set (cs ! i))), replicate (length ps) None))"
    proof (rule Cons.IH)
      show "length cs = length ps" using Cons.prems(1) bss by simp
      fix i assume i: "i < length ps"
      have "chain h (ps ! i) (cs ! i)" "distinct (cs ! i)" using Cons.prems(2) [of "Suc i"] i bss by simp_all
      moreover have "chain ?h (ps ! i) (cs ! i) = chain h (ps ! i) (cs ! i)"
        using dj [OF i] by (intro chain_cong) (auto simp: restrict_map_def)
      ultimately show "chain ?h (ps ! i) (cs ! i) \<and> distinct (cs ! i)" by simp
      fix j assume "j < length ps" "i \<noteq> j"
      then show "set (cs ! i) \<inter> set (cs ! j) = {}" using Cons.prems(3) [of "Suc i" "Suc j"] i bss by simp
    qed
    moreover have "?h |` (- (\<Union>i < length ps. set (cs ! i))) = h |` (- (\<Union>i < length (p # ps). set (bss ! i)))"
      by (auto simp: restrict_map_def fun_eq_iff bss lessThan_Suc_eq_insert_0)
    ultimately show ?case
      using free_nodes_chain [OF ca] by (simp add: bucket_clear_def)
  qed
  have "clear_buckets (hm_nodes m) (hashTable m) =
      Some (Inr (hm_nodes m |` (- (\<Union>i < length (hashTable m). set (ass ! i))), replicate (length (hashTable m)) None))"
  proof (rule run)
    show "length ass = length (hashTable m)" by (rule len)
    fix i assume i: "i < length (hashTable m)"
    then show "chain (hm_nodes m) (hashTable m ! i) (ass ! i) \<and> distinct (ass ! i)" using layoutD(1,4) [OF l] len by simp
    fix j assume "j < length (hashTable m)" "i \<noteq> j"
    then show "set (ass ! i) \<inter> set (ass ! j) = {}" using other_bucket [OF l, of j i] i len by auto
  qed
  moreover have "hm_nodes m |` (- (\<Union>i < length (hashTable m). set (ass ! i))) = (\<lambda>_. None)"
    using l unfolding hm_layout_def len [symmetric] by (auto simp: restrict_map_def fun_eq_iff domIff set_eq_iff)
  ultimately have c: "hm_clear m = Some (Inr (m\<lparr>hm_nodes := (\<lambda>_. None), hashTable := replicate (length (hashTable m)) None\<rparr>))"
    by (simp add: hm_clear_def)
  moreover have "hm_layout F (m\<lparr>hm_nodes := (\<lambda>_. None), hashTable := replicate (length (hashTable m)) None\<rparr>) (replicate (length (hashTable m)) [])"
    by (simp add: hm_layout_def)
  ultimately show ?thesis using that ne by (auto simp: hm_inv_def)
qed

lemma new_inv: "n \<noteq> 0 \<Longrightarrow> hm_inv F (hash_map_new n)"
  unfolding hm_inv_def by (intro conjI exI [of _ "replicate n []"]) (simp_all add: hash_map_new_def hm_layout_def)

section \<open>The interface of a key-value store\<close>

text \<open>Looking up is total; inserting and erasing are total, keep the invariant and change what is found under
  the given key only.\<close>

locale kv_store =
  fixes inv :: "'s \<Rightarrow> bool" and get :: "'k \<Rightarrow> 's \<Rightarrow> 'v option outcome"
    and put :: "'k \<Rightarrow> 'v \<Rightarrow> 's \<Rightarrow> 's outcome" and del :: "'k \<Rightarrow> 's \<Rightarrow> 's outcome"
  assumes get_total: "inv s \<Longrightarrow> \<exists>x. get k s = Some (Inr x)"
    and put_ok: "inv s \<Longrightarrow> \<exists>t. put k v s = Some (Inr t) \<and> inv t \<and> (\<forall>j. get j t = (if j = k then Some (Inr (Some v)) else get j s))"
    and del_ok: "inv s \<Longrightarrow> \<exists>t. del k s = Some (Inr t) \<and> inv t \<and> (\<forall>j. get j t = (if j = k then Some (Inr None) else get j s))"
begin

definition content :: "'s \<Rightarrow> 'k \<rightharpoonup> 'v" where
  "content s = (\<lambda>k. case get k s of Some (Inr x) \<Rightarrow> x | _ \<Rightarrow> None)"

lemma get_content: "inv s \<Longrightarrow> get k s = Some (Inr (content s k))"
  using get_total [of s k] by (auto simp: content_def)

lemma put_content:
  assumes "inv s"
  obtains t where "put k v s = Some (Inr t)" "inv t" "content t = (content s)(k \<mapsto> v)"
proof -
  obtain t where t: "put k v s = Some (Inr t)" "inv t" "\<And>j. get j t = (if j = k then Some (Inr (Some v)) else get j s)"
    using put_ok [OF assms] by blast
  then have "content t = (content s)(k \<mapsto> v)" by (auto simp: content_def)
  then show ?thesis using that t by blast
qed

lemma del_content:
  assumes "inv s"
  obtains t where "del k s = Some (Inr t)" "inv t" "content t = (content s)(k := None)"
proof -
  obtain t where t: "del k s = Some (Inr t)" "inv t" "\<And>j. get j t = (if j = k then Some (Inr None) else get j s)"
    using del_ok [OF assms] by blast
  then have "content t = (content s)(k := None)" by (auto simp: content_def)
  then show ?thesis using that t by blast
qed

end

lemma hm_find_eq:
  assumes "hm_inv F m" and "hm_inv F t" and "\<And>v. stored t k v \<longleftrightarrow> stored m k v"
  shows "hm_find F k t = hm_find F k m"
proof -
  obtain x where x: "hm_find F k m = Some (Inr x)" "\<And>v. x = Some v \<longleftrightarrow> stored m k v" by (rule find_stored [OF assms(1)]) blast
  obtain y where y: "hm_find F k t = Some (Inr y)" "\<And>v. y = Some v \<longleftrightarrow> stored t k v" by (rule find_stored [OF assms(2)]) blast
  have "x = y" using x(2) y(2) assms(3) by (metis option.exhaust)
  then show ?thesis using x y by simp
qed

lemma hm_find_put:
  assumes "hm_inv F t" and "\<And>v. stored t k v \<longleftrightarrow> v = w"
  shows "hm_find F k t = Some (Inr (Some w))"
  by (rule find_stored [OF assms(1), of k]) (use assms(2) in auto)

lemma hm_find_del:
  assumes "hm_inv F t" and "\<And>v. \<not> stored t k v"
  shows "hm_find F k t = Some (Inr None)"
proof -
  obtain y where y: "hm_find F k t = Some (Inr y)" "\<And>v. y = Some v \<longleftrightarrow> stored t k v" by (rule find_stored [OF assms(1)]) blast
  then show ?thesis using assms(2) by (cases y) auto
qed

interpretation hm: kv_store "hm_inv F" "hm_find F" "hm_insert F" "hm_erase F" for F :: "'k \<Rightarrow> u64"
proof
  fix s :: "('k, 'v) hash_map" and k :: 'k and v :: 'v
  assume inv: "hm_inv F s"
  show "\<exists>x. hm_find F k s = Some (Inr x)" by (rule find_stored [OF inv]) blast
  obtain t where t: "hm_insert F k v s = Some (Inr t)" "hm_inv F t" "\<And>j w. stored t j w \<longleftrightarrow> (if j = k then w = v else stored s j w)"
    by (rule insert_stored [OF inv]) blast
  then have "hm_find F j t = (if j = k then Some (Inr (Some v)) else hm_find F j s)" for j
    using hm_find_put [OF t(2)] hm_find_eq [OF inv t(2)] by simp
  then show "\<exists>t. hm_insert F k v s = Some (Inr t) \<and> hm_inv F t \<and> (\<forall>j. hm_find F j t = (if j = k then Some (Inr (Some v)) else hm_find F j s))"
    using t by blast
  obtain u where u: "hm_erase F k s = Some (Inr u)" "hm_inv F u" "\<And>j w. stored u j w \<longleftrightarrow> j \<noteq> k \<and> stored s j w"
    by (rule erase_stored [OF inv]) blast
  then have "hm_find F j u = (if j = k then Some (Inr None) else hm_find F j s)" for j
    using hm_find_del [OF u(2)] hm_find_eq [OF inv u(2)] by simp
  then show "\<exists>t. hm_erase F k s = Some (Inr t) \<and> hm_inv F t \<and> (\<forall>j. hm_find F j t = (if j = k then Some (Inr None) else hm_find F j s))"
    using u by blast
qed

end
