(* ===== verification/Database.thy ===== *)
theory Database
  imports Hash_Table Replica_State
begin

text \<open>
  The key-value database of the demo application: \<open>InMemoryDB\<close> (\<^verbatim>\<open>database.h\<close>, \<^verbatim>\<open>in_memory_db.cpp\<close>), named tables that are
  created on first use on top of the hash table, and \<open>db_read\<close>, \<open>db_write\<close> (\<^verbatim>\<open>hotstuff_app.cpp\<close>), which a replica calls
  to execute commands. The hash function of strings is a parameter.
\<close>

section \<open>Operations\<close>

text \<open>\<open>tables\<close> is what the pointer \<open>db\<close> points to: nothing before \<open>Open\<close> and after \<open>Close\<close>.\<close>

record mem_db =
  dbInstance :: string
  activeTable :: string
  tables :: "(string \<rightharpoonup> (string, string) hash_map) option"

definition mem_db_new :: mem_db where
  "mem_db_new = \<lparr>dbInstance = ''InMemory'', activeTable = [], tables = None\<rparr>"

definition Open :: "mem_db \<Rightarrow> int \<times> mem_db" where
  "Open d = (0, d\<lparr>tables := Some (\<lambda>_. None), activeTable := ''table1''\<rparr>)"

text \<open>\<^verbatim>\<open>(*db)[activeTable]\<close> inserts an empty table when there is none.\<close>

definition active :: "mem_db \<Rightarrow> (string, string) hash_map outcome" where
  "active d = (case tables d of
      None \<Rightarrow> Some (Inl UndefinedBehaviour)
    | Some ts \<Rightarrow> Some (Inr (case ts (activeTable d) of None \<Rightarrow> hash_map_new HASH_SIZE_DEFAULT | Some m \<Rightarrow> m)))"

definition set_active :: "(string, string) hash_map \<Rightarrow> mem_db \<Rightarrow> mem_db" where
  "set_active m d = d\<lparr>tables := map_option (\<lambda>ts. ts(activeTable d \<mapsto> m)) (tables d)\<rparr>"

definition Get :: "(string \<Rightarrow> u64) \<Rightarrow> string \<Rightarrow> mem_db \<Rightarrow> (string \<times> mem_db) outcome" where
  "Get F key d = obind (active d) (\<lambda>m. obind (hm_find F key m) (\<lambda>r.
     Some (Inr (case r of None \<Rightarrow> ''0'' | Some v \<Rightarrow> v, set_active m d))))"

definition Put :: "(string \<Rightarrow> u64) \<Rightarrow> string \<Rightarrow> string \<Rightarrow> mem_db \<Rightarrow> (string \<times> mem_db) outcome" where
  "Put F key value d = obind (active d) (\<lambda>m. obind (hm_insert F key value m) (\<lambda>m'. Some (Inr (''1'', set_active m' d))))"

definition Remove :: "(string \<Rightarrow> u64) \<Rightarrow> string \<Rightarrow> mem_db \<Rightarrow> mem_db outcome" where
  "Remove F key d = obind (active d) (\<lambda>m. obind (hm_erase F key m) (\<lambda>m'. Some (Inr (set_active m' d))))"

definition SelectTable :: "string \<Rightarrow> mem_db \<Rightarrow> int \<times> mem_db" where
  "SelectTable name d = (if name = activeTable d then (1, d) else (0, d\<lparr>activeTable := name\<rparr>))"

definition Close :: "mem_db \<Rightarrow> (int \<times> mem_db) outcome" where
  "Close d = (case tables d of None \<Rightarrow> Some (Inl UndefinedBehaviour) | Some ts \<Rightarrow> Some (Inr (0, d\<lparr>tables := None\<rparr>)))"

text \<open>\<open>std::to_string\<close> of an \<open>int\<close>.\<close>

definition digit :: "nat \<Rightarrow> char" where
  "digit n = char_of (48 + n)"

fun digits :: "nat \<Rightarrow> string" where
  "digits n = (if n < 10 then [digit n] else digits (n div 10) @ [digit (n mod 10)])"

declare digits.simps [simp del]

definition to_string :: "int \<Rightarrow> string" where
  "to_string i = (if i < 0 then CHR ''-'' # digits (nat (- i)) else digits (nat i))"

text \<open>\<open>db_write\<close> stores the constant 2, not the value of the command.\<close>

definition db_read :: "(string \<Rightarrow> u64) \<Rightarrow> i32 \<Rightarrow> mem_db \<Rightarrow> (string \<times> mem_db) outcome" where
  "db_read F key d = obind (Get F (to_string (sint key)) d) (\<lambda>(v, d'). Some (Inr (''READ'', d')))"

definition db_write :: "(string \<Rightarrow> u64) \<Rightarrow> i32 \<Rightarrow> i32 \<Rightarrow> mem_db \<Rightarrow> (string \<times> mem_db) outcome" where
  "db_write F key val d = obind (Put F (to_string (sint key)) (to_string 2) d) (\<lambda>(v, d'). Some (Inr (''UPDATE'', d')))"

section \<open>Decimal numbers\<close>

fun number :: "nat \<Rightarrow> string \<Rightarrow> nat" where
  "number a [] = a"
| "number a (c # cs) = number (10 * a + (of_char c - 48)) cs"

lemma number_append: "number a (cs @ [c]) = 10 * number a cs + (of_char c - 48)"
  by (induction cs arbitrary: a) simp_all

lemma digit_value: "n < 10 \<Longrightarrow> of_char (digit n) = 48 + n"
  by (simp add: digit_def)

lemma number_digits: "number 0 (digits n) = n"
proof (induction n rule: digits.induct)
  case (1 n)
  then show ?case
    by (subst digits.simps) (simp add: number_append digit_value)
qed

lemma digits_not_minus: "CHR ''-'' \<notin> set (digits n)"
proof (induction n rule: digits.induct)
  case (1 n)
  have "digit m \<noteq> CHR ''-''" if "m < 10" for m
  proof
    assume "digit m = CHR ''-''"
    then have "of_char (digit m) = (45 :: nat)" by simp
    then show False using digit_value [OF that] by simp
  qed
  then have "CHR ''-'' \<noteq> digit m" if "m < 10" for m using that by metis
  then show ?case using 1 by (subst digits.simps) simp
qed

lemma to_string_inj: "to_string i = to_string j \<longleftrightarrow> i = j"
proof
  have minus: "digits n \<noteq> CHR ''-'' # cs" "CHR ''-'' # cs \<noteq> digits n" for n cs
    using digits_not_minus [of n] by (metis list.set_intros(1))+
  have eq: "digits n = digits m \<longleftrightarrow> n = m" for n m using number_digits by metis
  assume "to_string i = to_string j"
  then show "i = j" by (cases "i < 0"; cases "j < 0") (simp_all add: to_string_def eq minus)
qed simp

section \<open>Abstract database\<close>

text \<open>Tables of strings; every table exists and is empty at first.\<close>

type_synonym abs_db = "string \<times> (string \<Rightarrow> string \<rightharpoonup> string)"

datatype db_op = OpGet string | OpPut string string | OpRemove string | OpSelect string

datatype db_answer = AnsString string | AnsInt int | AnsNone

definition db_step :: "(string \<Rightarrow> u64) \<Rightarrow> db_op \<Rightarrow> mem_db \<Rightarrow> (db_answer \<times> mem_db) outcome" where
  "db_step F p d = (case p of
      OpGet k \<Rightarrow> obind (Get F k d) (\<lambda>(v, d'). Some (Inr (AnsString v, d')))
    | OpPut k v \<Rightarrow> obind (Put F k v d) (\<lambda>(r, d'). Some (Inr (AnsString r, d')))
    | OpRemove k \<Rightarrow> obind (Remove F k d) (\<lambda>d'. Some (Inr (AnsNone, d')))
    | OpSelect n \<Rightarrow> (case SelectTable n d of (r, d') \<Rightarrow> Some (Inr (AnsInt r, d'))))"

fun db_run :: "(string \<Rightarrow> u64) \<Rightarrow> db_op list \<Rightarrow> mem_db \<Rightarrow> (db_answer list \<times> mem_db) outcome" where
  "db_run F [] d = Some (Inr ([], d))"
| "db_run F (p # ps) d = obind (db_step F p d) (\<lambda>(r, d'). obind (db_run F ps d') (\<lambda>(rs, d''). Some (Inr (r # rs, d''))))"

definition spec_step :: "db_op \<Rightarrow> abs_db \<Rightarrow> db_answer \<times> abs_db" where
  "spec_step p = (\<lambda>(cur, ts). case p of
      OpGet k \<Rightarrow> (AnsString (case ts cur k of None \<Rightarrow> ''0'' | Some v \<Rightarrow> v), cur, ts)
    | OpPut k v \<Rightarrow> (AnsString ''1'', cur, ts(cur := (ts cur)(k \<mapsto> v)))
    | OpRemove k \<Rightarrow> (AnsNone, cur, ts(cur := (ts cur)(k := None)))
    | OpSelect n \<Rightarrow> (AnsInt (if n = cur then 1 else 0), n, ts))"

fun spec_run :: "db_op list \<Rightarrow> abs_db \<Rightarrow> db_answer list \<times> abs_db" where
  "spec_run [] a = ([], a)"
| "spec_run (p # ps) a = (case spec_step p a of (r, a') \<Rightarrow> (case spec_run ps a' of (rs, a'') \<Rightarrow> (r # rs, a'')))"

definition table_content :: "(string \<Rightarrow> u64) \<Rightarrow> (string, string) hash_map option \<Rightarrow> string \<rightharpoonup> string" where
  "table_content F x = (case x of None \<Rightarrow> (\<lambda>_. None) | Some m \<Rightarrow> hm.content F m)"

definition abs_of :: "(string \<Rightarrow> u64) \<Rightarrow> mem_db \<Rightarrow> abs_db" where
  "abs_of F d = (activeTable d, (\<lambda>t. case tables d of None \<Rightarrow> (\<lambda>_. None) | Some ts \<Rightarrow> table_content F (ts t)))"

definition db_ok :: "(string \<Rightarrow> u64) \<Rightarrow> mem_db \<Rightarrow> bool" where
  "db_ok F d \<longleftrightarrow> (\<exists>ts. tables d = Some ts \<and> (\<forall>t m. ts t = Some m \<longrightarrow> hm_inv F m))"

lemma active_ok:
  assumes "db_ok F d"
  obtains m where "active d = Some (Inr m)" "hm_inv F m" "hm.content F m = snd (abs_of F d) (activeTable d)"
proof -
  obtain ts where ts: "tables d = Some ts" "\<And>t m. ts t = Some m \<Longrightarrow> hm_inv F m" using assms by (auto simp: db_ok_def)
  have new: "hm_inv F (hash_map_new HASH_SIZE_DEFAULT :: (string, string) hash_map)" by (rule new_inv) (simp add: HASH_SIZE_DEFAULT_def)
  have "hm_find F k (hash_map_new HASH_SIZE_DEFAULT :: (string, string) hash_map) = Some (Inr None)" for k
    by (rule hm_find_del [OF new]) (simp add: hash_map_new_def holds_def)
  then have "hm.content F (hash_map_new HASH_SIZE_DEFAULT :: (string, string) hash_map) = (\<lambda>_. None)" by (simp add: hm.content_def)
  then show ?thesis
    using that ts new by (cases "ts (activeTable d)") (auto simp: active_def abs_of_def table_content_def)
qed

lemma set_active_ok:
  assumes "db_ok F d" and "hm_inv F m"
  shows "db_ok F (set_active m d)" "abs_of F (set_active m d) = (activeTable d, (snd (abs_of F d))(activeTable d := hm.content F m))"
proof -
  obtain ts where ts: "tables d = Some ts" "\<And>t m. ts t = Some m \<Longrightarrow> hm_inv F m" using assms(1) by (auto simp: db_ok_def)
  show "db_ok F (set_active m d)" using ts assms(2) by (auto simp: db_ok_def set_active_def)
  show "abs_of F (set_active m d) = (activeTable d, (snd (abs_of F d))(activeTable d := hm.content F m))"
    using ts(1) by (auto simp: abs_of_def set_active_def table_content_def)
qed

lemma db_step_simulates:
  assumes "db_ok F d"
  shows "\<exists>d'. db_step F p d = Some (Inr (fst (spec_step p (abs_of F d)), d')) \<and> db_ok F d' \<and> abs_of F d' = snd (spec_step p (abs_of F d))"
proof -
  obtain m where m: "active d = Some (Inr m)" "hm_inv F m" "hm.content F m = snd (abs_of F d) (activeTable d)"
    by (rule active_ok [OF assms])
  have cur: "fst (abs_of F d) = activeTable d" by (simp add: abs_of_def)
  show ?thesis
  proof (cases p)
    case (OpGet k)
    then show ?thesis
      using m hm.get_content [OF m(2), of k] set_active_ok [OF assms m(2)] cur
      by (cases "abs_of F d") (auto simp: db_step_def Get_def spec_step_def)
  next
    case (OpPut k v)
    obtain t where t: "hm_insert F k v m = Some (Inr t)" "hm_inv F t" "hm.content F t = (hm.content F m)(k \<mapsto> v)"
      by (rule hm.put_content [OF m(2)])
    then show ?thesis
      using OpPut m set_active_ok [OF assms t(2)] cur by (cases "abs_of F d") (auto simp: db_step_def Put_def spec_step_def)
  next
    case (OpRemove k)
    obtain t where t: "hm_erase F k m = Some (Inr t)" "hm_inv F t" "hm.content F t = (hm.content F m)(k := None)"
      by (rule hm.del_content [OF m(2)])
    then show ?thesis
      using OpRemove m set_active_ok [OF assms t(2)] cur by (cases "abs_of F d") (auto simp: db_step_def Remove_def spec_step_def)
  next
    case (OpSelect n)
    then show ?thesis using assms by (auto simp: db_step_def SelectTable_def spec_step_def abs_of_def db_ok_def)
  qed
qed

lemma db_run_simulates:
  assumes "db_ok F d"
  shows "\<exists>d'. db_run F ps d = Some (Inr (fst (spec_run ps (abs_of F d)), d')) \<and> db_ok F d' \<and> abs_of F d' = snd (spec_run ps (abs_of F d))"
  using assms
proof (induction ps arbitrary: d)
  case (Cons p ps)
  obtain d1 where d1: "db_step F p d = Some (Inr (fst (spec_step p (abs_of F d)), d1))" "db_ok F d1" "abs_of F d1 = snd (spec_step p (abs_of F d))"
    using db_step_simulates [OF Cons.prems] by blast
  then show ?case using Cons.IH [OF d1(2)] by (auto split: prod.splits)
qed simp

lemma open_ok: "db_ok F (snd (Open d))" "abs_of F (snd (Open d)) = (''table1'', (\<lambda>t k. None))"
  by (auto simp: Open_def db_ok_def abs_of_def table_content_def)

section \<open>Executing the writes of a replica\<close>

fun run_writes :: "(string \<Rightarrow> u64) \<Rightarrow> action list \<Rightarrow> mem_db \<Rightarrow> mem_db outcome" where
  "run_writes F [] d = Some (Inr d)"
| "run_writes F (DbWrite key val # as) d = obind (db_write F key val d) (\<lambda>(r, d'). run_writes F as d')"
| "run_writes F (a # as) d = run_writes F as d"

lemma db_write_step:
  assumes "db_ok F d"
  obtains d' where "db_write F key val d = Some (Inr (''UPDATE'', d'))" "db_ok F d'"
    "abs_of F d' = snd (spec_step (OpPut (to_string (sint key)) (to_string 2)) (abs_of F d))"
proof -
  obtain d' where d': "db_step F (OpPut (to_string (sint key)) (to_string 2)) d =
      Some (Inr (fst (spec_step (OpPut (to_string (sint key)) (to_string 2)) (abs_of F d)), d'))" "db_ok F d'"
      "abs_of F d' = snd (spec_step (OpPut (to_string (sint key)) (to_string 2)) (abs_of F d))"
    using db_step_simulates [OF assms] by blast
  obtain m where m: "active d = Some (Inr m)" "hm_inv F m" by (rule active_ok [OF assms])
  obtain t where "hm_insert F (to_string (sint key)) (to_string 2) m = Some (Inr t)" by (rule hm.put_content [OF m(2)])
  then show ?thesis using that d' m by (auto simp: db_step_def db_write_def Put_def)
qed

fun written :: "action list \<Rightarrow> string set" where
  "written [] = {}"
| "written (DbWrite key val # as) = insert (to_string (sint key)) (written as)"
| "written (a # as) = written as"

lemma in_written: "x \<in> written as \<longleftrightarrow> (\<exists>key val. DbWrite key val \<in> set as \<and> x = to_string (sint key))"
  by (induction as rule: written.induct) auto

lemma run_writes_content:
  assumes "db_ok F d"
  shows "\<exists>d'. run_writes F as d = Some (Inr d') \<and> db_ok F d' \<and> activeTable d' = activeTable d \<and>
    (\<forall>j. snd (abs_of F d') (activeTable d) j =
      (if j \<in> written as then Some (to_string 2) else snd (abs_of F d) (activeTable d) j))"
  using assms
proof (induction as arbitrary: d)
  case Nil
  then show ?case by simp
next
  case (Cons a as)
  show ?case
  proof (cases a)
    case (DbWrite key val)
    obtain d1 where d1: "db_write F key val d = Some (Inr (''UPDATE'', d1))" "db_ok F d1"
      "abs_of F d1 = snd (spec_step (OpPut (to_string (sint key)) (to_string 2)) (abs_of F d))"
      by (rule db_write_step [OF Cons.prems])
    have cur: "activeTable d1 = activeTable d" "snd (abs_of F d1) (activeTable d) = (snd (abs_of F d) (activeTable d))(to_string (sint key) \<mapsto> to_string 2)"
      using d1(3) by (auto simp: spec_step_def abs_of_def)
    then show ?thesis using Cons.IH [OF d1(2)] d1(1) DbWrite by auto
  qed (use Cons.IH [OF Cons.prems] in \<open>auto\<close>)
qed

end
