(* ===== verification/Store_Properties.thy ===== *)
theory Store_Properties
  imports Database
begin

text \<open>Properties of the hash table and of the database of the application.\<close>

text \<open>(C29) On a well-formed table every operation ends without undefined behaviour and keeps the table well formed:
  a lookup after an insertion or erasure sees the change at the given key and nothing else, and clearing frees every
  node.\<close>

theorem hash_table_is_map:
  assumes "hm_inv F m"
  shows "(\<exists>x. hm_find F k m = Some (Inr x)) \<and>
    (\<exists>t. hm_insert F k v m = Some (Inr t) \<and> hm_inv F t \<and>
       (\<forall>j. hm_find F j t = (if j = k then Some (Inr (Some v)) else hm_find F j m))) \<and>
    (\<exists>t. hm_erase F k m = Some (Inr t) \<and> hm_inv F t \<and>
       (\<forall>j. hm_find F j t = (if j = k then Some (Inr None) else hm_find F j m))) \<and>
    (\<exists>t. hm_clear m = Some (Inr t) \<and> hm_inv F t \<and> hm_nodes t = (\<lambda>_. None) \<and> (\<forall>j. hm_find F j t = Some (Inr None)))"
proof (intro conjI)
  obtain t where t: "hm_clear m = Some (Inr t)" "hm_inv F t" "hm_nodes t = (\<lambda>_. None)"
    by (rule clear_empties [OF assms])
  moreover have "hm_find F j t = Some (Inr None)" for j by (rule hm_find_del [OF t(2)]) (simp add: holds_def t(3))
  ultimately show "\<exists>t. hm_clear m = Some (Inr t) \<and> hm_inv F t \<and> hm_nodes t = (\<lambda>_. None) \<and> (\<forall>j. hm_find F j t = Some (Inr None))"
    by blast
qed (rule hm.get_total [OF assms] hm.put_ok [OF assms] hm.del_ok [OF assms])+

theorem hash_table_is_map_witness:
  "\<exists>t. hm_insert (\<lambda>k. k) 5 ''a'' (hash_map_new 3) = Some (Inr t) \<and> hm_find (\<lambda>k. k) 5 t = Some (Inr (Some ''a''))"
  using hash_table_is_map [OF new_inv [of 3 "\<lambda>k :: u64. k"], of 5 "''a''"] by auto


text \<open>Executing the outputs of a replica on the opened database succeeds, and afterwards every key that was
  written holds the string 2, whatever value the command carried; keys not written are absent.\<close>

theorem db_write_constant:
  "\<exists>d' m. run_writes F as (snd (Open d)) = Some (Inr d') \<and> active d' = Some (Inr m) \<and>
     (\<forall>j. hm_find F j m = Some (Inr (if \<exists>key val. DbWrite key val \<in> set as \<and> j = to_string (sint key) then Some ''2'' else None)))"
proof -
  let ?d = "snd (Open d)"
  obtain d' where d': "run_writes F as ?d = Some (Inr d')" "db_ok F d'" "activeTable d' = activeTable ?d"
      "\<And>j. snd (abs_of F d') (activeTable ?d) j = (if j \<in> written as then Some (to_string 2) else snd (abs_of F ?d) (activeTable ?d) j)"
    using run_writes_content [OF open_ok(1), of F as d] by blast
  obtain m where m: "active d' = Some (Inr m)" "hm_inv F m" "hm.content F m = snd (abs_of F d') (activeTable d')"
    by (rule active_ok [OF d'(2)])
  have two: "to_string 2 = ''2''" by code_simp
  have "hm_find F j m = Some (Inr (if \<exists>key val. DbWrite key val \<in> set as \<and> j = to_string (sint key) then Some ''2'' else None))" for j
    using hm.get_content [OF m(2), of j] m(3) d'(3,4) open_ok(2) [of F d] two by (auto simp: in_written)
  then show ?thesis using d'(1) m(1) by blast
qed

end
