(* ===== verification/Framing.thy ===== *)
theory Framing
  imports Data_Stream Blob_Bits
begin

text \<open>
  Framing of messages on a byte channel: the segmented receive buffer \<open>SegBuffer\<close> (\<^verbatim>\<open>salticidae/buffer.h\<close>) and the
  message header \<open>MsgBase\<close> (\<^verbatim>\<open>salticidae/msg.h\<close>). An iterator into a segment is its distance from the
  beginning. SHA-1 is a parameter: the 20 bytes that \<open>SHA1_Final\<close> writes, as a number in memory order.
\<close>

section \<open>SegBuffer\<close>

record buffer_entry =
  be_data :: "byte list"
  be_offset :: nat

record seg_buffer =
  sb_buffer :: "buffer_entry list"
  sb_size :: nat

definition entry_new :: "byte list \<Rightarrow> buffer_entry" where
  "entry_new d = \<lparr>be_data = d, be_offset = 0\<rparr>"

definition entry_length :: "buffer_entry \<Rightarrow> nat" where
  "entry_length i = length (be_data i) - be_offset i"

definition sb_new :: seg_buffer where
  "sb_new = \<lparr>sb_buffer = [], sb_size = 0\<rparr>"

text \<open>\<open>_size\<close> is a \<open>size_t\<close>: additions and subtractions wrap.\<close>

definition size_add :: "nat \<Rightarrow> nat \<Rightarrow> nat" where
  "size_add a b = (a + b) mod 2 ^ 64"

definition size_sub :: "nat \<Rightarrow> nat \<Rightarrow> nat" where
  "size_sub a b = nat ((int a - int b) mod 2 ^ 64)"

definition sb_rewind :: "byte list \<Rightarrow> seg_buffer \<Rightarrow> seg_buffer" where
  "sb_rewind d s = s\<lparr>sb_size := size_add (sb_size s) (length d), sb_buffer := entry_new d # sb_buffer s\<rparr>"

definition sb_push :: "byte list \<Rightarrow> seg_buffer \<Rightarrow> seg_buffer" where
  "sb_push d s = s\<lparr>sb_size := size_add (sb_size s) (length d), sb_buffer := sb_buffer s @ [entry_new d]\<rparr>"

definition sb_move_pop :: "seg_buffer \<Rightarrow> err + byte list \<times> seg_buffer" where
  "sb_move_pop s = (case sb_buffer s of
      [] \<Rightarrow> Inl UndefinedBehaviour
    | i # is \<Rightarrow> Inr (be_data i, s\<lparr>sb_buffer := is, sb_size := size_sub (sb_size s) (length (be_data i))\<rparr>))"

text \<open>The loop of \<open>pop\<close>: the bytes copied, and the entries from the iterator on.\<close>

fun pop_loop :: "nat \<Rightarrow> buffer_entry list \<Rightarrow> byte list \<times> buffer_entry list" where
  "pop_loop len [] = ([], [])"
| "pop_loop len (i # is) =
    (if len = 0 then ([], i # is)
     else
       let copy_len = min (entry_length i) len;
           bytes = take copy_len (drop (be_offset i) (be_data i));
           i' = i\<lparr>be_offset := be_offset i + copy_len\<rparr>
       in if be_offset i' = length (be_data i)
          then let (r, is') = pop_loop (len - copy_len) is in (bytes @ r, is')
          else (bytes, i' # is))"

definition sb_pop :: "nat \<Rightarrow> seg_buffer \<Rightarrow> byte list \<times> seg_buffer" where
  "sb_pop len s = (let (res, is) = pop_loop len (sb_buffer s)
     in (res, s\<lparr>sb_buffer := is, sb_size := size_sub (sb_size s) (length res)\<rparr>))"

definition sb_len :: "seg_buffer \<Rightarrow> nat" where
  "sb_len s = length (sb_buffer s)"

definition sb_empty :: "seg_buffer \<Rightarrow> bool" where
  "sb_empty s = (sb_buffer s = [])"

definition sb_clear :: "seg_buffer \<Rightarrow> seg_buffer" where
  "sb_clear s = s\<lparr>sb_buffer := [], sb_size := 0\<rparr>"

text \<open>When the loop leaves an entry with bytes left, nothing is left to copy: the loop ends there in the code too.\<close>

lemma pop_loop_stops:
  assumes "be_offset i \<le> length (be_data i)" and "be_offset i + min (entry_length i) len \<noteq> length (be_data i)"
  shows "len - min (entry_length i) len = 0"
  using assms by (auto simp: entry_length_def min_def split: if_splits)

section \<open>Content of the buffer\<close>

definition entry_bytes :: "buffer_entry \<Rightarrow> byte list" where
  "entry_bytes i = drop (be_offset i) (be_data i)"

definition sb_bytes :: "seg_buffer \<Rightarrow> byte list" where
  "sb_bytes s = concat (map entry_bytes (sb_buffer s))"

definition sb_ok :: "seg_buffer \<Rightarrow> bool" where
  "sb_ok s \<longleftrightarrow> (\<forall>i \<in> set (sb_buffer s). be_offset i \<le> length (be_data i)) \<and>
     sb_size s = length (sb_bytes s) \<and> length (sb_bytes s) < 2 ^ 64"

lemma sb_new_ok: "sb_ok sb_new" "sb_bytes sb_new = []"
  by (simp_all add: sb_ok_def sb_new_def sb_bytes_def)

lemma sb_push_ok:
  assumes "sb_ok s" and "length (sb_bytes s) + length d < 2 ^ 64"
  shows "sb_ok (sb_push d s) \<and> sb_bytes (sb_push d s) = sb_bytes s @ d"
  using assms by (auto simp: sb_ok_def sb_push_def sb_bytes_def entry_bytes_def entry_new_def size_add_def)

lemma sb_rewind_ok:
  assumes "sb_ok s" and "length (sb_bytes s) + length d < 2 ^ 64"
  shows "sb_ok (sb_rewind d s) \<and> sb_bytes (sb_rewind d s) = d @ sb_bytes s"
  using assms by (auto simp: sb_ok_def sb_rewind_def sb_bytes_def entry_bytes_def entry_new_def size_add_def)

lemma pop_loop_bytes:
  assumes "\<forall>i \<in> set is. be_offset i \<le> length (be_data i)"
  shows "fst (pop_loop len is) = take len (concat (map entry_bytes is)) \<and>
    concat (map entry_bytes (snd (pop_loop len is))) = drop len (concat (map entry_bytes is)) \<and>
    (\<forall>i \<in> set (snd (pop_loop len is)). be_offset i \<le> length (be_data i)) \<and> length (snd (pop_loop len is)) \<le> length is"
  using assms
proof (induction len "is" rule: pop_loop.induct)
  case (2 len i "is")
  let ?c = "min (entry_length i) len"
  have off: "be_offset i \<le> length (be_data i)" using "2.prems" by simp
  show ?case
  proof (cases "len = 0 \<or> be_offset i + ?c \<noteq> length (be_data i)")
    case True
    then show ?thesis using "2.prems" off
      by (auto simp: Let_def entry_bytes_def entry_length_def min_def add.commute split: if_splits)
  next
    case False
    have c: "?c = length (entry_bytes i)" "?c \<le> len" using False off by (auto simp: entry_bytes_def entry_length_def min_def split: if_splits)
    have IH: "fst (pop_loop (len - ?c) is) = take (len - ?c) (concat (map entry_bytes is)) \<and>
        concat (map entry_bytes (snd (pop_loop (len - ?c) is))) = drop (len - ?c) (concat (map entry_bytes is)) \<and>
        (\<forall>i \<in> set (snd (pop_loop (len - ?c) is)). be_offset i \<le> length (be_data i)) \<and> length (snd (pop_loop (len - ?c) is)) \<le> length is"
      using "2.IH" [OF _ refl refl refl] False "2.prems" by simp
    have "take ?c (drop (be_offset i) (be_data i)) = entry_bytes i"
      using c(1) by (simp add: entry_bytes_def)
    then have "pop_loop len (i # is) = (entry_bytes i @ fst (pop_loop (len - ?c) is), snd (pop_loop (len - ?c) is))"
      using False by (simp add: Let_def split: prod.splits)
    then show ?thesis using IH c by simp
  qed
qed simp

lemma sb_pop_ok:
  assumes "sb_ok s"
  shows "fst (sb_pop len s) = take len (sb_bytes s) \<and> sb_bytes (snd (sb_pop len s)) = drop len (sb_bytes s) \<and> sb_ok (snd (sb_pop len s))"
proof -
  have p: "fst (pop_loop len (sb_buffer s)) = take len (sb_bytes s)"
    "concat (map entry_bytes (snd (pop_loop len (sb_buffer s)))) = drop len (sb_bytes s)"
    "\<forall>i \<in> set (snd (pop_loop len (sb_buffer s))). be_offset i \<le> length (be_data i)"
    using pop_loop_bytes [of "sb_buffer s" len] assms by (auto simp: sb_ok_def sb_bytes_def)
  have "size_sub (sb_size s) (length (take len (sb_bytes s))) = length (drop len (sb_bytes s))"
    using assms by (auto simp: sb_ok_def size_sub_def min_def nat_diff_distrib)
  then have "size_sub (sb_size s) (length (fst (pop_loop len (sb_buffer s)))) =
      length (concat (map entry_bytes (snd (pop_loop len (sb_buffer s)))))"
    unfolding p(1,2) .
  moreover have "length (drop len (sb_bytes s)) < 2 ^ 64" using assms by (auto simp: sb_ok_def)
  ultimately show ?thesis
    using p by (cases "pop_loop len (sb_buffer s)") (simp add: sb_pop_def sb_ok_def sb_bytes_def)
qed

section \<open>MsgBase\<close>

record msg =
  magic :: u32
  opcode :: byte
  msg_length :: u32
  checksum :: u32
  payload :: "byte list"
  no_payload :: bool

type_synonym sha1 = "byte list \<Rightarrow> 160 word"

definition header_size :: nat where
  "header_size = 13"

text \<open>\<open>digest\<close> gives a buffer of 32 bytes of which SHA-1 fills the first 20; the checksum is the first four.\<close>

definition sha1_digest :: "sha1 \<Rightarrow> byte list \<Rightarrow> byte list" where
  "sha1_digest sha1 p = to_le 20 (sha1 p) @ replicate 12 0"

definition get_checksum :: "sha1 \<Rightarrow> msg \<Rightarrow> err + u32" where
  "get_checksum sha1 m = (if no_payload m then Inl PayloadNotAvailable
     else Inr (from_le (take 4 (sha1_digest sha1 (payload m)))))"

definition set_checksum :: "sha1 \<Rightarrow> msg \<Rightarrow> err + msg" where
  "set_checksum sha1 m = ebind (get_checksum sha1 m) (\<lambda>c. Inr (m\<lparr>checksum := c\<rparr>))"

definition verify_checksum :: "sha1 \<Rightarrow> msg \<Rightarrow> err + bool" where
  "verify_checksum sha1 m = ebind (get_checksum sha1 m) (\<lambda>c. Inr (checksum m = c))"

definition set_payload :: "byte list \<Rightarrow> msg \<Rightarrow> msg" where
  "set_payload p m = m\<lparr>payload := p, no_payload := False, msg_length := of_nat (length p)\<rparr>"

definition get_payload :: "msg \<Rightarrow> err + data_stream \<times> msg" where
  "get_payload m = (if no_payload m then Inl PayloadNotAvailable
     else Inr (ds_of_bytes (payload m), m\<lparr>no_payload := True, payload := []\<rparr>))"

text \<open>The message of an opcode and a serialised body. The constructor assigns every field but the checksum
  first.\<close>

definition msg_of :: "sha1 \<Rightarrow> byte \<Rightarrow> byte list \<Rightarrow> u32 \<Rightarrow> err + msg" where
  "msg_of sha1 op body mag = set_checksum sha1 (set_payload body
     \<lparr>magic = mag, opcode = op, msg_length = 0, checksum = 0, payload = [], no_payload = True\<rparr>)"

definition msg_parse :: "(data_stream, msg) prog" where
  "msg_parse = bindp (get_int 4) (\<lambda>mag. bindp (get_int 1) (\<lambda>op. bindp (get_int 4) (\<lambda>len. bindp (get_int 4) (\<lambda>sum.
     ret \<lparr>magic = mag, opcode = op, msg_length = len, checksum = sum, payload = [], no_payload = True\<rparr>))))"

definition msg_header :: "msg \<Rightarrow> byte list" where
  "msg_header m = to_le 4 (magic m) @ to_le 1 (opcode m) @ to_le 4 (msg_length m) @ to_le 4 (checksum m)"

definition msg_serialize :: "msg \<Rightarrow> byte list" where
  "msg_serialize m = msg_header m @ payload m"

text \<open>A message as its sender builds it, and what its header alone says.\<close>

definition msg_wf :: "sha1 \<Rightarrow> msg \<Rightarrow> bool" where
  "msg_wf sha1 m \<longleftrightarrow> \<not> no_payload m \<and> length (payload m) < 2 ^ 32 \<and> msg_length m = of_nat (length (payload m)) \<and>
     get_checksum sha1 m = Inr (checksum m)"

definition header_only :: "msg \<Rightarrow> msg" where
  "header_only m = m\<lparr>payload := [], no_payload := True\<rparr>"

lemma msg_of_wf:
  assumes "length body < 2 ^ 32"
  shows "\<exists>m. msg_of sha1 op body mag = Inr m \<and> msg_wf sha1 m \<and> payload m = body \<and> opcode m = op \<and> magic m = mag"
  using assms by (auto simp: msg_of_def set_checksum_def get_checksum_def set_payload_def msg_wf_def)

lemma length_header [simp]: "length (msg_header m) = header_size"
  by (simp add: msg_header_def header_size_def)

lemma msg_parse_header: "msg_parse (ds_of_bytes (msg_header m)) = (Inr (header_only m), \<lparr>buffer = msg_header m, offset = header_size\<rparr>)"
proof -
  have "reads msg_parse (to_le 4 (magic m) @ to_le 1 (opcode m) @ to_le 4 (msg_length m) @ to_le 4 (checksum m) @ []) (header_only m)"
    unfolding msg_parse_def
    by (rule reads_bindp [where x = "magic m"], (rule reads_get_int; simp), rule reads_bindp [where x = "opcode m"],
        (rule reads_get_int; simp), rule reads_bindp [where x = "msg_length m"], (rule reads_get_int; simp),
        rule reads_bindp [where x = "checksum m"], (rule reads_get_int; simp))
      (simp add: header_only_def reads_def ret_def)
  then have "reads msg_parse (msg_header m) (header_only m)" by (simp add: msg_header_def)
  from reads_written [OF this] show ?thesis by (simp add: put_data_def ds_new_def ds_of_bytes_def)
qed

lemma msg_wf_length: "msg_wf sha1 m \<Longrightarrow> unat (msg_length m) = length (payload m)"
  by (simp add: msg_wf_def unat_of_nat take_bit_nat_eq_self)

lemma set_payload_header: "msg_wf sha1 m \<Longrightarrow> set_payload (payload m) (header_only m) = m"
  by (cases m) (simp add: msg_wf_def set_payload_def header_only_def)

lemma msg_wf_verify: "msg_wf sha1 m \<Longrightarrow> verify_checksum sha1 m = Inr True"
  by (simp add: msg_wf_def verify_checksum_def)

end
