(* ===== verification/Queue.thy ===== *)
theory Queue
  imports Prelude
begin

text \<open>
  The block-linked queue of \<^verbatim>\<open>salticidae/include/salticidae/queue.h\<close>, on which the send buffers, the queue of
  incoming messages and the client queue rest, and its event-driven wrapper of \<^verbatim>\<open>event.h\<close>. Blocks live in a heap of
  numbered cells; a block is in the chain from \<open>q_head\<close> (by \<open>Block::next\<close>) or in the free list from
  \<open>q_top\<close> (by \<open>Node::next\<close>). Every operation runs alone: a compare-and-exchange succeeds, because every failure
  path of the code undoes its reference count and tries again. Waiting for another thread never
  ends in such a run and is the outcome without a value. Indices stay at most \<open>MPMCQ_SIZE\<close>, so the 32-bit
  counters of the code are naturals here.
\<close>

section \<open>Data\<close>

definition MPMCQ_SIZE :: nat where
  "MPMCQ_SIZE = 16384"

record 'a qblock =
  nd_next :: "nat option"
  refcnt :: u64
  freed :: bool
  qb_head :: nat
  qb_tail :: nat
  qb_elem :: "nat \<rightharpoonup> 'a"
  qb_avail :: "nat \<Rightarrow> bool"
  qb_next :: "nat option"

record 'a mpsc_queue =
  q_blocks :: "nat \<rightharpoonup> 'a qblock"
  q_fresh :: nat
  q_top :: "nat option"
  q_head :: nat
  q_tail :: nat

text \<open>The constructor of a block leaves \<open>head\<close>, \<open>tail\<close> and \<open>next\<close> uninitialised; every user assigns
  them first.\<close>

definition qblock_new :: "'a qblock" where
  "qblock_new = \<lparr>nd_next = None, refcnt = 1, freed = False, qb_head = 0, qb_tail = 0, qb_elem = (\<lambda>_. None),
     qb_avail = (\<lambda>_. False), qb_next = None\<rparr>"

definition mpmc_new :: "'a mpsc_queue" where
  "mpmc_new = \<lparr>q_blocks = [0 \<mapsto> qblock_new], q_fresh = 1, q_top = None, q_head = 0, q_tail = 0\<rparr>"

definition block_at :: "nat \<Rightarrow> 'a mpsc_queue \<Rightarrow> 'a qblock outcome" where
  "block_at a q = (case q_blocks q a of None \<Rightarrow> Some (Inl UndefinedBehaviour) | Some b \<Rightarrow> Some (Inr b))"

definition put :: "nat \<Rightarrow> 'a qblock \<Rightarrow> 'a mpsc_queue \<Rightarrow> 'a mpsc_queue" where
  "put a b q = q\<lparr>q_blocks := (q_blocks q)(a \<mapsto> b)\<rparr>"

definition alloc :: "'a mpsc_queue \<Rightarrow> nat \<times> 'a mpsc_queue" where
  "alloc q = (q_fresh q, (put (q_fresh q) qblock_new q)\<lparr>q_fresh := q_fresh q + 1\<rparr>)"

section \<open>The free list\<close>

definition release_ref :: "nat \<Rightarrow> 'a mpsc_queue \<Rightarrow> 'a mpsc_queue outcome" where
  "release_ref u q = obind (block_at u q) (\<lambda>b.
     if refcnt b \<noteq> 1 then Some (Inr (put u (b\<lparr>refcnt := refcnt b - 1\<rparr>) q))
     else Some (Inr ((put u (b\<lparr>nd_next := q_top q, refcnt := 1\<rparr>) q)\<lparr>q_top := Some u\<rparr>)))"

definition free_push :: "nat \<Rightarrow> 'a mpsc_queue \<Rightarrow> 'a mpsc_queue outcome" where
  "free_push u q = obind (block_at u q) (\<lambda>b. release_ref u (put u (b\<lparr>freed := True\<rparr>) q))"

partial_function (option) free_pop :: "'a mpsc_queue \<Rightarrow> (nat option \<times> 'a mpsc_queue) outcome" where
  "free_pop q = (case q_top q of
      None \<Rightarrow> Some (Inr (None, q))
    | Some u \<Rightarrow> obind (block_at u q) (\<lambda>b.
        if refcnt b = 0 then free_pop q
        else obind (release_ref u ((put u (b\<lparr>refcnt := refcnt b + 1\<rparr>) q)\<lparr>q_top := nd_next b\<rparr>))
          (\<lambda>q'. Some (Inr (Some u, q')))))"

section \<open>The queue\<close>

text \<open>Linking the block \<open>n\<close> behind the full tail block \<open>t\<close>.\<close>

definition link_block :: "nat \<Rightarrow> nat \<Rightarrow> 'a mpsc_queue \<Rightarrow> 'a mpsc_queue outcome" where
  "link_block t n q = obind (block_at n q) (\<lambda>nb.
     let q1 = put n (nb\<lparr>qb_head := 0, qb_tail := 0, qb_next := None\<rparr>) q
     in obind (block_at t q1) (\<lambda>tb.
        let q2 = (put t (tb\<lparr>qb_next := Some n\<rparr>) q1)\<lparr>q_tail := n\<rparr>
        in obind (block_at n q2) (\<lambda>mb. Some (Inr (put n (mb\<lparr>freed := False\<rparr>) q2)))))"

partial_function (option) enqueue :: "'a \<Rightarrow> bool \<Rightarrow> 'a mpsc_queue \<Rightarrow> (bool \<times> 'a mpsc_queue) outcome" where
  "enqueue e unbounded q = (let t = q_tail q in obind (block_at t q) (\<lambda>b.
     if refcnt b = 0 then enqueue e unbounded q
     else let q1 = put t (b\<lparr>refcnt := refcnt b + 1\<rparr>) q in
       if freed b then obind (release_ref t q1) (enqueue e unbounded)
       else if qb_tail b \<ge> MPMCQ_SIZE then
         (if qb_next b = None then obind (free_pop q1) (\<lambda>(r, q2). case r of
              Some n \<Rightarrow> obind (obind (link_block t n q2) (release_ref t)) (enqueue e unbounded)
            | None \<Rightarrow>
                if unbounded then
                  obind (obind (link_block t (fst (alloc q2)) (snd (alloc q2))) (release_ref t)) (enqueue e unbounded)
                else obind (release_ref t q2) (\<lambda>q3. Some (Inr (False, q3))))
          else obind (release_ref t q1) (enqueue e unbounded))
       else obind (release_ref t (put t (b\<lparr>refcnt := refcnt b + 1, qb_tail := qb_tail b + 1,
              qb_elem := (qb_elem b)(qb_tail b \<mapsto> e), qb_avail := (qb_avail b)(qb_tail b := True)\<rparr>) q))
              (\<lambda>q3. Some (Inr (True, q3)))))"

text \<open>Taking the element at \<open>head\<close> of a block: the code waits until it is available, then moves it out.\<close>

definition take_elem :: "nat \<Rightarrow> 'a qblock \<Rightarrow> 'a mpsc_queue \<Rightarrow> ('a option \<times> 'a mpsc_queue) outcome" where
  "take_elem h b q = (if \<not> qb_avail b (qb_head b) then None
     else case qb_elem b (qb_head b) of
         None \<Rightarrow> Some (Inl UndefinedBehaviour)
       | Some x \<Rightarrow> Some (Inr (Some x, put h (b\<lparr>qb_head := qb_head b + 1, qb_elem := (qb_elem b)(qb_head b := None),
           qb_avail := (qb_avail b)(qb_head b := False)\<rparr>) q)))"

text \<open>\<open>MPSCQueue::try_dequeue\<close>: the single consumer takes no reference.\<close>

partial_function (option) try_dequeue :: "'a mpsc_queue \<Rightarrow> ('a option \<times> 'a mpsc_queue) outcome" where
  "try_dequeue q = (let h = q_head q in obind (block_at h q) (\<lambda>b.
     if qb_head b \<ge> qb_tail b then
       (if qb_tail b < MPMCQ_SIZE then Some (Inr (None, q))
        else case qb_next b of
            None \<Rightarrow> Some (Inr (None, q))
          | Some n \<Rightarrow> obind (free_push h (q\<lparr>q_head := n\<rparr>)) try_dequeue)
     else take_elem h b q))"

text \<open>\<open>MPMCQueue::try_dequeue\<close>: any consumer; the block is held while it is used.\<close>

partial_function (option) mpmc_try_dequeue :: "'a mpsc_queue \<Rightarrow> ('a option \<times> 'a mpsc_queue) outcome" where
  "mpmc_try_dequeue q = (let h = q_head q in obind (block_at h q) (\<lambda>b.
     if refcnt b = 0 then mpmc_try_dequeue q
     else let b1 = b\<lparr>refcnt := refcnt b + 1\<rparr>; q1 = put h b1 q in
       if qb_head b \<ge> qb_tail b then
         (if qb_tail b < MPMCQ_SIZE then obind (release_ref h q1) (\<lambda>q2. Some (Inr (None, q2)))
          else case qb_next b of
              None \<Rightarrow> obind (release_ref h q1) (\<lambda>q2. Some (Inr (None, q2)))
            | Some n \<Rightarrow> obind (obind (free_push h (q1\<lparr>q_head := n\<rparr>)) (release_ref h)) mpmc_try_dequeue)
       else obind (take_elem h b1 q1) (\<lambda>(x, q2). obind (release_ref h q2) (\<lambda>q3. Some (Inr (x, q3))))))"

definition rewind_into :: "'a \<Rightarrow> 'a mpsc_queue \<Rightarrow> 'a mpsc_queue outcome" where
  "rewind_into e q = obind (block_at (q_head q) q) (\<lambda>b. if qb_head b = 0 then Some (Inl UndefinedBehaviour)
     else Some (Inr (put (q_head q) (b\<lparr>qb_elem := (qb_elem b)(qb_head b - 1 \<mapsto> e),
       qb_avail := (qb_avail b)(qb_head b - 1 := True), qb_head := qb_head b - 1\<rparr>) q)))"

definition rewind :: "'a \<Rightarrow> 'a mpsc_queue \<Rightarrow> 'a mpsc_queue outcome" where
  "rewind e q = (let h = q_head q in obind (block_at h q) (\<lambda>b.
     if qb_head b = 0 then
       obind (free_pop q) (\<lambda>(r, q1).
         let (n, q2) = (case r of Some n \<Rightarrow> (n, q1) | None \<Rightarrow> alloc q1)
         in obind (block_at n q2) (\<lambda>nb.
            rewind_into e ((put n (nb\<lparr>qb_head := MPMCQ_SIZE, qb_tail := MPMCQ_SIZE, qb_next := Some h\<rparr>) q2)\<lparr>q_head := n\<rparr>)))
     else rewind_into e q))"

fun push_blocks :: "nat \<Rightarrow> 'a mpsc_queue \<Rightarrow> 'a mpsc_queue outcome" where
  "push_blocks 0 q = Some (Inr q)"
| "push_blocks (Suc n) q = obind (free_push (fst (alloc q)) (snd (alloc q))) (push_blocks n)"

definition set_capacity :: "nat \<Rightarrow> 'a mpsc_queue \<Rightarrow> 'a mpsc_queue outcome" where
  "set_capacity capacity q = push_blocks (max (capacity div MPMCQ_SIZE) 1) q"

section \<open>Layout and content\<close>

text \<open>\<open>seg nx B p ps r\<close>: following \<open>nx\<close> from \<open>p\<close> visits the cells \<open>ps\<close> and arrives at \<open>r\<close>.\<close>

fun seg :: "('n \<Rightarrow> nat option) \<Rightarrow> (nat \<rightharpoonup> 'n) \<Rightarrow> nat option \<Rightarrow> (nat \<times> 'n) list \<Rightarrow> nat option \<Rightarrow> bool" where
  "seg nx B p [] r \<longleftrightarrow> p = r"
| "seg nx B p (c # cs) r \<longleftrightarrow> p = Some (fst c) \<and> B (fst c) = Some (snd c) \<and> seg nx B (nx (snd c)) cs r"

lemma seg_append: "seg nx B p (cs @ ds) r \<longleftrightarrow> (\<exists>m. seg nx B p cs m \<and> seg nx B m ds r)"
  by (induction cs arbitrary: p) auto

lemma seg_upd [simp]: "a \<notin> fst ` set cs \<Longrightarrow> seg nx (B(a \<mapsto> b)) p cs r = seg nx B p cs r"
  by (induction cs arbitrary: p) auto

definition slots :: "'a qblock \<Rightarrow> 'a list" where
  "slots b = map (\<lambda>i. the (qb_elem b i)) [qb_head b..<qb_tail b]"

definition block_ok :: "'a qblock \<Rightarrow> bool" where
  "block_ok b \<longleftrightarrow> qb_head b \<le> qb_tail b \<and> qb_tail b \<le> MPMCQ_SIZE \<and>
     (\<forall>i. qb_head b \<le> i \<and> i < qb_tail b \<longrightarrow> qb_avail b i \<and> qb_elem b i \<noteq> None)"

text \<open>The chain is the full blocks \<open>cs\<close> followed by the tail block \<open>d\<close>; \<open>fs\<close> is the free list. Only the first
  block of the chain can have lost elements at its front.\<close>

definition lay :: "'a mpsc_queue \<Rightarrow> (nat \<times> 'a qblock) list \<Rightarrow> nat \<times> 'a qblock \<Rightarrow> (nat \<times> 'a qblock) list \<Rightarrow> bool" where
  "lay q cs d fs \<longleftrightarrow>
     seg qb_next (q_blocks q) (Some (q_head q)) (cs @ [d]) None \<and> seg nd_next (q_blocks q) (q_top q) fs None \<and>
     q_tail q = fst d \<and> distinct (map fst (cs @ d # fs)) \<and> (\<forall>c \<in> set (cs @ d # fs). fst c < q_fresh q \<and> refcnt (snd c) = 1) \<and>
     (\<forall>c \<in> set (cs @ [d]). block_ok (snd c)) \<and> (\<forall>c \<in> set cs. qb_tail (snd c) = MPMCQ_SIZE) \<and>
     (\<forall>c \<in> set (tl (cs @ [d])). qb_head (snd c) = 0) \<and> \<not> freed (snd d)"

definition items :: "(nat \<times> 'a qblock) list \<Rightarrow> 'a list" where
  "items cs = concat (map (slots \<circ> snd) cs)"

text \<open>\<open>queued q xs k\<close>: the queue is well formed, holds \<open>xs\<close> and has \<open>k\<close> blocks, used or free.\<close>

definition queued :: "'a mpsc_queue \<Rightarrow> 'a list \<Rightarrow> nat \<Rightarrow> bool" where
  "queued q xs k \<longleftrightarrow> (\<exists>cs d fs. lay q cs d fs \<and> xs = items (cs @ [d]) \<and> k = length cs + 1 + length fs)"

lemma size_pos [simp]: "0 < MPMCQ_SIZE"
  by (simp add: MPMCQ_SIZE_def)

lemma items_simps [simp]: "items [] = []" "items (c # cs) = slots (snd c) @ items cs" "items (cs @ ds) = items cs @ items ds"
  by (simp_all add: items_def)

lemma slots_push: "block_ok b \<Longrightarrow> slots (b\<lparr>qb_tail := qb_tail b + 1, qb_elem := (qb_elem b)(qb_tail b \<mapsto> e), qb_avail := v\<rparr>) = slots b @ [e]"
  by (auto simp: slots_def block_ok_def)

lemma slots_take: "qb_head b < qb_tail b \<Longrightarrow> qb_elem b (qb_head b) = Some x \<Longrightarrow>
    slots b = x # slots (b\<lparr>qb_head := qb_head b + 1, qb_elem := (qb_elem b)(qb_head b := None), qb_avail := v\<rparr>)"
  by (auto simp: slots_def upt_conv_Cons)

lemma slots_rewind: "0 < qb_head b \<Longrightarrow> qb_head b \<le> qb_tail b \<Longrightarrow>
    slots (b\<lparr>qb_elem := (qb_elem b)(qb_head b - 1 \<mapsto> e), qb_avail := v, qb_head := qb_head b - 1\<rparr>) = e # slots b"
  by (auto simp: slots_def upt_conv_Cons)

lemma queuedI: "lay q cs d fs \<Longrightarrow> items (cs @ [d]) = xs \<Longrightarrow> length cs + 1 + length fs = k \<Longrightarrow> queued q xs k"
  unfolding queued_def by blast

lemma new_queued: "queued mpmc_new [] 1"
proof -
  have "lay mpmc_new [] (0, qblock_new) []" by (simp add: lay_def mpmc_new_def qblock_new_def block_ok_def)
  moreover have "items ([] @ [(0, qblock_new)]) = []" by (simp add: slots_def qblock_new_def)
  ultimately show ?thesis unfolding queued_def by force
qed

lemma lay_fresh: "lay q cs d fs \<Longrightarrow> q_fresh q \<notin> fst ` set (cs @ d # fs)"
  unfolding lay_def by fastforce

lemma lay_free: "lay q cs d [] \<Longrightarrow> q_top q = None"
    "lay q cs d (f # fs) \<Longrightarrow> q_top q = Some (fst f) \<and> q_blocks q (fst f) = Some (snd f) \<and> refcnt (snd f) = 1 \<and>
       seg nd_next (q_blocks q) (nd_next (snd f)) fs None"
  unfolding lay_def by auto

lemma lay_tail: "lay q cs d fs \<Longrightarrow> q_blocks q (q_tail q) = Some (snd d) \<and> refcnt (snd d) = 1 \<and> \<not> freed (snd d) \<and>
    qb_next (snd d) = None \<and> block_ok (snd d)"
  unfolding lay_def by (auto simp: seg_append)

section \<open>Single steps\<close>

lemma free_pop_some: "q_top q = Some f \<Longrightarrow> q_blocks q f = Some c \<Longrightarrow> refcnt c = 1 \<Longrightarrow>
    free_pop q = Some (Inr (Some f, q\<lparr>q_top := nd_next c\<rparr>))"
  by (subst free_pop.simps) (simp add: block_at_def release_ref_def put_def fun_upd_idem)

lemma free_pop_none: "q_top q = None \<Longrightarrow> free_pop q = Some (Inr (None, q))"
  by (subst free_pop.simps) simp

lemma free_push_step: "q_blocks q u = Some b \<Longrightarrow> refcnt b = 1 \<Longrightarrow>
    free_push u q = Some (Inr (q\<lparr>q_blocks := (q_blocks q)(u \<mapsto> b\<lparr>freed := True, nd_next := q_top q\<rparr>), q_top := Some u\<rparr>))"
  by (cases b) (simp add: free_push_def release_ref_def block_at_def put_def)

definition tail_room :: "'a mpsc_queue \<Rightarrow> 'a qblock \<Rightarrow> bool" where
  "tail_room q b \<longleftrightarrow> q_blocks q (q_tail q) = Some b \<and> refcnt b = 1 \<and> \<not> freed b"

lemma enqueue_room:
  assumes "tail_room q b" and "qb_tail b < MPMCQ_SIZE"
  shows "enqueue e u q = Some (Inr (True, put (q_tail q) (b\<lparr>refcnt := 1, qb_tail := qb_tail b + 1,
      qb_elem := (qb_elem b)(qb_tail b \<mapsto> e), qb_avail := (qb_avail b)(qb_tail b := True)\<rparr>) q))"
  using assms by (cases b, subst enqueue.simps) (simp add: tail_room_def block_at_def release_ref_def put_def)

definition grown :: "nat \<Rightarrow> 'a qblock \<Rightarrow> 'a qblock \<Rightarrow> 'a mpsc_queue \<Rightarrow> 'a mpsc_queue" where
  "grown n c b q = q\<lparr>q_blocks := (q_blocks q)(q_tail q \<mapsto> b\<lparr>qb_next := Some n\<rparr>,
     n \<mapsto> c\<lparr>qb_head := 0, qb_tail := 0, qb_next := None, freed := False\<rparr>), q_tail := n\<rparr>"

lemma block_idem [simp]: "refcnt b = 1 \<Longrightarrow> b\<lparr>refcnt := 1\<rparr> = b"
  by (cases b) simp

lemma enqueue_full_free:
  assumes "tail_room q b" and "\<not> qb_tail b < MPMCQ_SIZE" and "qb_next b = None"
    and "q_top q = Some f" and "q_blocks q f = Some c" and "refcnt c = 1" and "f \<noteq> q_tail q"
  shows "enqueue e u q = enqueue e u (grown f c b (q\<lparr>q_top := nd_next c\<rparr>))"
  using assms
  by (cases b, cases c, cases q, subst enqueue.simps) (simp add: tail_room_def block_at_def put_def free_pop_some link_block_def release_ref_def grown_def
      fun_upd_twist Let_def)

lemma enqueue_full_alloc:
  assumes "tail_room q b" and "\<not> qb_tail b < MPMCQ_SIZE" and "qb_next b = None"
    and "q_top q = None" and "q_fresh q \<noteq> q_tail q"
  shows "enqueue e True q = enqueue e True (grown (q_fresh q) qblock_new b (q\<lparr>q_fresh := q_fresh q + 1\<rparr>))"
  using assms
  by (cases b, cases q, subst enqueue.simps) (simp add: tail_room_def block_at_def put_def free_pop_none link_block_def release_ref_def grown_def
      fun_upd_twist Let_def alloc_def)

lemma enqueue_full_refuse:
  assumes "tail_room q b" and "\<not> qb_tail b < MPMCQ_SIZE" and "qb_next b = None" and "q_top q = None"
  shows "enqueue e False q = Some (Inr (False, q))"
  using assms
  by (subst enqueue.simps) (simp add: tail_room_def block_at_def put_def free_pop_none release_ref_def fun_upd_idem)

lemma lay_pop: "lay q cs d (f # fs) \<Longrightarrow> lay (q\<lparr>q_top := nd_next (snd f)\<rparr>) cs d fs"
  unfolding lay_def by simp

text \<open>Replacing the tail block by one with the same links.\<close>

lemma lay_tail_upd:
  assumes "lay q cs d fs" and "refcnt b' = 1" and "\<not> freed b'" and "qb_next b' = None" and "block_ok b'"
    and "qb_head b' = qb_head (snd d)"
  shows "lay (put (q_tail q) b' q) cs (q_tail q, b') fs"
  using assms by (cases cs) (simp_all add: lay_def put_def seg_append)

lemma lay_fresh_mono: "lay q cs d fs \<Longrightarrow> q_fresh q \<le> m \<Longrightarrow> lay (q\<lparr>q_fresh := m\<rparr>) cs d fs"
  unfolding lay_def by (auto dest: less_le_trans)

lemma lay_grown:
  assumes "lay q cs d fs" and "n \<notin> fst ` set (cs @ d # fs)" and "n < q_fresh q" and "refcnt c = 1"
    and "qb_tail (snd d) = MPMCQ_SIZE"
  shows "lay (grown n c (snd d) q) (cs @ [(fst d, (snd d)\<lparr>qb_next := Some n\<rparr>)])
      (n, c\<lparr>qb_head := 0, qb_tail := 0, qb_next := None, freed := False\<rparr>) fs"
  using assms by (cases cs) (simp_all add: lay_def grown_def seg_append block_ok_def image_Un ball_Un)

definition advanced :: "nat \<Rightarrow> 'a qblock \<Rightarrow> 'a mpsc_queue \<Rightarrow> 'a mpsc_queue" where
  "advanced n b q = q\<lparr>q_blocks := (q_blocks q)(q_head q \<mapsto> b\<lparr>freed := True, nd_next := q_top q\<rparr>),
     q_top := Some (q_head q), q_head := n\<rparr>"

definition taken :: "'a qblock \<Rightarrow> 'a qblock" where
  "taken b = b\<lparr>qb_head := qb_head b + 1, qb_elem := (qb_elem b)(qb_head b := None),
     qb_avail := (qb_avail b)(qb_head b := False)\<rparr>"

lemma lay_advanced:
  assumes "lay q (c # cs) d fs"
  shows "\<exists>n. qb_next (snd c) = Some n \<and>
    lay (advanced n (snd c) q) cs d ((q_head q, (snd c)\<lparr>freed := True, nd_next := q_top q\<rparr>) # fs)"
  using assms by (cases cs) (simp_all add: lay_def advanced_def seg_append image_Un ball_Un)

lemma lay_head:
  assumes "lay q cs d fs"
  shows "q_blocks q (q_head q) = Some (snd (hd (cs @ [d]))) \<and> refcnt (snd (hd (cs @ [d]))) = 1 \<and> block_ok (snd (hd (cs @ [d])))"
  using assms by (cases cs) (simp_all add: lay_def seg_append)

lemma lay_head_upd:
  assumes "lay q cs d fs" and "refcnt b' = 1" and "freed b' = freed b" and "qb_next b' = qb_next b" and "block_ok b'"
    and "qb_tail b' = qb_tail b" and "b = snd (hd (cs @ [d]))"
  shows "cs = [] \<Longrightarrow> lay (put (q_head q) b' q) [] (q_head q, b') fs"
    "cs = c # es \<Longrightarrow> lay (put (q_head q) b' q) ((q_head q, b') # es) d fs"
  using assms by (cases cs; simp add: lay_def put_def seg_append image_Un ball_Un)+

section \<open>Enqueueing\<close>

lemma slots_next [simp]: "slots (b\<lparr>qb_next := n\<rparr>) = slots b"
  by (simp add: slots_def)

lemma slots_fresh [simp]: "slots (b\<lparr>qb_head := 0, qb_tail := 0, qb_next := n, freed := f\<rparr>) = []"
  by (simp add: slots_def)

lemma full_length:
  assumes "lay q cs d fs" and "qb_tail (snd d) = MPMCQ_SIZE"
  shows "length cs * MPMCQ_SIZE \<le> length (items (cs @ [d]))"
proof -
  have full: "qb_head (snd c) = 0 \<and> qb_tail (snd c) = MPMCQ_SIZE" if "c \<in> set (tl (cs @ [d]))" for c
    using assms that by (cases cs) (auto simp: lay_def)
  have "length (items es) = length es * MPMCQ_SIZE" if "\<forall>c \<in> set es. qb_head (snd c) = 0 \<and> qb_tail (snd c) = MPMCQ_SIZE" for es :: "(nat \<times> 'a qblock) list"
    using that by (induction es) (auto simp: slots_def)
  then have "length (items (tl (cs @ [d]))) = length cs * MPMCQ_SIZE" using full by (simp add: length_tl)
  then show ?thesis by (cases cs) simp_all
qed

lemma lay_room: "lay q cs d fs \<Longrightarrow> tail_room q (snd d)"
  unfolding tail_room_def using lay_tail by blast

lemma enqueue_lay_room:
  assumes "lay q cs d fs" and "qb_tail (snd d) < MPMCQ_SIZE"
  shows "\<exists>q'. enqueue e u q = Some (Inr (True, q')) \<and> queued q' (items (cs @ [d]) @ [e]) (length cs + 1 + length fs)"
proof -
  let ?b = "(snd d)\<lparr>refcnt := 1, qb_tail := qb_tail (snd d) + 1, qb_elem := (qb_elem (snd d))(qb_tail (snd d) \<mapsto> e),
      qb_avail := (qb_avail (snd d))(qb_tail (snd d) := True)\<rparr>"
  have ok: "block_ok ?b" using lay_tail [OF assms(1)] assms(2) by (auto simp: block_ok_def less_Suc_eq)
  have "lay (put (q_tail q) ?b q) cs (q_tail q, ?b) fs"
    by (rule lay_tail_upd [OF assms(1)]) (use ok lay_tail [OF assms(1)] in simp_all)
  moreover have "items (cs @ [(q_tail q, ?b)]) = items (cs @ [d]) @ [e]"
    using slots_push [of "snd d"] lay_tail [OF assms(1)] by simp
  ultimately have "queued (put (q_tail q) ?b q) (items (cs @ [d]) @ [e]) (length cs + 1 + length fs)"
    by (rule queuedI) simp
  then show ?thesis using enqueue_room [OF lay_room [OF assms(1)] assms(2)] by blast
qed

lemma enqueue_queued:
  assumes "queued q xs k"
  shows "(\<exists>q' k'. enqueue e u q = Some (Inr (True, q')) \<and> queued q' (xs @ [e]) k' \<and> k \<le> k' \<and> (\<not> u \<longrightarrow> k' = k)) \<or>
    (\<not> u \<and> enqueue e u q = Some (Inr (False, q)) \<and> (k - 1) * MPMCQ_SIZE \<le> length xs)"
proof -
  obtain cs d fs where l: "lay q cs d fs" and xs: "xs = items (cs @ [d])" and k: "k = length cs + 1 + length fs"
    using assms unfolding queued_def by blast
  note room = lay_room [OF l] and tail = lay_tail [OF l]
  show ?thesis
  proof (cases "qb_tail (snd d) < MPMCQ_SIZE")
    case True
    then show ?thesis using enqueue_lay_room [OF l] xs k by blast
  next
    case False
    then have full: "qb_tail (snd d) = MPMCQ_SIZE" using tail by (auto simp: block_ok_def)
    have nx: "qb_next (snd d) = None" using tail by blast
    have grow: "\<exists>q'. enqueue e u (grown n c (snd d) t) = Some (Inr (True, q')) \<and> queued q' (xs @ [e]) (length cs + 2 + length gs)"
      if "lay t cs d gs" "n \<notin> fst ` set (cs @ d # gs)" "n < q_fresh t" "refcnt c = 1" for n c t gs
      using enqueue_lay_room [OF lay_grown [OF that full]] xs by simp
    show ?thesis
    proof (cases fs)
      case (Cons f gs)
      have f: "q_top q = Some (fst f)" "q_blocks q (fst f) = Some (snd f)" "refcnt (snd f) = 1"
        using lay_free(2) l Cons by blast+
      have "fst f \<noteq> q_tail q" "fst f \<notin> fst ` set (cs @ d # gs)" "fst f < q_fresh q"
        using l Cons by (simp_all add: lay_def image_Un)
      then show ?thesis
        using enqueue_full_free [OF room False nx f, of e u] grow [of "q\<lparr>q_top := nd_next (snd f)\<rparr>" gs "fst f" "snd f"] lay_pop [of q cs d f gs] l f k Cons by auto
    next
      case Nil
      have top: "q_top q = None" using lay_free(1) l Nil by blast
      show ?thesis
      proof (cases u)
        case True
        have "q_fresh q \<noteq> q_tail q" using lay_fresh [OF l] l by (auto simp: lay_def)
        moreover have "lay (q\<lparr>q_fresh := q_fresh q + 1\<rparr>) cs d []" using lay_fresh_mono [OF l] Nil by simp
        moreover have "q_fresh q \<notin> fst ` set (cs @ d # [])" using lay_fresh [OF l] Nil by simp
        moreover have "refcnt (qblock_new :: 'a qblock) = 1" by (simp add: qblock_new_def)
        ultimately have "\<exists>q'. enqueue e u q = Some (Inr (True, q')) \<and> queued q' (xs @ [e]) (length cs + 2 + length ([] :: (nat \<times> 'a qblock) list))"
          using enqueue_full_alloc [OF room False nx top] grow [of "q\<lparr>q_fresh := q_fresh q + 1\<rparr>" "[]" "q_fresh q" qblock_new] True by simp
        moreover have "k \<le> length cs + 2 + length ([] :: (nat \<times> 'a qblock) list)" using k Nil by simp
        ultimately show ?thesis using True by blast
      next
        case u: False
        then show ?thesis using enqueue_full_refuse [OF room False nx top] full_length [OF l full] xs k Nil by auto
      qed
    qed
  qed
qed

section \<open>Dequeueing\<close>

text \<open>The two dequeue operations share one contract.\<close>

locale block_dequeue =
  fixes deq :: "'a mpsc_queue \<Rightarrow> ('a option \<times> 'a mpsc_queue) outcome"
  assumes deq_none: "q_blocks q (q_head q) = Some b \<Longrightarrow> refcnt b = 1 \<Longrightarrow> qb_tail b \<le> qb_head b \<Longrightarrow>
      qb_tail b < MPMCQ_SIZE \<or> qb_next b = None \<Longrightarrow> deq q = Some (Inr (None, q))"
    and deq_next: "q_blocks q (q_head q) = Some b \<Longrightarrow> refcnt b = 1 \<Longrightarrow> qb_tail b \<le> qb_head b \<Longrightarrow>
      \<not> qb_tail b < MPMCQ_SIZE \<Longrightarrow> qb_next b = Some n \<Longrightarrow> deq q = deq (advanced n b q)"
    and deq_take: "q_blocks q (q_head q) = Some b \<Longrightarrow> refcnt b = 1 \<Longrightarrow> qb_head b < qb_tail b \<Longrightarrow>
      qb_avail b (qb_head b) \<Longrightarrow> qb_elem b (qb_head b) = Some x \<Longrightarrow> deq q = Some (Inr (Some x, put (q_head q) (taken b) q))"
begin

lemma deq_lay_take:
  assumes "lay q cs d fs" and "qb_head (snd (hd (cs @ [d]))) < qb_tail (snd (hd (cs @ [d])))"
  shows "\<exists>x ys q'. items (cs @ [d]) = x # ys \<and> deq q = Some (Inr (Some x, q')) \<and> queued q' ys (length cs + 1 + length fs)"
proof -
  let ?b = "snd (hd (cs @ [d]))"
  note head = lay_head [OF assms(1)]
  obtain x where x: "qb_elem ?b (qb_head ?b) = Some x" "qb_avail ?b (qb_head ?b)"
    using head assms(2) unfolding block_ok_def by blast
  have ok: "block_ok (taken ?b)" using head assms(2) unfolding block_ok_def taken_def by auto
  have s: "slots ?b = x # slots (taken ?b)"
    unfolding taken_def by (rule slots_take [OF assms(2) x(1)])
  have d: "deq q = Some (Inr (Some x, put (q_head q) (taken ?b) q))"
    using deq_take assms(2) x head by blast
  have up: "refcnt (taken ?b) = 1" "freed (taken ?b) = freed ?b" "qb_next (taken ?b) = qb_next ?b" "qb_tail (taken ?b) = qb_tail ?b"
    using head by (simp_all add: taken_def)
  show ?thesis
  proof (cases cs)
    case Nil
    have "lay (put (q_head q) (taken ?b) q) [] (q_head q, taken ?b) fs"
      using lay_head_upd(1) [OF assms(1) up(1,2,3) ok up(4) refl Nil] .
    then have "queued (put (q_head q) (taken ?b) q) (slots (taken ?b)) (length cs + 1 + length fs)"
      by (rule queuedI) (simp_all add: Nil)
    then show ?thesis using d s Nil by simp
  next
    case (Cons c es)
    have "lay (put (q_head q) (taken ?b) q) ((q_head q, taken ?b) # es) d fs"
      using lay_head_upd(2) [OF assms(1) up(1,2,3) ok up(4) refl Cons] .
    then have "queued (put (q_head q) (taken ?b) q) (items ((q_head q, taken ?b) # es @ [d])) (length cs + 1 + length fs)"
      by (rule queuedI) (simp_all add: Cons)
    then show ?thesis using d s Cons by simp
  qed
qed

lemma deq_lay:
  assumes "lay q cs d fs"
  shows "case items (cs @ [d]) of
      [] \<Rightarrow> \<exists>q'. deq q = Some (Inr (None, q')) \<and> queued q' [] (length cs + 1 + length fs)
    | x # ys \<Rightarrow> \<exists>q'. deq q = Some (Inr (Some x, q')) \<and> queued q' ys (length cs + 1 + length fs)"
  using assms
proof (induction cs arbitrary: q fs)
  case Nil
  note head = lay_head [OF Nil]
  show ?case
  proof (cases "qb_head (snd d) < qb_tail (snd d)")
    case True
    then show ?thesis using deq_lay_take [OF Nil] by auto
  next
    case False
    have "qb_next (snd d) = None" using lay_tail [OF Nil] by blast
    then have "deq q = Some (Inr (None, q))" using deq_none head False by auto
    moreover have "slots (snd d) = []" using False by (simp add: slots_def)
    moreover have "queued q [] (length ([] :: (nat \<times> 'a qblock) list) + 1 + length fs)"
      by (rule queuedI [OF Nil]) (simp_all add: \<open>slots (snd d) = []\<close>)
    ultimately show ?thesis by simp
  qed
next
  case (Cons c cs)
  note head = lay_head [OF Cons.prems]
  show ?case
  proof (cases "qb_head (snd c) < qb_tail (snd c)")
    case True
    then show ?thesis using deq_lay_take [OF Cons.prems] by auto
  next
    case False
    obtain n where n: "qb_next (snd c) = Some n"
      "lay (advanced n (snd c) q) cs d ((q_head q, (snd c)\<lparr>freed := True, nd_next := q_top q\<rparr>) # fs)"
      using lay_advanced [OF Cons.prems] by blast
    have "\<not> qb_tail (snd c) < MPMCQ_SIZE" using Cons.prems by (simp add: lay_def)
    then have "deq q = deq (advanced n (snd c) q)" using deq_next head False n by auto
    moreover have "slots (snd c) = []" using False by (simp add: slots_def)
    ultimately show ?thesis using Cons.IH [OF n(2)] by (auto split: list.splits)
  qed
qed

lemma deq_queued:
  assumes "queued q xs k"
  shows "case xs of
      [] \<Rightarrow> \<exists>q'. deq q = Some (Inr (None, q')) \<and> queued q' [] k
    | x # ys \<Rightarrow> \<exists>q'. deq q = Some (Inr (Some x, q')) \<and> queued q' ys k"
  using assms deq_lay unfolding queued_def [of q] by blast

end

interpretation mpsc: block_dequeue try_dequeue
proof unfold_locales
  fix q :: "'a mpsc_queue" and b n
  assume "q_blocks q (q_head q) = Some b" "refcnt b = 1" "qb_tail b \<le> qb_head b" "\<not> qb_tail b < MPMCQ_SIZE" "qb_next b = Some n"
  then show "try_dequeue q = try_dequeue (advanced n b q)"
    by (cases q, subst try_dequeue.simps) (simp add: block_at_def Let_def free_push_step advanced_def)
qed (subst try_dequeue.simps; auto simp: block_at_def take_elem_def taken_def split: option.splits)+

interpretation mpmc: block_dequeue mpmc_try_dequeue
proof unfold_locales
  fix q :: "'a mpsc_queue" and b n
  assume "q_blocks q (q_head q) = Some b" "refcnt b = 1" "qb_tail b \<le> qb_head b" "\<not> qb_tail b < MPMCQ_SIZE" "qb_next b = Some n"
  then show "mpmc_try_dequeue q = mpmc_try_dequeue (advanced n b q)"
    by (cases b, cases q, subst mpmc_try_dequeue.simps)
      (simp add: block_at_def Let_def free_push_def release_ref_def put_def advanced_def)
next
  fix q :: "'a mpsc_queue" and b x
  assume "q_blocks q (q_head q) = Some b" "refcnt b = 1" "qb_head b < qb_tail b" "qb_avail b (qb_head b)" "qb_elem b (qb_head b) = Some x"
  then show "mpmc_try_dequeue q = Some (Inr (Some x, put (q_head q) (taken b) q))"
    by (cases b, cases q, subst mpmc_try_dequeue.simps)
      (simp add: block_at_def Let_def release_ref_def put_def take_elem_def taken_def)
qed (subst mpmc_try_dequeue.simps; auto simp: block_at_def release_ref_def put_def fun_upd_idem Let_def split: option.splits)

section \<open>Giving back and capacity\<close>

lemma rewind_into_lay:
  assumes "lay q cs d fs" and "0 < qb_head (snd (hd (cs @ [d])))"
  shows "\<exists>q'. rewind_into e q = Some (Inr q') \<and> queued q' (e # items (cs @ [d])) (length cs + 1 + length fs)"
proof -
  let ?b = "snd (hd (cs @ [d]))"
  let ?b' = "?b\<lparr>qb_elem := (qb_elem ?b)(qb_head ?b - 1 \<mapsto> e), qb_avail := (qb_avail ?b)(qb_head ?b - 1 := True), qb_head := qb_head ?b - 1\<rparr>"
  note head = lay_head [OF assms(1)]
  have r: "rewind_into e q = Some (Inr (put (q_head q) ?b' q))"
    using head assms(2) by (simp add: rewind_into_def block_at_def)
  have le: "qb_head ?b \<le> qb_tail ?b" using head by (simp add: block_ok_def)
  have s: "slots ?b' = e # slots ?b" by (rule slots_rewind [OF assms(2) le])
  have ok: "block_ok ?b'" using head by (fastforce simp: block_ok_def)
  have up: "refcnt ?b' = 1" "freed ?b' = freed ?b" "qb_next ?b' = qb_next ?b" "qb_tail ?b' = qb_tail ?b"
    using head by simp_all
  show ?thesis
  proof (cases cs)
    case Nil
    have "queued (put (q_head q) ?b' q) (e # items (cs @ [d])) (length cs + 1 + length fs)"
      by (rule queuedI [OF lay_head_upd(1) [OF assms(1) up(1,2,3) ok up(4) refl Nil]]) (use s Nil in simp_all)
    then show ?thesis using r by blast
  next
    case (Cons c es)
    have "queued (put (q_head q) ?b' q) (e # items (cs @ [d])) (length cs + 1 + length fs)"
      by (rule queuedI [OF lay_head_upd(2) [OF assms(1) up(1,2,3) ok up(4) refl Cons]]) (use s Cons in simp_all)
    then show ?thesis using r by blast
  qed
qed

text \<open>A block put in front of the chain, with room only in front of its elements.\<close>

definition fronted :: "nat \<Rightarrow> 'a qblock \<Rightarrow> 'a mpsc_queue \<Rightarrow> 'a mpsc_queue" where
  "fronted n c q = (put n (c\<lparr>qb_head := MPMCQ_SIZE, qb_tail := MPMCQ_SIZE, qb_next := Some (q_head q)\<rparr>) q)\<lparr>q_head := n\<rparr>"

lemma block_ok_front: "block_ok (c\<lparr>qb_head := MPMCQ_SIZE, qb_tail := MPMCQ_SIZE, qb_next := n\<rparr>)"
  by (auto simp: block_ok_def)

lemma lay_fronted:
  assumes "lay q cs d fs" and "n \<notin> fst ` set (cs @ d # fs)" and "n < q_fresh q" and "refcnt c = 1"
    and "qb_head (snd (hd (cs @ [d]))) = 0"
  shows "lay (fronted n c q) ((n, c\<lparr>qb_head := MPMCQ_SIZE, qb_tail := MPMCQ_SIZE, qb_next := Some (q_head q)\<rparr>) # cs) d fs"
  using assms by (cases cs) (simp_all add: lay_def fronted_def put_def seg_append block_ok_front image_Un ball_Un)

lemma rewind_queued:
  assumes "queued q xs k"
  shows "\<exists>q' k'. rewind e q = Some (Inr q') \<and> queued q' (e # xs) k' \<and> k \<le> k'"
proof -
  obtain cs d fs where l: "lay q cs d fs" and xs: "xs = items (cs @ [d])" and k: "k = length cs + 1 + length fs"
    using assms unfolding queued_def by blast
  let ?b = "snd (hd (cs @ [d]))"
  note head = lay_head [OF l]
  show ?thesis
  proof (cases "qb_head ?b = 0")
    case False
    then have "rewind e q = rewind_into e q" using head by (simp add: rewind_def block_at_def Let_def)
    then show ?thesis using rewind_into_lay [OF l, of e] False unfolding xs k by auto
  next
    case True
    have front: "\<exists>q'. rewind_into e (fronted n c t) = Some (Inr q') \<and> queued q' (e # xs) (length cs + 2 + length gs)"
      if "lay t cs d gs" "n \<notin> fst ` set (cs @ d # gs)" "n < q_fresh t" "refcnt c = 1" for n c t gs
      using rewind_into_lay [OF lay_fronted [OF that True], of e] xs by (simp add: slots_def)
    show ?thesis
    proof (cases fs)
      case (Cons f gs)
      have f: "q_top q = Some (fst f)" "q_blocks q (fst f) = Some (snd f)" "refcnt (snd f) = 1"
        using lay_free(2) l Cons by blast+
      have "rewind e q = rewind_into e (fronted (fst f) (snd f) (q\<lparr>q_top := nd_next (snd f)\<rparr>))"
        using head True f free_pop_some [of q "fst f" "snd f"] by (simp add: rewind_def block_at_def Let_def fronted_def)
      moreover have "fst f \<notin> fst ` set (cs @ d # gs)" "fst f < q_fresh q"
        using l Cons by (simp_all add: lay_def image_Un)
      ultimately show ?thesis
        using front [of "q\<lparr>q_top := nd_next (snd f)\<rparr>" gs "fst f" "snd f"] lay_pop [of q cs d f gs] l f k Cons by auto
    next
      case Nil
      have top: "q_top q = None" using lay_free(1) l Nil by blast
      have "q_fresh q \<noteq> q_head q" using lay_fresh [OF l] l by (cases cs) (auto simp: lay_def)
      then have "rewind e q = rewind_into e (fronted (q_fresh q) qblock_new (q\<lparr>q_fresh := q_fresh q + 1\<rparr>))"
        using head True free_pop_none [OF top]
        by (cases q) (simp add: rewind_def block_at_def Let_def fronted_def alloc_def put_def)
      moreover have "lay (q\<lparr>q_fresh := q_fresh q + 1\<rparr>) cs d []" using lay_fresh_mono [OF l] Nil by simp
      moreover have "q_fresh q \<notin> fst ` set (cs @ d # [])" using lay_fresh [OF l] Nil by simp
      moreover have "refcnt (qblock_new :: 'a qblock) = 1" by (simp add: qblock_new_def)
      ultimately have "\<exists>q'. rewind e q = Some (Inr q') \<and> queued q' (e # xs) (length cs + 2 + length ([] :: (nat \<times> 'a qblock) list))"
        using front [of "q\<lparr>q_fresh := q_fresh q + 1\<rparr>" "[]" "q_fresh q" qblock_new] by simp
      moreover have "k \<le> length cs + 2 + length ([] :: (nat \<times> 'a qblock) list)" using k Nil by simp
      ultimately show ?thesis by blast
    qed
  qed
qed

lemma push_blocks_queued:
  assumes "queued q xs k"
  shows "\<exists>q'. push_blocks n q = Some (Inr q') \<and> queued q' xs (k + n)"
  using assms
proof (induction n arbitrary: q k)
  case (Suc n)
  obtain cs d fs where l: "lay q cs d fs" and xs: "xs = items (cs @ [d])" and k: "k = length cs + 1 + length fs"
    using Suc.prems unfolding queued_def by blast
  let ?c = "(qblock_new :: 'a qblock)\<lparr>freed := True, nd_next := q_top q\<rparr>"
  let ?q = "q\<lparr>q_blocks := (q_blocks q)(q_fresh q \<mapsto> ?c), q_top := Some (q_fresh q), q_fresh := q_fresh q + 1\<rparr>"
  have p: "free_push (fst (alloc q)) (snd (alloc q)) = Some (Inr ?q)"
    by (cases q) (simp add: alloc_def put_def free_push_def release_ref_def block_at_def qblock_new_def)
  have "lay ?q cs d ((q_fresh q, ?c) # fs)"
    using l lay_fresh [OF l] by (simp add: lay_def image_Un ball_Un qblock_new_def less_Suc_eq)
  then have "queued ?q xs (k + 1)" by (rule queuedI) (simp_all add: xs k)
  then show ?case using Suc.IH p by fastforce
qed simp

lemma set_capacity_queued:
  assumes "queued q xs k"
  shows "\<exists>q'. set_capacity c q = Some (Inr q') \<and> queued q' xs (k + max (c div MPMCQ_SIZE) 1)"
  unfolding set_capacity_def by (rule push_blocks_queued [OF assms])

end
