(* ===== verification/Event_Queue.thy ===== *)
theory Event_Queue
  imports Queue
begin

text \<open>
  The event-driven queue \<open>MPSCQueueEventDriven\<close> of \<^verbatim>\<open>event.h\<close> and the consumer that \<open>MsgNetwork\<close> registers on its queue
  of incoming messages (\<^verbatim>\<open>network.h\<close>). \<open>notified\<close> is the readable state of the notification descriptor: while it
  holds, the event loop of the consumer calls the handler again. Producer operations and handler calls
  are the atomic steps.
\<close>

record 'a ev_queue =
  evq :: "'a mpsc_queue"
  wait_sig :: bool
  notified :: bool

definition ev_new :: "'a ev_queue" where
  "ev_new = \<lparr>evq = mpmc_new, wait_sig = True, notified = False\<rparr>"

definition ev_enqueue :: "'a \<Rightarrow> bool \<Rightarrow> 'a ev_queue \<Rightarrow> (bool \<times> 'a ev_queue) outcome" where
  "ev_enqueue e unbounded s = obind (enqueue e unbounded (evq s)) (\<lambda>(r, q).
     if r then Some (Inr (True, s\<lparr>evq := q, notified := notified s \<or> wait_sig s, wait_sig := False\<rparr>))
     else Some (Inr (False, s\<lparr>evq := q\<rparr>)))"

text \<open>The loop of the consumer: it stops when the queue is empty or after \<open>burst_size\<close> elements. The handlers
  of the elements are the result. When the network is not running the element taken is dropped.\<close>

partial_function (option) drain :: "bool \<Rightarrow> nat \<Rightarrow> nat \<Rightarrow> 'a mpsc_queue \<Rightarrow> (bool \<times> 'a list \<times> 'a mpsc_queue) outcome" where
  "drain running burst_size cnt q = obind (try_dequeue q) (\<lambda>(r, q1). case r of
      None \<Rightarrow> Some (Inr (False, [], q1))
    | Some x \<Rightarrow>
        if \<not> running then Some (Inr (False, [], q1))
        else if cnt + 1 = burst_size then Some (Inr (True, [x], q1))
        else obind (drain running burst_size (cnt + 1) q1) (\<lambda>(b, xs, q2). Some (Inr (b, x # xs, q2))))"

definition ev_handle :: "bool \<Rightarrow> nat \<Rightarrow> 'a ev_queue \<Rightarrow> ('a list \<times> 'a ev_queue) outcome" where
  "ev_handle running burst_size s =
     (let s1 = s\<lparr>notified := False, wait_sig := True\<rparr>
      in obind (drain running burst_size 0 (evq s1)) (\<lambda>(more, xs, q).
         Some (Inr (xs, s1\<lparr>evq := q, notified := more\<rparr>))))"

text \<open>The event loop: the handler runs as long as the descriptor is readable.\<close>

partial_function (option) event_loop :: "nat \<Rightarrow> 'a ev_queue \<Rightarrow> ('a list \<times> 'a ev_queue) outcome" where
  "event_loop burst_size s = (if notified s
     then obind (ev_handle True burst_size s) (\<lambda>(xs, s1). obind (event_loop burst_size s1) (\<lambda>(ys, s2). Some (Inr (xs @ ys, s2))))
     else Some (Inr ([], s)))"

text \<open>A waiting element always has a pending notification.\<close>

definition ev_ok :: "'a ev_queue \<Rightarrow> 'a list \<Rightarrow> nat \<Rightarrow> bool" where
  "ev_ok s xs k \<longleftrightarrow> queued (evq s) xs k \<and> (xs \<noteq> [] \<longrightarrow> notified s) \<and> (\<not> wait_sig s \<longrightarrow> notified s)"

lemma ev_new_ok: "ev_ok ev_new [] 1"
  using new_queued by (simp add: ev_ok_def ev_new_def)

lemma ev_enqueue_ok:
  assumes "ev_ok s xs k"
  shows "(\<exists>t k'. ev_enqueue e u s = Some (Inr (True, t)) \<and> ev_ok t (xs @ [e]) k' \<and> k \<le> k' \<and> (\<not> u \<longrightarrow> k' = k)) \<or>
    (\<not> u \<and> ev_enqueue e u s = Some (Inr (False, s)) \<and> (k - 1) * MPMCQ_SIZE \<le> length xs)"
  using enqueue_queued [of "evq s" xs k e u] assms unfolding ev_ok_def ev_enqueue_def by fastforce

lemma drain_queued:
  assumes "queued q xs k" and "cnt < burst_size"
  shows "\<exists>q'. drain True burst_size cnt q = Some (Inr (burst_size - cnt \<le> length xs, take (burst_size - cnt) xs, q')) \<and>
    queued q' (drop (burst_size - cnt) xs) k"
  using assms
proof (induction xs arbitrary: q cnt)
  case Nil
  then show ?case using mpsc.deq_queued [OF Nil.prems(1)] by (subst drain.simps) auto
next
  case (Cons x xs)
  obtain q1 where q1: "try_dequeue q = Some (Inr (Some x, q1))" "queued q1 xs k"
    using mpsc.deq_queued [OF Cons.prems(1)] by auto
  show ?case
  proof (cases "cnt + 1 = burst_size")
    case True
    then show ?thesis using q1 by (subst drain.simps) auto
  next
    case False
    then have "cnt + 1 < burst_size" using Cons.prems(2) by simp
    moreover have "burst_size - cnt = Suc (burst_size - (cnt + 1))" using Cons.prems(2) by simp
    ultimately show ?thesis using Cons.IH [OF q1(2), of "cnt + 1"] q1(1) False by (subst drain.simps) auto
  qed
qed

lemma ev_handle_ok:
  assumes "ev_ok s xs k" and "0 < burst_size"
  shows "\<exists>t. ev_handle True burst_size s = Some (Inr (take burst_size xs, t)) \<and> ev_ok t (drop burst_size xs) k"
  using drain_queued [of "evq s" xs k 0 burst_size] assms unfolding ev_ok_def ev_handle_def by fastforce

lemma event_loop_delivers:
  assumes "ev_ok s xs k" and "0 < burst_size"
  shows "\<exists>t. event_loop burst_size s = Some (Inr (xs, t)) \<and> ev_ok t [] k \<and> \<not> notified t"
  using assms(1)
proof (induction "length xs" arbitrary: s xs rule: less_induct)
  case less
  show ?case
  proof (cases "notified s")
    case False
    then show ?thesis using less.prems by (subst event_loop.simps) (auto simp: ev_ok_def)
  next
    case n: True
    obtain t where t: "ev_handle True burst_size s = Some (Inr (take burst_size xs, t))" "ev_ok t (drop burst_size xs) k"
      using ev_handle_ok [OF less.prems assms(2)] by blast
    show ?thesis
    proof (cases "xs = []")
      case False
      then have "length (drop burst_size xs) < length xs" using assms(2) by simp
      then show ?thesis using less.hyps [OF _ t(2)] t(1) n by (subst event_loop.simps) auto
    next
      case True
      have "ev_handle True burst_size s = Some (Inr ([], t)) \<and> \<not> notified t"
        using mpsc.deq_queued [of "evq s" "[]" k] less.prems True t(1)
        unfolding ev_ok_def ev_handle_def by (subst drain.simps, subst (asm) drain.simps) auto
      then show ?thesis using n t(2) True by (subst event_loop.simps, subst event_loop.simps) simp
    qed
  qed
qed

text \<open>A sequence of producer operations; the elements that were accepted are the result.\<close>

fun enqueue_all :: "('a \<times> bool) list \<Rightarrow> 'a ev_queue \<Rightarrow> ('a list \<times> 'a ev_queue) outcome" where
  "enqueue_all [] s = Some (Inr ([], s))"
| "enqueue_all (p # ps) s = obind (ev_enqueue (fst p) (snd p) s) (\<lambda>(ok, s1). obind (enqueue_all ps s1) (\<lambda>(ys, s2).
     Some (Inr ((if ok then fst p # ys else ys), s2))))"

lemma enqueue_all_ok:
  "ev_ok s xs k \<Longrightarrow> \<exists>ys t k1. enqueue_all ps s = Some (Inr (ys, t)) \<and> ev_ok t (xs @ ys) k1 \<and> (list_all snd ps \<longrightarrow> ys = map fst ps)"
proof (induction ps arbitrary: s xs k)
  case Nil
  then show ?case by auto
next
  case (Cons p ps)
  from ev_enqueue_ok [OF Cons.prems, of "fst p" "snd p"] show ?case
  proof (elim disjE exE conjE)
    fix t k' assume t: "ev_enqueue (fst p) (snd p) s = Some (Inr (True, t))" "ev_ok t (xs @ [fst p]) k'"
    show ?thesis using Cons.IH [OF t(2)] t(1) by auto
  next
    assume "\<not> snd p" "ev_enqueue (fst p) (snd p) s = Some (Inr (False, s))"
    then show ?thesis using Cons.IH [OF Cons.prems] by auto
  qed
qed

end
