(* ===== verification/Connection.thy ===== *)
theory Connection
  imports Framing Event_Queue
begin

text \<open>
  One connection of \<open>MsgNetwork\<close>: reading from the socket and cutting messages out of the receive buffer
  (\<^verbatim>\<open>conn.cpp\<close>, \<open>MsgNetwork::on_read\<close> in \<^verbatim>\<open>network.h\<close>), and writing messages through the send buffer. The results of the
  system calls \<open>recv\<close> and \<open>send\<close> are inputs: a list per callback, and an exhausted list is a call that
  would block. Registering interest in socket events is the pair of flags \<open>ready_recv\<close> and
  \<open>ready_send\<close>: a set flag means that the event is masked. Plain and TLS sockets differ only in the
  system call.
\<close>

section \<open>Receiving\<close>

datatype msg_state = HEADER | PAYLOAD

record net_config =
  max_msg_size :: nat
  recv_chunk_size :: nat
  max_recv_buff_size :: nat

record conn =
  recv_buffer :: seg_buffer
  conn_msg :: msg
  conn_state :: msg_state
  msg_sleep :: bool
  ready_recv :: bool
  terminated :: bool

definition empty_msg :: msg where
  "empty_msg = \<lparr>magic = 0, opcode = 255, msg_length = 0, checksum = 0, payload = [], no_payload = True\<rparr>"

definition conn_new :: conn where
  "conn_new = \<lparr>recv_buffer = sb_new, conn_msg = empty_msg, conn_state = HEADER, msg_sleep = False, ready_recv = False,
     terminated = False\<rparr>"

text \<open>How the loop of \<open>on_read\<close> ends: it breaks, raises the exception for an oversized message, or returns because
  the queue of incoming messages is full.\<close>

datatype read_end = Break | Oversized | Asleep

definition read_header :: "net_config \<Rightarrow> conn \<Rightarrow> err + read_end option \<times> conn" where
  "read_header cfg c =
     (if conn_state c = HEADER then
        if sb_size (recv_buffer c) < header_size then Inr (Some Break, c)
        else
          let (bytes, rb) = sb_pop header_size (recv_buffer c)
          in ebind (fst (msg_parse (ds_of_bytes bytes))) (\<lambda>m.
             let c1 = c\<lparr>recv_buffer := rb, conn_msg := m\<rparr>
             in if unat (msg_length m) > max_msg_size cfg then Inr (Some Oversized, c1)
                else Inr (None, c1\<lparr>conn_state := PAYLOAD\<rparr>))
      else Inr (None, c))"

text \<open>\<open>enq\<close> is \<open>incoming_msgs.enqueue(..., false)\<close>.\<close>

partial_function (option) read_loop ::
  "net_config \<Rightarrow> sha1 \<Rightarrow> (msg \<Rightarrow> 'q \<Rightarrow> (bool \<times> 'q) outcome) \<Rightarrow> conn \<Rightarrow> 'q \<Rightarrow> (read_end \<times> conn \<times> 'q) outcome" where
  "read_loop cfg sha1 enq c q = (case read_header cfg c of
      Inl e \<Rightarrow> Some (Inl e)
    | Inr (Some r, c1) \<Rightarrow> Some (Inr (r, c1, q))
    | Inr (None, c1) \<Rightarrow>
        let len = unat (msg_length (conn_msg c1)) in
        if sb_size (recv_buffer c1) < len then Some (Inr (Break, c1, q))
        else
          let (bytes, rb) = sb_pop len (recv_buffer c1);
              m = set_payload bytes (conn_msg c1);
              c2 = c1\<lparr>recv_buffer := rb, conn_msg := m, conn_state := HEADER\<rparr>
          in (case verify_checksum sha1 m of
                Inl e \<Rightarrow> Some (Inl e)
              | Inr valid \<Rightarrow>
                  if \<not> valid then Some (Inr (Break, c2, q))
                  else obind (enq m q) (\<lambda>(ok, q1).
                    if ok then read_loop cfg sha1 enq c2 q1 else Some (Inr (Asleep, c2\<lparr>msg_sleep := True\<rparr>, q1)))))"

text \<open>\<open>on_read\<close> up to the call that resumes reading; the first component says whether it is made. The exception
  for an oversized message terminates the connection in the callback that runs \<open>on_read\<close>.\<close>

definition read_msgs ::
  "net_config \<Rightarrow> sha1 \<Rightarrow> (msg \<Rightarrow> 'q \<Rightarrow> (bool \<times> 'q) outcome) \<Rightarrow> conn \<Rightarrow> 'q \<Rightarrow> (bool \<times> conn \<times> 'q) outcome" where
  "read_msgs cfg sha1 enq c q = (if msg_sleep c then Some (Inr (False, c, q))
     else obind (read_loop cfg sha1 enq c q) (\<lambda>(r, c1, q1). case r of
         Break \<Rightarrow> Some (Inr (ready_recv c1 \<and> sb_len (recv_buffer c1) < max_recv_buff_size cfg, c1, q1))
       | Oversized \<Rightarrow> Some (Inr (False, c1\<lparr>terminated := True\<rparr>, q1))
       | Asleep \<Rightarrow> Some (Inr (False, c1, q1))))"

datatype recv_ret = RecvData "byte list" | RecvBlock | RecvFail | RecvClosed

text \<open>The loop of \<open>_recv_data\<close>: it ends with the buffer full, with the socket drained, or with a failure.\<close>

datatype fill_end = Full | Drained | Failed

fun recv_fill :: "net_config \<Rightarrow> recv_ret list \<Rightarrow> conn \<Rightarrow> fill_end \<times> recv_ret list \<times> conn" where
  "recv_fill cfg [] c =
     (if sb_len (recv_buffer c) \<ge> max_recv_buff_size cfg then (Full, [], c\<lparr>ready_recv := True\<rparr>) else (Drained, [], c))"
| "recv_fill cfg (r # rs) c =
     (if sb_len (recv_buffer c) \<ge> max_recv_buff_size cfg then (Full, r # rs, c\<lparr>ready_recv := True\<rparr>)
      else case r of
          RecvBlock \<Rightarrow> (Drained, rs, c)
        | RecvFail \<Rightarrow> (Failed, rs, c\<lparr>terminated := True\<rparr>)
        | RecvClosed \<Rightarrow> (Failed, rs, c\<lparr>terminated := True\<rparr>)
        | RecvData d \<Rightarrow>
            let c1 = c\<lparr>recv_buffer := sb_push d (recv_buffer c)\<rparr>
            in if length d = recv_chunk_size cfg then recv_fill cfg rs c1 else (Drained, rs, c1))"

partial_function (option) recv_data ::
  "net_config \<Rightarrow> sha1 \<Rightarrow> (msg \<Rightarrow> 'q \<Rightarrow> (bool \<times> 'q) outcome) \<Rightarrow> recv_ret list \<Rightarrow> conn \<Rightarrow> 'q \<Rightarrow>
   (recv_ret list \<times> conn \<times> 'q) outcome" where
  "recv_data cfg sha1 enq rs c q = (case recv_fill cfg rs c of
      (Full, rs1, c1) \<Rightarrow> Some (Inr (rs1, c1, q))
    | (Failed, rs1, c1) \<Rightarrow> Some (Inr (rs1, c1, q))
    | (Drained, rs1, c1) \<Rightarrow> obind (read_msgs cfg sha1 enq (c1\<lparr>ready_recv := False\<rparr>) q) (\<lambda>(resume, c2, q1).
        if resume then recv_data cfg sha1 enq rs1 c2 q1 else Some (Inr (rs1, c2, q1))))"

definition on_read ::
  "net_config \<Rightarrow> sha1 \<Rightarrow> (msg \<Rightarrow> 'q \<Rightarrow> (bool \<times> 'q) outcome) \<Rightarrow> recv_ret list \<Rightarrow> conn \<Rightarrow> 'q \<Rightarrow>
   (recv_ret list \<times> conn \<times> 'q) outcome" where
  "on_read cfg sha1 enq rs c q = obind (read_msgs cfg sha1 enq c q) (\<lambda>(resume, c1, q1).
     if resume then recv_data cfg sha1 enq rs c1 q1 else Some (Inr (rs, c1, q1)))"

text \<open>The timer \<open>ev_enqueue_poll\<close> of a connection whose last message did not fit into the queue.\<close>

definition enqueue_poll ::
  "net_config \<Rightarrow> sha1 \<Rightarrow> (msg \<Rightarrow> 'q \<Rightarrow> (bool \<times> 'q) outcome) \<Rightarrow> recv_ret list \<Rightarrow> conn \<Rightarrow> 'q \<Rightarrow>
   (recv_ret list \<times> conn \<times> 'q) outcome" where
  "enqueue_poll cfg sha1 enq rs c q = obind (enq (conn_msg c) q) (\<lambda>(ok, q1).
     if ok then on_read cfg sha1 enq rs (c\<lparr>msg_sleep := False\<rparr>) q1 else Some (Inr (rs, c\<lparr>msg_sleep := True\<rparr>, q1)))"

section \<open>Sending\<close>

datatype send_ret = Sent nat | SendBlock | SendFail

record sender =
  send_buffer :: "byte list ev_queue"
  ready_send :: bool
  send_terminated :: bool

definition conn_write :: "nat \<Rightarrow> byte list \<Rightarrow> sender \<Rightarrow> (bool \<times> sender) outcome" where
  "conn_write max_send_buff_size d s = obind (ev_enqueue d (max_send_buff_size = 0) (send_buffer s)) (\<lambda>(ok, q).
     Some (Inr (ok, s\<lparr>send_buffer := q\<rparr>)))"

definition send_msg :: "nat \<Rightarrow> msg \<Rightarrow> sender \<Rightarrow> (bool \<times> sender) outcome" where
  "send_msg max_send_buff_size m = conn_write max_send_buff_size (msg_serialize m)"

text \<open>\<open>MPSCWriteBuffer::move_pop\<close>: nothing is the empty segment.\<close>

definition move_pop :: "byte list ev_queue \<Rightarrow> (byte list \<times> byte list ev_queue) outcome" where
  "move_pop b = obind (try_dequeue (evq b)) (\<lambda>(r, q). Some (Inr (case r of None \<Rightarrow> [] | Some d \<Rightarrow> d, b\<lparr>evq := q\<rparr>)))"

definition write_rewind :: "byte list \<Rightarrow> sender \<Rightarrow> sender outcome" where
  "write_rewind d s = obind (rewind d (evq (send_buffer s))) (\<lambda>q. Some (Inr (s\<lparr>send_buffer := (send_buffer s)\<lparr>evq := q\<rparr>\<rparr>)))"

text \<open>\<open>_send_data\<close>; the first result is what went out on the socket. \<open>send\<close> never reports more than it was given.\<close>

fun send_data :: "send_ret list \<Rightarrow> sender \<Rightarrow> (byte list \<times> sender) outcome" where
  "send_data rs s = obind (move_pop (send_buffer s)) (\<lambda>(seg, b).
     let s1 = s\<lparr>send_buffer := b\<rparr> in
     if seg = [] then Some (Inr ([], s1\<lparr>ready_send := True\<rparr>))
     else case rs of
         [] \<Rightarrow> obind (write_rewind seg s1) (\<lambda>s2. Some (Inr ([], s2\<lparr>ready_send := False\<rparr>)))
       | SendBlock # rs1 \<Rightarrow> obind (write_rewind seg s1) (\<lambda>s2. Some (Inr ([], s2\<lparr>ready_send := False\<rparr>)))
       | SendFail # rs1 \<Rightarrow> obind (write_rewind seg s1) (\<lambda>s2. Some (Inr ([], s2\<lparr>send_terminated := True\<rparr>)))
       | Sent n # rs1 \<Rightarrow>
           if n \<ge> length seg then
             obind (send_data rs1 s1) (\<lambda>(out, s2). Some (Inr (seg @ out, s2)))
           else if n < 1 then obind (write_rewind seg s1) (\<lambda>s2. Some (Inr ([], s2\<lparr>ready_send := False\<rparr>)))
           else obind (write_rewind (drop n seg) s1) (\<lambda>s2. Some (Inr (take n seg, s2\<lparr>ready_send := False\<rparr>))))"

section \<open>Cutting messages out of the stream\<close>

definition wire :: "msg list \<Rightarrow> byte list" where
  "wire ms = concat (map msg_serialize ms)"

lemma wire_simps [simp]: "wire [] = []" "wire (m # ms) = msg_header m @ payload m @ wire ms" "wire (ms @ ns) = wire ms @ wire ns"
  by (simp_all add: wire_def msg_serialize_def)

text \<open>\<open>pending c rem fut\<close>: the messages \<open>rem\<close> have not been handed to the queue yet; their bytes are in the state of
  the connection or still to come (\<open>fut\<close>).\<close>

definition pending :: "conn \<Rightarrow> msg list \<Rightarrow> byte list \<Rightarrow> bool" where
  "pending c rem fut \<longleftrightarrow> sb_ok (recv_buffer c) \<and> (case conn_state c of
      HEADER \<Rightarrow>
        if msg_sleep c then \<exists>m rest. rem = m # rest \<and> conn_msg c = m \<and> sb_bytes (recv_buffer c) @ fut = wire rest
        else sb_bytes (recv_buffer c) @ fut = wire rem
    | PAYLOAD \<Rightarrow> \<not> msg_sleep c \<and> (\<exists>m rest. rem = m # rest \<and> conn_msg c = header_only m \<and>
        sb_bytes (recv_buffer c) @ fut = payload m @ wire rest))"

text \<open>The buffer holds no complete header or payload.\<close>

definition short :: "conn \<Rightarrow> bool" where
  "short c \<longleftrightarrow> sb_size (recv_buffer c) < (case conn_state c of HEADER \<Rightarrow> header_size | PAYLOAD \<Rightarrow> unat (msg_length (conn_msg c)))"

definition sendable :: "net_config \<Rightarrow> sha1 \<Rightarrow> msg list \<Rightarrow> bool" where
  "sendable cfg sha1 ms \<longleftrightarrow> (\<forall>m \<in> set ms. msg_wf sha1 m \<and> length (payload m) \<le> max_msg_size cfg)"

lemma sendable_simps [simp]:
  "sendable cfg sha1 (m # ms) \<longleftrightarrow> msg_wf sha1 m \<and> length (payload m) \<le> max_msg_size cfg \<and> sendable cfg sha1 ms"
  "sendable cfg sha1 (ms @ ns) \<longleftrightarrow> sendable cfg sha1 ms \<and> sendable cfg sha1 ns"
  by (auto simp: sendable_def)

lemma take_stream: "length b \<le> length xs \<Longrightarrow> xs @ fut = b @ ys \<Longrightarrow> take (length b) xs = b \<and> drop (length b) xs @ fut = ys"
  by (auto simp: append_eq_append_conv2)

lemma sb_size_bytes: "sb_ok s \<Longrightarrow> sb_size s = length (sb_bytes s)"
  by (simp add: sb_ok_def)

lemma short_nothing_left:
  assumes "pending c rem []" and "short c" and "\<not> msg_sleep c" and "sendable cfg sha1 rem"
  shows "rem = []"
proof (cases rem)
  case (Cons m rest)
  have "msg_wf sha1 m" using assms(4) Cons by simp
  then show ?thesis using assms(1-3) Cons
    by (cases "conn_state c") (auto simp: pending_def short_def sb_size_bytes msg_wf_length header_only_def)
qed

lemma read_header_pending:
  assumes "pending c (m # rest) fut" and "conn_state c = HEADER" and "\<not> msg_sleep c" and "\<not> short c"
    and "sendable cfg sha1 (m # rest)"
  shows "\<exists>c1. read_header cfg c = Inr (None, c1) \<and> pending c1 (m # rest) fut \<and> conn_state c1 = PAYLOAD \<and>
    msg_sleep c1 = msg_sleep c \<and> ready_recv c1 = ready_recv c \<and> terminated c1 = terminated c"
proof -
  let ?b = "recv_buffer c"
  have ok: "sb_ok ?b" and st: "sb_bytes ?b @ fut = msg_header m @ (payload m @ wire rest)"
    using assms(1-3) by (simp_all add: pending_def)
  have ge: "length (msg_header m) \<le> length (sb_bytes ?b)" using assms(2,4) ok by (simp add: short_def sb_size_bytes)
  note t = take_stream [OF ge st]
  have h: "header_size = length (msg_header m)" by simp
  have pop: "fst (sb_pop header_size ?b) = msg_header m" "sb_bytes (snd (sb_pop header_size ?b)) @ fut = payload m @ wire rest"
      "sb_ok (snd (sb_pop header_size ?b))"
    using sb_pop_ok [OF ok, of header_size] t unfolding h by simp_all
  have len: "unat (msg_length (header_only m)) \<le> max_msg_size cfg"
    using assms(5) msg_wf_length by (auto simp: header_only_def)
  have "read_header cfg c = Inr (None, c\<lparr>recv_buffer := snd (sb_pop header_size ?b), conn_msg := header_only m, conn_state := PAYLOAD\<rparr>)"
    using assms(2,4) pop(1) len msg_parse_header [of m]
    by (cases "sb_pop header_size ?b") (simp add: read_header_def short_def Let_def)
  then show ?thesis using pop(2,3) assms(3) by (auto simp: pending_def)
qed

lemma read_loop_payload:
  assumes "read_header cfg c = Inr (None, c1)" and "conn_state c1 = PAYLOAD"
  shows "read_loop cfg sha1 enq c q = read_loop cfg sha1 enq c1 q"
proof -
  have "read_header cfg c1 = Inr (None, c1)" using assms(2) by (simp add: read_header_def)
  then show ?thesis by (subst (1 2) read_loop.simps) (simp add: assms(1))
qed

lemma read_loop_short:
  assumes "short c"
  shows "read_loop cfg sha1 enq c q = Some (Inr (Break, c, q))"
  using assms by (cases "conn_state c"; subst read_loop.simps) (simp_all add: read_header_def short_def Let_def)

lemma read_loop_message:
  assumes "pending c (m # rest) fut" and "conn_state c = PAYLOAD" and "\<not> short c" and "msg_wf sha1 m"
  shows "\<exists>c2. read_loop cfg sha1 enq c q = obind (enq m q) (\<lambda>(ok, q1).
      if ok then read_loop cfg sha1 enq c2 q1 else Some (Inr (Asleep, c2\<lparr>msg_sleep := True\<rparr>, q1))) \<and>
    pending c2 rest fut \<and> pending (c2\<lparr>msg_sleep := True\<rparr>) (m # rest) fut \<and> \<not> msg_sleep c2 \<and> ready_recv c2 = ready_recv c \<and> terminated c2 = terminated c"
proof -
  let ?b = "recv_buffer c"
  have ok: "sb_ok ?b" and sl: "\<not> msg_sleep c" and cm: "conn_msg c = header_only m" and st: "sb_bytes ?b @ fut = payload m @ wire rest"
    using assms(1,2) by (auto simp: pending_def)
  have len: "unat (msg_length (conn_msg c)) = length (payload m)" using assms(4) cm by (simp add: header_only_def msg_wf_length)
  have ge: "length (payload m) \<le> length (sb_bytes ?b)" using assms(2,3) ok len by (simp add: short_def sb_size_bytes)
  note t = take_stream [OF ge st]
  have pop: "fst (sb_pop (length (payload m)) ?b) = payload m" "sb_bytes (snd (sb_pop (length (payload m)) ?b)) @ fut = wire rest"
      "sb_ok (snd (sb_pop (length (payload m)) ?b))"
    using sb_pop_ok [OF ok, of "length (payload m)"] t by simp_all
  let ?c2 = "c\<lparr>recv_buffer := snd (sb_pop (length (payload m)) ?b), conn_msg := m, conn_state := HEADER\<rparr>"
  have "\<not> sb_size ?b < length (payload m)" using ge ok by (simp add: sb_size_bytes)
  then have "read_loop cfg sha1 enq c q = obind (enq m q) (\<lambda>(ok, q1).
      if ok then read_loop cfg sha1 enq ?c2 q1 else Some (Inr (Asleep, ?c2\<lparr>msg_sleep := True\<rparr>, q1)))"
    using assms(2) len pop(1) set_payload_header [OF assms(4)] msg_wf_verify [OF assms(4)] cm
    by (subst read_loop.simps, cases "sb_pop (length (payload m)) ?b") (simp add: read_header_def Let_def cong: if_cong)
  moreover have "pending ?c2 rest fut" "pending (?c2\<lparr>msg_sleep := True\<rparr>) (m # rest) fut"
    using pop(2,3) sl by (simp_all add: pending_def)
  ultimately show ?thesis using sl by (intro exI [of _ ?c2]) simp
qed

text \<open>The bytes that the remaining calls of \<open>recv\<close> will return.\<close>

fun recv_bytes :: "recv_ret list \<Rightarrow> byte list" where
  "recv_bytes [] = []"
| "recv_bytes (RecvData d # rs) = d @ recv_bytes rs"
| "recv_bytes (r # rs) = recv_bytes rs"

lemma pending_length: "pending c rem fut \<Longrightarrow> length (sb_bytes (recv_buffer c)) + length fut \<le> length (wire rem)"
  by (cases "conn_state c") (auto simp: pending_def split: if_splits dest!: arg_cong [where f = length])

lemma pending_flags [simp]:
  "pending (c\<lparr>ready_recv := b\<rparr>) rem fut = pending c rem fut" "pending (c\<lparr>terminated := b\<rparr>) rem fut = pending c rem fut"
  by (cases "conn_state c"; simp add: pending_def)+

lemma recv_fill_pending:
  assumes "pending c rem (recv_bytes rs @ fut)" and "length (wire rem) < 2 ^ 64"
  shows "pending (snd (snd (recv_fill cfg rs c))) rem (recv_bytes (fst (snd (recv_fill cfg rs c))) @ fut) \<and>
    (fst (recv_fill cfg rs c) = Full \<and> ready_recv (snd (snd (recv_fill cfg rs c))) \<or>
     fst (recv_fill cfg rs c) = Failed \<and> terminated (snd (snd (recv_fill cfg rs c))) \<or> fst (recv_fill cfg rs c) = Drained)"
  using assms
proof (induction rs arbitrary: c)
  case Nil
  then show ?case by simp
next
  case (Cons r rs)
  show ?case
  proof (cases "sb_len (recv_buffer c) \<ge> max_recv_buff_size cfg")
    case True
    then show ?thesis using Cons.prems by simp
  next
    case False
    show ?thesis
    proof (cases r)
      case (RecvData d)
      have "length (sb_bytes (recv_buffer c)) + length d < 2 ^ 64"
        using pending_length [OF Cons.prems(1)] Cons.prems(2) RecvData by simp
      moreover have "sb_ok (recv_buffer c)" using Cons.prems(1) by (simp add: pending_def)
      ultimately have push: "sb_ok (sb_push d (recv_buffer c))" "sb_bytes (sb_push d (recv_buffer c)) = sb_bytes (recv_buffer c) @ d"
        using sb_push_ok by blast+
      have p: "pending (c\<lparr>recv_buffer := sb_push d (recv_buffer c)\<rparr>) rem (recv_bytes rs @ fut)"
        using Cons.prems(1) push RecvData by (simp add: pending_def split: msg_state.splits if_splits)
      then show ?thesis using Cons.IH [OF p Cons.prems(2)] False RecvData by (simp add: Let_def)
    qed (use False Cons.prems in simp_all)
  qed
qed

text \<open>After every callback the connection is closed, waits for the queue or for its reader, or has nothing
  complete in the buffer.\<close>

definition settled :: "conn \<Rightarrow> bool" where
  "settled c \<longleftrightarrow> terminated c \<or> msg_sleep c \<or> ready_recv c \<or> short c"

section \<open>The contract with the queue\<close>

text \<open>A queue takes the message at its end or refuses it and stays as it is.\<close>

locale msg_sink =
  fixes enq :: "msg \<Rightarrow> 'q \<Rightarrow> (bool \<times> 'q) outcome" and contents :: "'q \<Rightarrow> msg list \<Rightarrow> bool"
  assumes enq_contents: "contents q xs \<Longrightarrow>
    (\<exists>q1. enq m q = Some (Inr (True, q1)) \<and> contents q1 (xs @ [m])) \<or> enq m q = Some (Inr (False, q))"
begin

text \<open>What a step of the receiver does: some messages move from the stream to the end of the queue.\<close>

definition moved :: "msg list \<Rightarrow> msg list \<Rightarrow> byte list \<Rightarrow> conn \<Rightarrow> 'q \<Rightarrow> bool" where
  "moved xs rem fut c q \<longleftrightarrow> (\<exists>ys rest. rem = ys @ rest \<and> contents q (xs @ ys) \<and> pending c rest fut)"

lemma moved_append: "moved (xs @ ys) rem fut c q \<Longrightarrow> moved xs (ys @ rem) fut c q"
  unfolding moved_def by clarsimp (metis append.assoc)

lemma read_loop_moves:
  assumes "contents q xs" and "pending c rem fut" and "\<not> msg_sleep c" and "sendable cfg sha1 rem"
  shows "\<exists>r c1 q1. read_loop cfg sha1 enq c q = Some (Inr (r, c1, q1)) \<and> moved xs rem fut c1 q1 \<and>
    (r = Break \<and> short c1 \<and> \<not> msg_sleep c1 \<or> r = Asleep \<and> msg_sleep c1) \<and> ready_recv c1 = ready_recv c \<and> terminated c1 = terminated c"
  using assms
proof (induction rem arbitrary: c q xs)
  case Nil
  have "short c" using Nil.prems by (cases "conn_state c") (auto simp: pending_def short_def sb_size_bytes header_size_def)
  then show ?case using Nil.prems by (auto simp: read_loop_short moved_def)
next
  case (Cons m rest)
  have payload: ?case if p: "pending c1 (m # rest) fut" "conn_state c1 = PAYLOAD" "\<not> msg_sleep c1" "ready_recv c1 = ready_recv c"
      "terminated c1 = terminated c" and eq: "read_loop cfg sha1 enq c q = read_loop cfg sha1 enq c1 q" for c1
  proof (cases "short c1")
    case True
    have "moved xs (m # rest) fut c1 q" unfolding moved_def using Cons.prems(1) p(1) by (metis append_Nil append_Nil2)
    then show ?thesis unfolding eq read_loop_short [OF True]
      by (intro exI [of _ Break] exI [of _ c1] exI [of _ q]) (simp add: p True)
  next
    case False
    have wf: "msg_wf sha1 m" using Cons.prems(4) by simp
    obtain c2 where c2: "read_loop cfg sha1 enq c1 q = obind (enq m q) (\<lambda>(ok, q1).
          if ok then read_loop cfg sha1 enq c2 q1 else Some (Inr (Asleep, c2\<lparr>msg_sleep := True\<rparr>, q1)))"
        "pending c2 rest fut" "pending (c2\<lparr>msg_sleep := True\<rparr>) (m # rest) fut" "\<not> msg_sleep c2" "ready_recv c2 = ready_recv c1"
        "terminated c2 = terminated c1"
      using read_loop_message [OF p(1,2) False wf, of cfg enq q] by blast
    from enq_contents [OF Cons.prems(1), of m] show ?thesis
    proof
      assume "\<exists>q1. enq m q = Some (Inr (True, q1)) \<and> contents q1 (xs @ [m])"
      then obtain q1 where q1: "enq m q = Some (Inr (True, q1))" "contents q1 (xs @ [m])" by blast
      have step: "read_loop cfg sha1 enq c q = read_loop cfg sha1 enq c2 q1" unfolding eq c2(1) q1(1) by simp
      have "sendable cfg sha1 rest" using Cons.prems(4) by simp
      from Cons.IH [OF q1(2) c2(2,4) this] obtain r c3 q3 where
        "read_loop cfg sha1 enq c2 q1 = Some (Inr (r, c3, q3))" "moved (xs @ [m]) rest fut c3 q3"
        "r = Break \<and> short c3 \<and> \<not> msg_sleep c3 \<or> r = Asleep \<and> msg_sleep c3" "ready_recv c3 = ready_recv c2" "terminated c3 = terminated c2"
        by blast
      then show ?thesis unfolding step using moved_append [of xs "[m]" rest fut c3 q3] c2(5,6) p(4,5)
        by (intro exI [of _ r] exI [of _ c3] exI [of _ q3]) simp
    next
      assume "enq m q = Some (Inr (False, q))"
      moreover have "moved xs (m # rest) fut (c2\<lparr>msg_sleep := True\<rparr>) q"
        unfolding moved_def using Cons.prems(1) c2(3) by (metis append_Nil append_Nil2)
      ultimately show ?thesis unfolding eq c2(1)
        by (intro exI [of _ Asleep] exI [of _ "c2\<lparr>msg_sleep := True\<rparr>"] exI [of _ q]) (simp add: c2 p)
    qed
  qed
  show ?case
  proof (cases "conn_state c")
    case PAYLOAD
    then show ?thesis using payload [of c] Cons.prems by simp
  next
    case HEADER
    show ?thesis
    proof (cases "short c")
      case True
      have "moved xs (m # rest) fut c q" unfolding moved_def using Cons.prems(1,2) by (metis append_Nil append_Nil2)
      then show ?thesis unfolding read_loop_short [OF True]
        by (intro exI [of _ Break] exI [of _ c] exI [of _ q]) (simp add: True Cons.prems(3))
    next
      case False
      obtain c1 where "read_header cfg c = Inr (None, c1)" "pending c1 (m # rest) fut" "conn_state c1 = PAYLOAD" "\<not> msg_sleep c1"
          "ready_recv c1 = ready_recv c" "terminated c1 = terminated c"
        using read_header_pending [OF Cons.prems(2) HEADER Cons.prems(3) False Cons.prems(4)] Cons.prems(3) by auto
      then show ?thesis using payload [of c1] read_loop_payload [of cfg c c1 sha1 enq q] by simp
    qed
  qed
qed

lemma read_msgs_moves:
  assumes "contents q xs" and "pending c rem fut" and "sendable cfg sha1 rem"
  shows "\<exists>resume c1 q1. read_msgs cfg sha1 enq c q = Some (Inr (resume, c1, q1)) \<and> moved xs rem fut c1 q1 \<and>
    (msg_sleep c1 \<or> short c1) \<and> (resume \<longrightarrow> ready_recv c) \<and> terminated c1 = terminated c"
proof (cases "msg_sleep c")
  case True
  have "moved xs rem fut c q" unfolding moved_def using assms(1,2) by (metis append_Nil append_Nil2)
  then show ?thesis using True by (intro exI [of _ False] exI [of _ c] exI [of _ q]) (simp add: read_msgs_def)
next
  case False
  obtain r c1 q1 where r: "read_loop cfg sha1 enq c q = Some (Inr (r, c1, q1))" "moved xs rem fut c1 q1"
    "r = Break \<and> short c1 \<and> \<not> msg_sleep c1 \<or> r = Asleep \<and> msg_sleep c1" "ready_recv c1 = ready_recv c" "terminated c1 = terminated c"
    using read_loop_moves [OF assms(1,2) False assms(3)] by blast
  let ?resume = "r = Break \<and> ready_recv c1 \<and> sb_len (recv_buffer c1) < max_recv_buff_size cfg"
  have "read_msgs cfg sha1 enq c q = Some (Inr (?resume, c1, q1))" using r(1,3) False by (auto simp: read_msgs_def)
  then show ?thesis using r by (intro exI [of _ ?resume] exI [of _ c1] exI [of _ q1]) auto
qed

lemma recv_data_moves:
  assumes "contents q xs" and "pending c rem (recv_bytes rs @ fut)" and "sendable cfg sha1 rem" and "length (wire rem) < 2 ^ 64"
  shows "\<exists>rs1 c1 q1. recv_data cfg sha1 enq rs c q = Some (Inr (rs1, c1, q1)) \<and> moved xs rem (recv_bytes rs1 @ fut) c1 q1 \<and> settled c1"
proof -
  obtain e rs1 c1 where f: "recv_fill cfg rs c = (e, rs1, c1)" by (metis prod_cases3)
  have p: "pending c1 rem (recv_bytes rs1 @ fut)" and s: "e = Full \<and> ready_recv c1 \<or> e = Failed \<and> terminated c1 \<or> e = Drained"
    using recv_fill_pending [OF assms(2,4)] f by (metis fst_conv snd_conv)+
  have now: "moved xs rem (recv_bytes rs1 @ fut) c1 q" unfolding moved_def using assms(1) p by (metis append_Nil append_Nil2)
  show ?thesis
  proof (cases "e = Drained")
    case False
    then show ?thesis using s now f by (subst recv_data.simps) (auto simp: settled_def)
  next
    case True
    have p': "pending (c1\<lparr>ready_recv := False\<rparr>) rem (recv_bytes rs1 @ fut)" using p by simp
    obtain resume c2 q1 where r: "read_msgs cfg sha1 enq (c1\<lparr>ready_recv := False\<rparr>) q = Some (Inr (resume, c2, q1))"
      "moved xs rem (recv_bytes rs1 @ fut) c2 q1" "msg_sleep c2 \<or> short c2" "\<not> resume"
      using read_msgs_moves [OF assms(1) p' assms(3)] by auto
    then show ?thesis using f True by (subst recv_data.simps) (auto simp: settled_def)
  qed
qed

lemma moved_trans:
  assumes "moved xs rem fut c q" and "\<And>ys rest. rem = ys @ rest \<Longrightarrow> contents q (xs @ ys) \<Longrightarrow> pending c rest fut \<Longrightarrow> moved (xs @ ys) rest fut' c' q'"
  shows "moved xs rem fut' c' q'"
  using assms moved_append unfolding moved_def [of xs rem fut c q] by blast

lemma on_read_moves:
  assumes "contents q xs" and "pending c rem (recv_bytes rs @ fut)" and "sendable cfg sha1 rem" and "length (wire rem) < 2 ^ 64"
  shows "\<exists>rs1 c1 q1. on_read cfg sha1 enq rs c q = Some (Inr (rs1, c1, q1)) \<and> moved xs rem (recv_bytes rs1 @ fut) c1 q1 \<and> settled c1"
proof -
  obtain resume c1 q1 where r: "read_msgs cfg sha1 enq c q = Some (Inr (resume, c1, q1))"
      "moved xs rem (recv_bytes rs @ fut) c1 q1" "msg_sleep c1 \<or> short c1"
    using read_msgs_moves [OF assms(1,2,3)] by blast
  show ?thesis
  proof (cases resume)
    case False
    then show ?thesis using r by (intro exI [of _ rs] exI [of _ c1] exI [of _ q1]) (auto simp: on_read_def settled_def)
  next
    case True
    obtain ys rest where y: "rem = ys @ rest" "contents q1 (xs @ ys)" "pending c1 rest (recv_bytes rs @ fut)"
      using r(2) unfolding moved_def by blast
    have "sendable cfg sha1 rest" "length (wire rest) < 2 ^ 64" using assms(3,4) y(1) by simp_all
    from recv_data_moves [OF y(2,3) this] obtain rs2 c2 q2 where
      "recv_data cfg sha1 enq rs c1 q1 = Some (Inr (rs2, c2, q2))" "moved (xs @ ys) rest (recv_bytes rs2 @ fut) c2 q2" "settled c2" by blast
    then show ?thesis using r(1) True moved_append y(1) by (simp add: on_read_def)
  qed
qed

lemma enqueue_poll_moves:
  assumes "contents q xs" and "pending c rem (recv_bytes rs @ fut)" and "sendable cfg sha1 rem" and "length (wire rem) < 2 ^ 64"
    and "msg_sleep c"
  shows "\<exists>rs1 c1 q1. enqueue_poll cfg sha1 enq rs c q = Some (Inr (rs1, c1, q1)) \<and> moved xs rem (recv_bytes rs1 @ fut) c1 q1 \<and> settled c1"
proof -
  obtain m rest where m: "rem = m # rest" "conn_msg c = m" "pending (c\<lparr>msg_sleep := False\<rparr>) rest (recv_bytes rs @ fut)"
    using assms(2,5) by (cases "conn_state c") (auto simp: pending_def)
  from enq_contents [OF assms(1), of m] show ?thesis
  proof
    assume "\<exists>q1. enq m q = Some (Inr (True, q1)) \<and> contents q1 (xs @ [m])"
    then obtain q1 where q1: "enq m q = Some (Inr (True, q1))" "contents q1 (xs @ [m])" by blast
    have "sendable cfg sha1 rest" "length (wire rest) < 2 ^ 64" using assms(3,4) m(1) by simp_all
    from on_read_moves [OF q1(2) m(3) this] obtain rs2 c2 q2 where
      "on_read cfg sha1 enq rs (c\<lparr>msg_sleep := False\<rparr>) q1 = Some (Inr (rs2, c2, q2))" "moved (xs @ [m]) rest (recv_bytes rs2 @ fut) c2 q2" "settled c2"
      by blast
    then show ?thesis using q1(1) m(1,2) moved_append [of xs "[m]" rest] by (simp add: enqueue_poll_def)
  next
    assume e: "enq m q = Some (Inr (False, q))"
    have "c\<lparr>msg_sleep := True\<rparr> = c" using assms(5) by (cases c) simp
    then have "enqueue_poll cfg sha1 enq rs c q = Some (Inr (rs, c, q))" using e m(2) by (simp add: enqueue_poll_def)
    moreover have "moved xs rem (recv_bytes rs @ fut) c q" unfolding moved_def using assms(1,2) by (metis append_Nil append_Nil2)
    ultimately show ?thesis using assms(5) by (auto simp: settled_def)
  qed
qed

end

interpretation net: msg_sink "\<lambda>m. ev_enqueue m False" "\<lambda>s xs. \<exists>k. ev_ok s xs k"
proof unfold_locales
  fix q xs m
  assume "\<exists>k. ev_ok q xs k"
  then obtain k where "ev_ok q xs k" ..
  from ev_enqueue_ok [OF this, of m False]
  show "(\<exists>q1. ev_enqueue m False q = Some (Inr (True, q1)) \<and> (\<exists>k. ev_ok q1 (xs @ [m]) k)) \<or> ev_enqueue m False q = Some (Inr (False, q))"
    by (elim disjE exE conjE) (simp_all, blast)
qed

section \<open>Sending in order\<close>

definition unsent :: "sender \<Rightarrow> byte list list \<Rightarrow> bool" where
  "unsent s xs \<longleftrightarrow> (\<exists>k. queued (evq (send_buffer s)) xs k) \<and> [] \<notin> set xs"

lemma unsent_flags [simp]:
  "unsent (s\<lparr>ready_send := b\<rparr>) xs = unsent s xs" "unsent (s\<lparr>send_terminated := b\<rparr>) xs = unsent s xs"
  by (simp_all add: unsent_def)

lemma conn_write_unsent:
  assumes "unsent s xs" and "d \<noteq> []"
  shows "\<exists>ok t. conn_write n d s = Some (Inr (ok, t)) \<and> unsent t (if ok then xs @ [d] else xs) \<and> (n = 0 \<longrightarrow> ok) \<and> send_terminated t = send_terminated s"
proof -
  obtain k where k: "queued (evq (send_buffer s)) xs k" and ne: "[] \<notin> set xs" using assms(1) by (auto simp: unsent_def)
  from enqueue_queued [OF k, of d "n = 0"] show ?thesis
  proof (elim disjE exE conjE)
    fix q k' assume "enqueue d (n = 0) (evq (send_buffer s)) = Some (Inr (True, q))" "queued q (xs @ [d]) k'"
    then show ?thesis using ne assms(2) by (auto simp: conn_write_def ev_enqueue_def unsent_def)
  next
    assume "\<not> n = 0" "enqueue d (n = 0) (evq (send_buffer s)) = Some (Inr (False, evq (send_buffer s)))"
    then show ?thesis using assms(1) by (auto simp: conn_write_def ev_enqueue_def unsent_def)
  qed
qed

lemma move_pop_unsent:
  assumes "unsent s xs"
  shows "\<exists>b. move_pop (send_buffer s) = Some (Inr (case xs of [] \<Rightarrow> [] | d # ds \<Rightarrow> d, b)) \<and> unsent (s\<lparr>send_buffer := b\<rparr>) (tl xs)"
proof -
  obtain k where k: "queued (evq (send_buffer s)) xs k" and ne: "[] \<notin> set xs" using assms by (auto simp: unsent_def)
  show ?thesis
  proof (cases xs)
    case Nil
    then show ?thesis using mpsc.deq_queued [OF k] by (auto simp: move_pop_def unsent_def)
  next
    case (Cons d ds)
    then show ?thesis using mpsc.deq_queued [OF k] ne by (auto simp: move_pop_def unsent_def)
  qed
qed

lemma write_rewind_unsent:
  assumes "unsent s xs" and "d \<noteq> []"
  shows "\<exists>t. write_rewind d s = Some (Inr t) \<and> unsent t (d # xs)"
  using assms rewind_queued [of "evq (send_buffer s)" xs _ d] by (fastforce simp: write_rewind_def unsent_def)

lemma send_data_empty:
  assumes "unsent s []"
  shows "\<exists>t. send_data rs s = Some (Inr ([], t)) \<and> unsent t []"
  using move_pop_unsent [OF assms] by (subst send_data.simps) auto

lemma send_data_unsent:
  assumes "unsent s xs"
  shows "\<exists>out t ys. send_data rs s = Some (Inr (out, t)) \<and> unsent t ys \<and> concat xs = out @ concat ys \<and>
    (\<not> send_terminated s \<longrightarrow> send_terminated t \<or> \<not> ready_send t \<or> ys = [])"
  using assms
proof (induction rs arbitrary: s xs)
  case Nil
  show ?case
  proof (cases xs)
    case Nil
    then show ?thesis using send_data_empty \<open>unsent s xs\<close> by (metis concat.simps(1) append_Nil)
  next
    case (Cons d ds)
    obtain b where b: "move_pop (send_buffer s) = Some (Inr (d, b))" "unsent (s\<lparr>send_buffer := b\<rparr>) ds"
      using move_pop_unsent [OF Nil] Cons by auto
    have "d \<noteq> []" using Nil Cons by (auto simp: unsent_def)
    then show ?thesis using write_rewind_unsent [OF b(2)] b(1) Cons by fastforce
  qed
next
  case (Cons r rs)
  show ?case
  proof (cases xs)
    case Nil
    then show ?thesis using send_data_empty Cons.prems by (metis concat.simps(1) append_Nil)
  next
    case xs: (Cons d ds)
    obtain b where b: "move_pop (send_buffer s) = Some (Inr (d, b))" "unsent (s\<lparr>send_buffer := b\<rparr>) ds"
      using move_pop_unsent [OF Cons.prems] xs by auto
    have d: "d \<noteq> []" using Cons.prems xs by (auto simp: unsent_def)
    obtain t where t: "write_rewind d (s\<lparr>send_buffer := b\<rparr>) = Some (Inr t)" "unsent t (d # ds)"
      using write_rewind_unsent [OF b(2) d] by blast
    show ?thesis
    proof (cases r)
      case (Sent n)
      consider "length d \<le> n" | "n = 0" | "0 < n" "n < length d" by linarith
      then show ?thesis
      proof cases
        case 1
        then show ?thesis using Cons.IH [OF b(2)] b(1) d xs Sent by fastforce
      next
        case 2
        then show ?thesis using t b(1) d xs Sent by (auto intro!: exI [of _ "d # ds"])
      next
        case 3
        obtain u where "write_rewind (drop n d) (s\<lparr>send_buffer := b\<rparr>) = Some (Inr u)" "unsent u (drop n d # ds)"
          using write_rewind_unsent [OF b(2), of "drop n d"] 3 by auto
        then show ?thesis using 3 b(1) d xs Sent by (auto simp flip: append_assoc)
      qed
    qed (use t b(1) d xs in auto)
  qed
qed

end
