(* ===== verification/Channel.thy ===== *)
theory Channel
  imports Connection
begin

text \<open>
  The two ends of a connection as transition systems, and the composition of sender, network and receiver. The
  events of the receiver are the callbacks of the event loop: the socket is readable (unless the event is
  masked), the timer of a sleeping connection, and the consumer of the queue of incoming messages.
  The network delivers a prefix of the bytes that were sent, cut into pieces in any way.
\<close>

section \<open>The receiver\<close>

record receiver =
  sock :: "recv_ret list"
  rconn :: conn
  incoming :: "msg ev_queue"
  handled :: "msg list"

datatype recv_event = OnReadable | OnPoll | OnConsume

definition recv_start :: "nat \<Rightarrow> recv_ret list \<Rightarrow> receiver outcome" where
  "recv_start max_msg_queue_size rs = obind (set_capacity max_msg_queue_size (evq (ev_new :: msg ev_queue))) (\<lambda>q.
     Some (Inr \<lparr>sock = rs, rconn = conn_new, incoming = ev_new\<lparr>evq := q\<rparr>, handled = []\<rparr>))"

definition recv_step :: "net_config \<Rightarrow> sha1 \<Rightarrow> nat \<Rightarrow> recv_event \<Rightarrow> receiver \<Rightarrow> receiver outcome" where
  "recv_step cfg sha1 burst_size ev r = (case ev of
      OnReadable \<Rightarrow>
        if terminated (rconn r) \<or> ready_recv (rconn r) then Some (Inr r)
        else obind (recv_data cfg sha1 (\<lambda>m. ev_enqueue m False) (sock r) (rconn r) (incoming r)) (\<lambda>(rs, c, q).
          Some (Inr (r\<lparr>sock := rs, rconn := c, incoming := q\<rparr>)))
    | OnPoll \<Rightarrow>
        if terminated (rconn r) \<or> \<not> msg_sleep (rconn r) then Some (Inr r)
        else obind (enqueue_poll cfg sha1 (\<lambda>m. ev_enqueue m False) (sock r) (rconn r) (incoming r)) (\<lambda>(rs, c, q).
          Some (Inr (r\<lparr>sock := rs, rconn := c, incoming := q\<rparr>)))
    | OnConsume \<Rightarrow>
        if \<not> notified (incoming r) then Some (Inr r)
        else obind (ev_handle True burst_size (incoming r)) (\<lambda>(ms, q).
          Some (Inr (r\<lparr>incoming := q, handled := handled r @ ms\<rparr>))))"

fun recv_run :: "net_config \<Rightarrow> sha1 \<Rightarrow> nat \<Rightarrow> recv_event list \<Rightarrow> receiver \<Rightarrow> receiver outcome" where
  "recv_run cfg sha1 burst_size [] r = Some (Inr r)"
| "recv_run cfg sha1 burst_size (ev # evs) r = obind (recv_step cfg sha1 burst_size ev r) (recv_run cfg sha1 burst_size evs)"

section \<open>The sender\<close>

record sending =
  endpoint :: sender
  accepted :: "msg list"
  sent_bytes :: "byte list"

datatype send_event = SendMsg msg | Flush "send_ret list"

definition send_start :: "nat \<Rightarrow> sending outcome" where
  "send_start max_send_buff_size = obind (set_capacity max_send_buff_size (evq (ev_new :: byte list ev_queue))) (\<lambda>q.
     Some (Inr \<lparr>endpoint = \<lparr>send_buffer = ev_new\<lparr>evq := q\<rparr>, ready_send = False, send_terminated = False\<rparr>, accepted = [], sent_bytes = []\<rparr>))"

definition send_step :: "nat \<Rightarrow> send_event \<Rightarrow> sending \<Rightarrow> sending outcome" where
  "send_step max_send_buff_size ev s = (case ev of
      SendMsg m \<Rightarrow> obind (send_msg max_send_buff_size m (endpoint s)) (\<lambda>(ok, e).
        Some (Inr (s\<lparr>endpoint := e, accepted := accepted s @ (if ok then [m] else [])\<rparr>)))
    | Flush rs \<Rightarrow>
        if send_terminated (endpoint s) then Some (Inr s)
        else obind (send_data rs (endpoint s)) (\<lambda>(out, e). Some (Inr (s\<lparr>endpoint := e, sent_bytes := sent_bytes s @ out\<rparr>))))"

fun send_run :: "nat \<Rightarrow> send_event list \<Rightarrow> sending \<Rightarrow> sending outcome" where
  "send_run n [] s = Some (Inr s)"
| "send_run n (ev # evs) s = obind (send_step n ev s) (send_run n evs)"

section \<open>Invariants\<close>

definition recv_inv :: "net_config \<Rightarrow> msg list \<Rightarrow> byte list \<Rightarrow> receiver \<Rightarrow> bool" where
  "recv_inv cfg ms fut r \<longleftrightarrow> (\<exists>xs k rest. ev_ok (incoming r) xs k \<and> ms = handled r @ xs @ rest \<and>
     pending (rconn r) rest (recv_bytes (sock r) @ fut) \<and> settled (rconn r))"

lemma recv_inv_moved:
  assumes "net.moved xs rest (recv_bytes rs @ fut) c q" and "ms = handled r @ xs @ rest" and "settled c"
  shows "recv_inv cfg ms fut (r\<lparr>sock := rs, rconn := c, incoming := q\<rparr>)"
  using assms unfolding net.moved_def recv_inv_def by auto

lemma recv_step_inv:
  assumes "recv_inv cfg ms fut r" and "sendable cfg sha1 ms" and "length (wire ms) < 2 ^ 64" and "0 < burst_size"
  shows "\<exists>r1. recv_step cfg sha1 burst_size ev r = Some (Inr r1) \<and> recv_inv cfg ms fut r1"
proof -
  obtain xs k rest where q: "ev_ok (incoming r) xs k" and ms: "ms = handled r @ xs @ rest"
      and p: "pending (rconn r) rest (recv_bytes (sock r) @ fut)" and s: "settled (rconn r)"
    using assms(1) unfolding recv_inv_def by blast
  have qq: "\<exists>k. ev_ok (incoming r) xs k" using q by blast
  have rest: "sendable cfg sha1 rest" "length (wire rest) < 2 ^ 64" using assms(2,3) ms by simp_all
  show ?thesis
  proof (cases ev)
    case OnReadable
    obtain rs c q1 where "recv_data cfg sha1 (\<lambda>m. ev_enqueue m False) (sock r) (rconn r) (incoming r) = Some (Inr (rs, c, q1))"
      "net.moved xs rest (recv_bytes rs @ fut) c q1" "settled c"
      using net.recv_data_moves [OF qq p rest] by blast
    then show ?thesis using recv_inv_moved ms assms(1) OnReadable by (simp add: recv_step_def)
  next
    case OnPoll
    show ?thesis
    proof (cases "terminated (rconn r) \<or> \<not> msg_sleep (rconn r)")
      case True
      then show ?thesis using assms(1) OnPoll by (simp add: recv_step_def)
    next
      case False
      then obtain rs c q1 where "enqueue_poll cfg sha1 (\<lambda>m. ev_enqueue m False) (sock r) (rconn r) (incoming r) = Some (Inr (rs, c, q1))"
        "net.moved xs rest (recv_bytes rs @ fut) c q1" "settled c"
        using net.enqueue_poll_moves [OF qq p rest] by blast
      then show ?thesis using recv_inv_moved ms False OnPoll by (simp add: recv_step_def)
    qed
  next
    case OnConsume
    obtain t where t: "ev_handle True burst_size (incoming r) = Some (Inr (take burst_size xs, t))" "ev_ok t (drop burst_size xs) k"
      using ev_handle_ok [OF q assms(4)] by blast
    have "recv_inv cfg ms fut (r\<lparr>incoming := t, handled := handled r @ take burst_size xs\<rparr>)"
      unfolding recv_inv_def using t(2) p s ms
      by (intro exI [of _ "drop burst_size xs"] exI [of _ k] exI [of _ rest]) simp
    then show ?thesis using t(1) assms(1) OnConsume by (simp add: recv_step_def)
  qed
qed

lemma recv_run_inv:
  assumes "recv_inv cfg ms fut r" and "sendable cfg sha1 ms" and "length (wire ms) < 2 ^ 64" and "0 < burst_size"
  shows "\<exists>r1. recv_run cfg sha1 burst_size evs r = Some (Inr r1) \<and> recv_inv cfg ms fut r1"
  using assms(1)
proof (induction evs arbitrary: r)
  case (Cons ev evs)
  obtain r1 where "recv_step cfg sha1 burst_size ev r = Some (Inr r1)" "recv_inv cfg ms fut r1"
    using recv_step_inv [OF Cons.prems assms(2-4)] by blast
  then show ?case using Cons.IH by simp
qed simp

lemma recv_start_inv:
  assumes "recv_bytes rs @ fut = wire ms"
  shows "\<exists>r. recv_start n rs = Some (Inr r) \<and> recv_inv cfg ms fut r"
proof -
  obtain q k where q: "set_capacity n (evq (ev_new :: msg ev_queue)) = Some (Inr q)" "queued q [] k"
    using set_capacity_queued [of "evq ev_new" "[]" 1 n] new_queued by (auto simp: ev_new_def)
  have "pending conn_new ms (recv_bytes rs @ fut)" "settled conn_new"
    using assms sb_new_ok by (simp_all add: pending_def conn_new_def settled_def short_def header_size_def) (simp add: sb_new_def)
  moreover have "ev_ok (ev_new\<lparr>evq := q\<rparr>) [] k" using q(2) by (simp add: ev_ok_def ev_new_def)
  ultimately have "recv_inv cfg ms fut \<lparr>sock = rs, rconn = conn_new, incoming = ev_new\<lparr>evq := q\<rparr>, handled = []\<rparr>"
    unfolding recv_inv_def by force
  then show ?thesis using q(1) by (simp add: recv_start_def)
qed

definition send_inv :: "sending \<Rightarrow> bool" where
  "send_inv s \<longleftrightarrow> (\<exists>xs. unsent (endpoint s) xs \<and> sent_bytes s @ concat xs = wire (accepted s))"

lemma msg_serialize_nonempty: "msg_serialize m \<noteq> []"
  using length_header [of m] by (auto simp: msg_serialize_def header_size_def simp del: length_header)

lemma send_step_inv:
  assumes "send_inv s"
  shows "\<exists>t. send_step n ev s = Some (Inr t) \<and> send_inv t"
proof -
  obtain xs where xs: "unsent (endpoint s) xs" "sent_bytes s @ concat xs = wire (accepted s)"
    using assms unfolding send_inv_def by blast
  show ?thesis
  proof (cases ev)
    case (SendMsg m)
    obtain ok e where "send_msg n m (endpoint s) = Some (Inr (ok, e))" "unsent e (if ok then xs @ [msg_serialize m] else xs)"
      using conn_write_unsent [OF xs(1) msg_serialize_nonempty] unfolding send_msg_def by blast
    then show ?thesis using xs(2) SendMsg
      by (cases ok) (auto simp: send_step_def send_inv_def wire_def simp flip: append_assoc)
  next
    case (Flush rs)
    obtain out e ys where "send_data rs (endpoint s) = Some (Inr (out, e))" "unsent e ys" "concat xs = out @ concat ys"
      using send_data_unsent [OF xs(1)] by blast
    then show ?thesis using xs(2) Flush assms by (auto simp: send_step_def send_inv_def)
  qed
qed

lemma send_run_inv: "send_inv s \<Longrightarrow> \<exists>t. send_run n evs s = Some (Inr t) \<and> send_inv t"
proof (induction evs arbitrary: s)
  case (Cons ev evs)
  obtain t where "send_step n ev s = Some (Inr t)" "send_inv t" using send_step_inv [OF Cons.prems] by blast
  then show ?case using Cons.IH by simp
qed simp

lemma send_start_inv: "\<exists>s. send_start n = Some (Inr s) \<and> send_inv s"
proof -
  obtain q k where "set_capacity n (evq (ev_new :: byte list ev_queue)) = Some (Inr q)" "queued q [] k"
    using set_capacity_queued [of "evq ev_new" "[]" 1 n] new_queued by (auto simp: ev_new_def)
  then show ?thesis by (auto simp: send_start_def send_inv_def unsent_def)
qed

end
