(* ===== verification/Network_Properties.thy ===== *)
theory Network_Properties
  imports Channel
begin

text \<open>Properties of the queue, of message framing and of the connection.\<close>

text \<open>(C31) The block-linked queue is a first-in first-out queue with a way to give an element back: on a well-formed
  queue every operation ends, dequeueing by either consumer takes the oldest element, giving back puts
  an element in front, and enqueueing appends, unless the queue is bounded and all its blocks but one
  are full of waiting elements. A new queue is well formed and empty.\<close>

theorem queue_is_fifo:
  "queued (mpmc_new :: 'a mpsc_queue) [] 1 \<and>
   (\<forall>(q :: 'a mpsc_queue) xs k. queued q xs k \<longrightarrow>
     (\<forall>e u. (\<exists>q1 k1. enqueue e u q = Some (Inr (True, q1)) \<and> queued q1 (xs @ [e]) k1 \<and> k \<le> k1) \<or>
        \<not> u \<and> enqueue e u q = Some (Inr (False, q)) \<and> (k - 1) * MPMCQ_SIZE \<le> length xs) \<and>
     (case xs of
        [] \<Rightarrow> (\<exists>q1. try_dequeue q = Some (Inr (None, q1)) \<and> queued q1 [] k) \<and>
              (\<exists>q1. mpmc_try_dequeue q = Some (Inr (None, q1)) \<and> queued q1 [] k)
      | x # ys \<Rightarrow> (\<exists>q1. try_dequeue q = Some (Inr (Some x, q1)) \<and> queued q1 ys k) \<and>
              (\<exists>q1. mpmc_try_dequeue q = Some (Inr (Some x, q1)) \<and> queued q1 ys k)) \<and>
     (\<forall>e. \<exists>q1 k1. rewind e q = Some (Inr q1) \<and> queued q1 (e # xs) k1) \<and>
     (\<forall>c. \<exists>q1. set_capacity c q = Some (Inr q1) \<and> queued q1 xs (k + max (c div MPMCQ_SIZE) 1)))"
proof (intro conjI allI impI)
  fix q :: "'a mpsc_queue" and xs k
  assume q: "queued q xs k"
  show "(\<exists>q1 k1. enqueue e u q = Some (Inr (True, q1)) \<and> queued q1 (xs @ [e]) k1 \<and> k \<le> k1) \<or>
      \<not> u \<and> enqueue e u q = Some (Inr (False, q)) \<and> (k - 1) * MPMCQ_SIZE \<le> length xs" for e u
    using enqueue_queued [OF q, of e u] by blast
  show "case xs of
        [] \<Rightarrow> (\<exists>q1. try_dequeue q = Some (Inr (None, q1)) \<and> queued q1 [] k) \<and>
              (\<exists>q1. mpmc_try_dequeue q = Some (Inr (None, q1)) \<and> queued q1 [] k)
      | x # ys \<Rightarrow> (\<exists>q1. try_dequeue q = Some (Inr (Some x, q1)) \<and> queued q1 ys k) \<and>
              (\<exists>q1. mpmc_try_dequeue q = Some (Inr (Some x, q1)) \<and> queued q1 ys k)"
    using mpsc.deq_queued [OF q] mpmc.deq_queued [OF q] by (cases xs) simp_all
  show "\<exists>q1 k1. rewind e q = Some (Inr q1) \<and> queued q1 (e # xs) k1" for e using rewind_queued [OF q] by blast
  show "\<exists>q1. set_capacity c q = Some (Inr q1) \<and> queued q1 xs (k + max (c div MPMCQ_SIZE) 1)" for c
    by (rule set_capacity_queued [OF q])
qed (rule new_queued)

theorem queue_is_fifo_witness:
  "\<exists>q1 k1. enqueue (7 :: nat) True mpmc_new = Some (Inr (True, q1)) \<and> queued q1 [7] k1"
  using conjunct2 [OF queue_is_fifo, THEN spec, of "mpmc_new :: nat mpsc_queue", THEN spec, of "[]", THEN spec, of 1, THEN mp,
      OF conjunct1 [OF queue_is_fifo], THEN conjunct1, THEN spec, of 7, THEN spec, of True] by auto








lemma recv_fill_stall:
  assumes "\<forall>d \<in> set ds. length d = recv_chunk_size cfg" and "sb_len (recv_buffer c) + length ds = max_recv_buff_size cfg"
  shows "\<exists>b. recv_fill cfg (map RecvData ds @ rs) c = (Full, rs, c\<lparr>recv_buffer := b, ready_recv := True\<rparr>) \<and>
    sb_bytes b = sb_bytes (recv_buffer c) @ concat ds"
  using assms
proof (induction ds arbitrary: c)
  case Nil
  then show ?case by (cases rs) (auto intro!: exI [of _ "recv_buffer c"])
next
  case (Cons d ds)
  let ?c = "c\<lparr>recv_buffer := sb_push d (recv_buffer c)\<rparr>"
  have "sb_len (recv_buffer ?c) + length ds = max_recv_buff_size cfg" using Cons.prems(2) by (simp add: sb_len_def sb_push_def)
  then obtain b where b: "recv_fill cfg (map RecvData ds @ rs) ?c = (Full, rs, ?c\<lparr>recv_buffer := b, ready_recv := True\<rparr>)"
      "sb_bytes b = sb_bytes (recv_buffer ?c) @ concat ds"
    using Cons.IH [of ?c] Cons.prems(1) by auto
  moreover have "sb_bytes (sb_push d (recv_buffer c)) = sb_bytes (recv_buffer c) @ d"
    by (simp add: sb_bytes_def sb_push_def entry_bytes_def entry_new_def)
  ultimately show ?case using Cons.prems by (auto simp: Let_def)
qed

text \<open>(C40) A connection can stop for ever with messages in its buffer: when the socket returns as many full chunks in a
  row as the buffer has room for, the reader masks the read event and returns without looking at the
  buffer, no message has been handed over, and neither the read event nor the timer does anything from
  then on.\<close>

theorem full_buffer_stalls:
  assumes "length ds = max_recv_buff_size cfg" and "\<forall>d \<in> set ds. length d = recv_chunk_size cfg"
  shows "\<exists>c. recv_data cfg sha1 enq (map RecvData ds @ rs) conn_new q = Some (Inr (rs, c, q)) \<and> sb_bytes (recv_buffer c) = concat ds \<and>
    \<not> terminated c \<and>
    (\<forall>r burst_size. rconn r = c \<longrightarrow> recv_step cfg sha1 burst_size OnReadable r = Some (Inr r) \<and> recv_step cfg sha1 burst_size OnPoll r = Some (Inr r))"
proof -
  have "sb_len (recv_buffer conn_new) + length ds = max_recv_buff_size cfg" using assms(1) by (simp add: conn_new_def sb_new_def sb_len_def)
  then obtain b where "recv_fill cfg (map RecvData ds @ rs) conn_new = (Full, rs, conn_new\<lparr>recv_buffer := b, ready_recv := True\<rparr>)"
      "sb_bytes b = sb_bytes (recv_buffer conn_new) @ concat ds"
    using recv_fill_stall [OF assms(2)] by blast
  then show ?thesis
    by (intro exI [of _ "conn_new\<lparr>recv_buffer := b, ready_recv := True\<rparr>"], subst recv_data.simps)
      (auto simp: conn_new_def sb_new_ok recv_step_def)
qed

theorem full_buffer_stalls_witness:
  "\<exists>c. recv_data \<lparr>max_msg_size = 100, recv_chunk_size = 2, max_recv_buff_size = 1\<rparr> (\<lambda>_. 0) (\<lambda>m q. Some (Inr (True, q @ [m]))) [RecvData [1, 2]] conn_new [] =
     Some (Inr ([], c, [])) \<and> sb_bytes (recv_buffer c) = [1, 2]"
  using full_buffer_stalls [of "[[1, 2]]" "\<lparr>max_msg_size = 100, recv_chunk_size = 2, max_recv_buff_size = 1\<rparr>" "\<lambda>_. 0" "\<lambda>m q. Some (Inr (True, q @ [m]))" "[]" "[]"]
  by auto

end
