(* ===== verification/Peer_Network.thy ===== *)
theory Peer_Network
  imports Blob_Bits
begin

text \<open>
  \<open>PeerNetwork\<close> and \<open>ClientNetwork\<close> of salticidae's \<^verbatim>\<open>network.h\<close>: the handshake between two peers, which of two
  simultaneous connections survives, heartbeats, reconnection, and the termination of connections
  (\<^verbatim>\<open>conn.cpp\<close>). Every operation runs in the dispatcher thread, so it is atomic; what it
  schedules for later (terminations, deletions, deferred pings) is kept in the state and runs as an event of its own.
\<close>

section \<open>Addresses and messages\<close>

type_synonym netaddr = "u32 \<times> u16"

definition null_addr :: netaddr where
  "null_addr = (0, 0)"

definition netaddr_serialize :: "netaddr \<Rightarrow> byte list" where
  "netaddr_serialize a = to_le 4 (fst a) @ to_le 2 (snd a)"

definition netaddr_unserialize :: "(data_stream, netaddr) prog" where
  "netaddr_unserialize = bindp (get_int 4) (\<lambda>i. bindp (get_int 2) (\<lambda>p. ret (i, p)))"

text \<open>A peer is named by the hash of its address or of its certificate (in DER form, checked by TLS).\<close>

datatype identity_mode = ADDR_BASED | CERT_BASED

definition peer_id_addr :: "(byte list \<Rightarrow> byte list) \<Rightarrow> netaddr \<Rightarrow> u256" where
  "peer_id_addr sha a = get_hash sha (netaddr_serialize a)"

definition peer_id_cert :: "(byte list \<Rightarrow> byte list) \<Rightarrow> byte list \<Rightarrow> u256" where
  "peer_id_cert sha der = get_hash sha der"

definition net_peer_id :: "bool \<Rightarrow> identity_mode \<Rightarrow> (byte list \<Rightarrow> byte list) \<Rightarrow> byte list \<Rightarrow> netaddr \<Rightarrow> u256" where
  "net_peer_id enable_tls id_mode sha cert a =
     (if \<not> enable_tls \<or> id_mode = ADDR_BASED then peer_id_addr sha a else peer_id_cert sha cert)"

text \<open>A handshake message claims an address, a heartbeat does not (its flag is 0).\<close>

record ping_msg =
  claimed_addr :: netaddr
  pg_nonce :: u32

definition ping_serialize :: "ping_msg option \<Rightarrow> byte list" where
  "ping_serialize m = (case m of None \<Rightarrow> [0] | Some p \<Rightarrow> 1 # netaddr_serialize (claimed_addr p) @ to_le 4 (pg_nonce p))"

text \<open>Without the flag the nonce keeps what the memory held.\<close>

definition ping_unserialize :: "u32 \<Rightarrow> (data_stream, ping_msg) prog" where
  "ping_unserialize junk = bindp (get_int 1) (\<lambda>flag. if (flag :: byte) = 0 then ret \<lparr>claimed_addr = null_addr, pg_nonce = junk\<rparr>
     else bindp netaddr_unserialize (\<lambda>a. bindp (get_int 4) (\<lambda>n. ret \<lparr>claimed_addr = a, pg_nonce = n\<rparr>)))"

datatype pn_msg = PnPing "ping_msg option" | PnPong "ping_msg option" | PnApp "byte list"

section \<open>State\<close>

datatype conn_mode = ACTIVE | PASSIVE

datatype peer_state = DISCONNECTED | CONNECTED | RESET

text \<open>A connection as the dispatcher sees it: \<open>pc_timeout\<close> tells whether its timeout is armed, \<open>pc_buffer\<close> is what is
  written and not yet sent.\<close>

record pn_conn =
  pc_mode :: conn_mode
  pc_addr :: netaddr
  pc_terminated :: bool
  pc_peer :: "u256 option"
  pc_manual :: bool
  pc_timeout :: bool
  pc_buffer :: "pn_msg list"

definition pn_conn_new :: pn_conn where
  "pn_conn_new = \<lparr>pc_mode = PASSIVE, pc_addr = null_addr, pc_terminated = False, pc_peer = None, pc_manual = True,
     pc_timeout = False, pc_buffer = []\<rparr>"

definition passive_nonce :: u32 where
  "passive_nonce = 0xffff"

text \<open>\<open>pp_retry_timer\<close> is \<open>None\<close> before the timer has been created, else whether it is armed.\<close>

record pn_peer =
  pp_addr :: netaddr
  pp_nonce :: u32
  pp_conn :: "nat option"
  pp_ntry :: int
  pp_cur_ntry :: int
  pp_retry_timer :: "bool option"
  pp_chosen :: "nat option"
  pp_inbound :: "nat option"
  pp_outbound :: "nat option"
  pp_ping_timer :: bool
  pp_ping_timer_ok :: bool
  pp_pong_msg_ok :: bool
  pp_preempt :: "ping_msg option"
  pp_state :: peer_state

definition pn_peer_new :: pn_peer where
  "pn_peer_new = \<lparr>pp_addr = null_addr, pp_nonce = passive_nonce, pp_conn = None, pp_ntry = 0, pp_cur_ntry = 0, pp_retry_timer = None,
     pp_chosen = None, pp_inbound = None, pp_outbound = None, pp_ping_timer = False, pp_ping_timer_ok = False,
     pp_pong_msg_ok = False, pp_preempt = None, pp_state = DISCONNECTED\<rparr>"

text \<open>Callbacks of the user: a peer is up or down, an unknown peer has called, an operation has failed.\<close>

datatype pn_note = PeerUp nat | PeerDown nat | UnknownPeer netaddr nat | OpFailed err

text \<open>
  \<open>pn_terminating\<close> and \<open>pn_deleting\<close> are the scheduled terminations and deletions, \<open>pn_deferred\<close> the pings handed to the user
  loop by a teardown. \<open>pn_rand\<close> are the coming answers of \<open>RAND_bytes\<close>, \<open>pn_peer_id\<close> is \<open>net_peer_id\<close> with
  the certificates of the connections, \<open>pn_accepts\<close> tells whether a send buffer takes one more message, \<open>pn_junk\<close> is the value of the flags that the constructor of a
  peer leaves uninitialised.
\<close>

record pn =
  pn_conns :: "nat \<rightharpoonup> pn_conn"
  pn_next :: nat
  known_peers :: "u256 \<rightharpoonup> pn_peer"
  pending_peers :: "netaddr \<rightharpoonup> nat"
  pn_listen_addr :: netaddr
  pn_terminating :: "nat list"
  pn_deleting :: "nat list"
  pn_deferred :: "(ping_msg \<times> nat option) list"
  pn_notes :: "pn_note list"
  pn_rand :: "u16 option list"
  pn_peer_id :: "nat \<Rightarrow> netaddr \<Rightarrow> u256"
  pn_accepts :: "pn_msg list \<Rightarrow> bool"
  pn_junk :: bool

section \<open>Connections\<close>

definition get_conn :: "nat \<Rightarrow> (pn, pn_conn) prog" where
  "get_conn c = (\<lambda>s. case pn_conns s c of None \<Rightarrow> (Inl UndefinedBehaviour, s) | Some x \<Rightarrow> (Inr x, s))"

definition set_conn :: "nat \<Rightarrow> (pn_conn \<Rightarrow> pn_conn) \<Rightarrow> (pn, unit) prog" where
  "set_conn c f = modify (\<lambda>s. s\<lparr>pn_conns := (pn_conns s)(c := map_option f (pn_conns s c))\<rparr>)"

text \<open>Assigning through a connection pointer that may be null.\<close>

definition set_conn_if :: "nat option \<Rightarrow> (pn_conn \<Rightarrow> pn_conn) \<Rightarrow> (pn, unit) prog" where
  "set_conn_if c f = (case c of None \<Rightarrow> ret () | Some c \<Rightarrow> set_conn c f)"

definition get_peer :: "u256 \<Rightarrow> (pn, pn_peer) prog" where
  "get_peer pid = (\<lambda>s. case known_peers s pid of None \<Rightarrow> (Inl UndefinedBehaviour, s) | Some p \<Rightarrow> (Inr p, s))"

definition set_peer :: "u256 \<Rightarrow> (pn_peer \<Rightarrow> pn_peer) \<Rightarrow> (pn, unit) prog" where
  "set_peer pid f = modify (\<lambda>s. s\<lparr>known_peers := (known_peers s)(pid := map_option f (known_peers s pid))\<rparr>)"

definition assertp :: "bool \<Rightarrow> ('s, unit) prog" where
  "assertp b = (if b then ret () else throw AssertFailed)"

definition notify :: "pn_note \<Rightarrow> (pn, unit) prog" where
  "notify x = modify (\<lambda>s. s\<lparr>pn_notes := pn_notes s @ [x]\<rparr>)"

definition pn_write :: "nat \<Rightarrow> pn_msg \<Rightarrow> (pn, bool) prog" where
  "pn_write c m = bindp (get_conn c) (\<lambda>x. bindp (gets (\<lambda>s. pn_accepts s (pc_buffer x))) (\<lambda>ok.
     if ok then seqp (set_conn c (\<lambda>x. x\<lparr>pc_buffer := pc_buffer x @ [m]\<rparr>)) (ret True) else ret False))"

text \<open>Scheduling a termination, from the dispatcher or a worker, and what runs later.\<close>

definition disp_terminate :: "nat \<Rightarrow> (pn, unit) prog" where
  "disp_terminate c = modify (\<lambda>s. s\<lparr>pn_terminating := pn_terminating s @ [c]\<rparr>)"

definition terminate_if :: "nat option \<Rightarrow> (pn, unit) prog" where
  "terminate_if c = (case c of None \<Rightarrow> ret () | Some c \<Rightarrow> disp_terminate c)"

definition run_terminate :: "nat \<Rightarrow> (pn, unit) prog" where
  "run_terminate c = bindp (get_conn c) (\<lambda>x. if pc_terminated x then ret () else
     seqp (set_conn c (\<lambda>x. x\<lparr>pc_terminated := True, pc_timeout := False\<rparr>))
     (modify (\<lambda>s. s\<lparr>pn_deleting := pn_deleting s @ [c]\<rparr>)))"

definition tcall_reset_timeout :: "nat \<Rightarrow> (pn, unit) prog" where
  "tcall_reset_timeout c = set_conn c (\<lambda>x. if pc_terminated x then x else x\<lparr>pc_timeout := True\<rparr>)"

definition new_conn :: "conn_mode \<Rightarrow> netaddr \<Rightarrow> (pn, nat) prog" where
  "new_conn m a = bindp (gets pn_next) (\<lambda>c.
     seqp (modify (\<lambda>s. s\<lparr>pn_conns := (pn_conns s)(c \<mapsto> pn_conn_new\<lparr>pc_mode := m, pc_addr := a\<rparr>), pn_next := c + 1\<rparr>)) (ret c))"

section \<open>Peers\<close>

text \<open>The random nonce is between 1 and \<open>0x10000\<close>.\<close>

definition get_nonce :: "u256 \<Rightarrow> (pn, u32) prog" where
  "get_nonce pid = bindp (get_peer pid) (\<lambda>p. if pp_nonce p \<noteq> 0 then ret (pp_nonce p) else
     bindp (gets pn_rand) (\<lambda>rs.
     seqp (modify (\<lambda>s. s\<lparr>pn_rand := tl rs\<rparr>))
     (case rs of Some n # _ \<Rightarrow> seqp (set_peer pid (\<lambda>p. p\<lparr>pp_nonce := ucast n + 1\<rparr>)) (ret (ucast n + 1))
       | _ \<Rightarrow> throw RandSource)))"

definition reset_ping_timer :: "u256 \<Rightarrow> (pn, unit) prog" where
  "reset_ping_timer pid = set_peer pid (\<lambda>p. p\<lparr>pp_ping_timer := True\<rparr>)"

definition send_ping :: "u256 \<Rightarrow> (pn, unit) prog" where
  "send_ping pid = bindp (get_peer pid) (\<lambda>p. case pp_chosen p of None \<Rightarrow> throw UndefinedBehaviour | Some c \<Rightarrow>
     seqp (set_peer pid (\<lambda>p. p\<lparr>pp_ping_timer_ok := False, pp_pong_msg_ok := False\<rparr>))
     (seqp (tcall_reset_timeout c)
     (seqp (pn_write c (PnPing None)) (ret ()))))"

definition ping_timer :: "u256 \<Rightarrow> (pn, unit) prog" where
  "ping_timer pid = seqp (set_peer pid (\<lambda>p. p\<lparr>pp_ping_timer := False, pp_ping_timer_ok := True\<rparr>))
     (bindp (get_peer pid) (\<lambda>p. whenp (pp_pong_msg_ok p) (seqp (reset_ping_timer pid) (send_ping pid))))"

text \<open>Moving the unsent segments of the old connection to the new one.\<close>

definition move_buffer :: "nat \<Rightarrow> nat \<Rightarrow> (pn, unit) prog" where
  "move_buffer old new = bindp (get_conn old) (\<lambda>x.
     seqp (set_conn old (\<lambda>x. x\<lparr>pc_buffer := []\<rparr>))
     (forp (pc_buffer x) (\<lambda>m. seqp (pn_write new m) (ret ()))))"

definition take_over :: "nat option \<Rightarrow> nat \<Rightarrow> (pn, unit) prog" where
  "take_over old new = (case old of None \<Rightarrow> ret () | Some old \<Rightarrow>
     bindp (get_conn old) (\<lambda>x.
     seqp (assertp (pc_terminated x))
     (seqp (move_buffer old new)
     (set_conn old (\<lambda>x. x\<lparr>pc_peer := None\<rparr>)))))"

definition link_conn :: "u256 \<Rightarrow> nat \<Rightarrow> (pn, unit) prog" where
  "link_conn pid new =
     seqp (set_peer pid (\<lambda>p. p\<lparr>pp_conn := Some new\<rparr>))
     (seqp (set_conn new (\<lambda>x. x\<lparr>pc_peer := Some pid\<rparr>))
     (seqp (notify (PeerUp new))
     (bindp (get_conn new) (\<lambda>x. modify (\<lambda>s. s\<lparr>pending_peers := (pending_peers s)(pc_addr x := None)\<rparr>)))))"

definition finish_handshake :: "u256 \<Rightarrow> (pn, unit) prog" where
  "finish_handshake pid = bindp (get_peer pid) (\<lambda>p.
     seqp (assertp (pp_state p = DISCONNECTED))
     (seqp (set_conn_if (pp_outbound p) (\<lambda>x. x\<lparr>pc_peer := None\<rparr>))
     (seqp (set_peer pid (\<lambda>p. p\<lparr>pp_ping_timer := False, pp_inbound := None, pp_outbound := None, pp_state := CONNECTED\<rparr>))
     (seqp (reset_ping_timer pid)
     (seqp (send_ping pid)
     (seqp (set_peer pid (\<lambda>p. p\<lparr>pp_retry_timer := map_option (\<lambda>_. False) (pp_retry_timer p), pp_cur_ntry := pp_ntry p\<rparr>))
     (case pp_chosen p of None \<Rightarrow> throw UndefinedBehaviour | Some new \<Rightarrow>
      seqp (take_over (pp_conn p) new) (link_conn pid new))))))))"

definition replace_pending_conn :: "nat \<Rightarrow> (pn, unit) prog" where
  "replace_pending_conn c = bindp (get_conn c) (\<lambda>x. bindp (gets (\<lambda>s. pending_peers s (pc_addr x))) (\<lambda>old.
     case old of
       None \<Rightarrow> modify (\<lambda>s. s\<lparr>pending_peers := (pending_peers s)(pc_addr x \<mapsto> c)\<rparr>)
     | Some d \<Rightarrow> whenp (d \<noteq> c)
         (seqp (disp_terminate d) (modify (\<lambda>s. s\<lparr>pending_peers := (pending_peers s)(pc_addr x \<mapsto> c)\<rparr>)))))"

definition start_active_conn :: "u256 \<Rightarrow> (pn, unit) prog" where
  "start_active_conn pid = bindp (get_peer pid) (\<lambda>p.
     seqp (assertp (pp_addr p \<noteq> null_addr))
     (bindp (new_conn ACTIVE (pp_addr p)) (\<lambda>c.
      seqp (set_conn c (\<lambda>x. x\<lparr>pc_peer := Some pid, pc_manual := False\<rparr>))
     (seqp (terminate_if (pp_outbound p))
     (seqp (set_peer pid (\<lambda>p. p\<lparr>pp_outbound := Some c\<rparr>))
     (bindp (gets (\<lambda>s. pending_peers s (pp_addr p) = None)) assertp))))))"

section \<open>Handlers of the dispatcher\<close>

text \<open>A connection is set up: an active one sends the first ping, a passive one is pending.\<close>

definition on_dispatcher_setup :: "nat \<Rightarrow> (pn, unit) prog" where
  "on_dispatcher_setup c = seqp (tcall_reset_timeout c)
     (bindp (get_conn c) (\<lambda>x. case pc_mode x of
        PASSIVE \<Rightarrow> replace_pending_conn c
      | ACTIVE \<Rightarrow> bindp (gets (\<lambda>s. pn_peer_id s c (pc_addr x))) (\<lambda>pid. bindp (gets pn_listen_addr) (\<lambda>l.
          bindp (gets (\<lambda>s. known_peers s pid)) (\<lambda>p. case p of
            None \<Rightarrow> if pc_manual x then seqp (pn_write c (PnPing (Some \<lparr>claimed_addr = l, pg_nonce = 0\<rparr>))) (ret ())
                    else throw PeerNotMatch
          | Some _ \<Rightarrow> bindp (get_nonce pid) (\<lambda>n.
              seqp (pn_write c (PnPing (Some \<lparr>claimed_addr = l, pg_nonce = n\<rparr>))) (ret ())))))))"

text \<open>The retry after a teardown; the branch of the source for the state \<open>RESET\<close> is never taken, because the state has
  just been set to \<open>DISCONNECTED\<close>.\<close>

definition retry_or_give_up :: "u256 \<Rightarrow> (pn, unit) prog" where
  "retry_or_give_up pid =
     seqp (set_peer pid (\<lambda>p. p\<lparr>pp_inbound := None, pp_cur_ntry := (if pp_cur_ntry p > 0 then pp_cur_ntry p - 1 else pp_cur_ntry p)\<rparr>))
     (set_peer pid (\<lambda>p. if pp_cur_ntry p \<noteq> 0
        then p\<lparr>pp_nonce := 0, pp_retry_timer := Some True\<rparr> else p\<lparr>pp_nonce := passive_nonce\<rparr>))"

definition on_dispatcher_teardown :: "nat \<Rightarrow> (pn, unit) prog" where
  "on_dispatcher_teardown c = bindp (get_conn c) (\<lambda>x.
     seqp (modify (\<lambda>s. s\<lparr>pending_peers := (pending_peers s)(pc_addr x := None)\<rparr>))
     (case pc_peer x of None \<Rightarrow> ret () | Some pid \<Rightarrow>
       if pc_mode x = ACTIVE \<and> pc_manual x then ret () else
       bindp (get_peer pid) (\<lambda>p.
       seqp (whenp (pp_state p \<noteq> DISCONNECTED)
              (seqp (assertp (pp_conn p = Some c))
              (set_peer pid (\<lambda>p. p\<lparr>pp_state := DISCONNECTED, pp_outbound := None, pp_ping_timer := False\<rparr>))))
       (case pp_preempt p of
          Some m \<Rightarrow>
            seqp (set_peer pid (\<lambda>p. p\<lparr>pp_preempt := None, pp_inbound := None\<rparr>))
            (seqp (notify (PeerDown c)) (modify (\<lambda>s. s\<lparr>pn_deferred := pn_deferred s @ [(m, pp_inbound p)]\<rparr>)))
        | None \<Rightarrow> seqp (notify (PeerDown c)) (retry_or_give_up pid)))))"

definition choose_conn :: "u256 \<Rightarrow> nat \<Rightarrow> (pn, unit) prog" where
  "choose_conn pid c = seqp (set_peer pid (\<lambda>p. p\<lparr>pp_chosen := Some c\<rparr>)) (finish_handshake pid)"

text \<open>The previous connection of an unfinished handshake is terminated.\<close>

definition drop_stale :: "nat option \<Rightarrow> nat \<Rightarrow> (pn, unit) prog" where
  "drop_stale old c = (case old of None \<Rightarrow> ret () | Some d \<Rightarrow> whenp (d \<noteq> c)
     (bindp (get_conn d) (\<lambda>y. seqp (assertp (pc_peer y = None)) (disp_terminate d))))"

definition inbound_handshake :: "u256 \<Rightarrow> ping_msg \<Rightarrow> nat \<Rightarrow> (pn, unit) prog" where
  "inbound_handshake pid m c = bindp (get_peer pid) (\<lambda>p.
     if pp_state p = CONNECTED then
       seqp (set_peer pid (\<lambda>p. p\<lparr>pp_preempt := Some m, pp_inbound := Some c, pp_nonce := passive_nonce\<rparr>))
       (case pp_conn p of None \<Rightarrow> throw UndefinedBehaviour | Some d \<Rightarrow> disp_terminate d)
     else if pp_state p \<noteq> DISCONNECTED then ret ()
     else
       bindp (gets pn_listen_addr) (\<lambda>l. bindp (get_nonce pid) (\<lambda>n.
       seqp (pn_write c (PnPong (Some \<lparr>claimed_addr = l, pg_nonce = n\<rparr>)))
       (seqp (drop_stale (pp_inbound p) c)
       (seqp (set_peer pid (\<lambda>p. p\<lparr>pp_inbound := Some c\<rparr>))
       (if pg_nonce m < n \<or> pp_addr p = null_addr then choose_conn pid c else disp_terminate c))))))"

definition ping_handler :: "ping_msg \<Rightarrow> nat \<Rightarrow> (pn, unit) prog" where
  "ping_handler m c = bindp (get_conn c) (\<lambda>x.
     if pc_terminated x then ret ()
     else if claimed_addr m = null_addr then seqp (pn_write c (PnPong None)) (ret ())
     else if pc_mode x = ACTIVE then ret ()
     else bindp (gets (\<lambda>s. pn_peer_id s c (claimed_addr m))) (\<lambda>pid.
       bindp (gets (\<lambda>s. known_peers s pid)) (\<lambda>p. case p of
         None \<Rightarrow> seqp (notify (UnknownPeer (claimed_addr m) c)) (disp_terminate c)
       | Some _ \<Rightarrow> if pg_nonce m = 0 then ret () else inbound_handshake pid m c)))"

definition outbound_handshake :: "u256 \<Rightarrow> ping_msg \<Rightarrow> nat \<Rightarrow> netaddr \<Rightarrow> (pn, unit) prog" where
  "outbound_handshake pid m c a = bindp (get_peer pid) (\<lambda>p.
     seqp (assertp (pp_addr p \<noteq> null_addr \<and> pp_addr p = a))
     (if pp_state p \<noteq> DISCONNECTED \<or> pp_addr p \<noteq> claimed_addr m then ret ()
      else
        seqp (drop_stale (pp_outbound p) c)
        (seqp (set_peer pid (\<lambda>p. p\<lparr>pp_outbound := Some c\<rparr>))
        (bindp (get_nonce pid) (\<lambda>n.
         if n < pg_nonce m then
           seqp (set_peer pid (\<lambda>p. p\<lparr>pp_chosen := Some c\<rparr>)) (seqp (reset_ping_timer pid) (finish_handshake pid))
         else disp_terminate c)))))"

definition pong_handler :: "ping_msg \<Rightarrow> nat \<Rightarrow> (pn, unit) prog" where
  "pong_handler m c = bindp (get_conn c) (\<lambda>x.
     if pc_terminated x then ret ()
     else if claimed_addr m = null_addr then
       (case pc_peer x of None \<Rightarrow> ret () | Some pid \<Rightarrow>
          seqp (set_peer pid (\<lambda>p. p\<lparr>pp_pong_msg_ok := True\<rparr>))
          (bindp (get_peer pid) (\<lambda>p. whenp (pp_ping_timer_ok p) (seqp (reset_ping_timer pid) (send_ping pid)))))
     else if pc_mode x = PASSIVE then ret ()
     else bindp (gets (\<lambda>s. pn_peer_id s c (pc_addr x))) (\<lambda>pid.
       bindp (gets (\<lambda>s. known_peers s pid)) (\<lambda>p. case p of
         None \<Rightarrow> disp_terminate c
       | Some _ \<Rightarrow> outbound_handshake pid m c (pc_addr x))))"

section \<open>Operations of the user\<close>

definition pn_listen :: "netaddr \<Rightarrow> (pn, unit) prog" where
  "pn_listen a = modify (\<lambda>s. s\<lparr>pn_listen_addr := a\<rparr>)"

text \<open>A new peer has a connection that is already terminated.\<close>

definition add_peer :: "u256 \<Rightarrow> (pn, unit) prog" where
  "add_peer pid = bindp (gets (\<lambda>s. known_peers s pid)) (\<lambda>p. if p \<noteq> None then throw PeerAlreadyExists else
     bindp (new_conn PASSIVE null_addr) (\<lambda>c.
     seqp (set_conn c (\<lambda>x. x\<lparr>pc_terminated := True, pc_peer := Some pid\<rparr>))
     (modify (\<lambda>s. s\<lparr>known_peers := (known_peers s)(pid \<mapsto>
        pn_peer_new\<lparr>pp_conn := Some c, pp_ping_timer_ok := pn_junk s, pp_pong_msg_ok := pn_junk s\<rparr>)\<rparr>))))"

definition known_peer :: "u256 \<Rightarrow> (pn, pn_peer) prog" where
  "known_peer pid = bindp (gets (\<lambda>s. known_peers s pid)) (\<lambda>p. case p of None \<Rightarrow> throw PeerNotExist | Some p \<Rightarrow> ret p)"

definition set_peer_addr :: "u256 \<Rightarrow> netaddr \<Rightarrow> (pn, unit) prog" where
  "set_peer_addr pid a = seqp (known_peer pid) (set_peer pid (\<lambda>p. p\<lparr>pp_addr := a\<rparr>))"

definition conn_peer :: "u256 \<Rightarrow> int \<Rightarrow> (pn, unit) prog" where
  "conn_peer pid ntry = bindp (known_peer pid) (\<lambda>p. if pp_addr p = null_addr then throw PeerNotReady else
     seqp (set_peer pid (\<lambda>p. p\<lparr>pp_ntry := ntry, pp_cur_ntry := ntry, pp_inbound := None, pp_outbound := None,
             pp_ping_timer := False, pp_nonce := 0, pp_retry_timer := Some False\<rparr>))
     (if pp_state p = DISCONNECTED \<and> ntry \<noteq> 0 then set_peer pid (\<lambda>p. p\<lparr>pp_retry_timer := Some True\<rparr>)
      else if pp_state p = CONNECTED then
        seqp (set_peer pid (\<lambda>p. p\<lparr>pp_state := RESET\<rparr>))
        (case pp_conn p of None \<Rightarrow> throw UndefinedBehaviour | Some d \<Rightarrow> disp_terminate d)
      else ret ()))"

text \<open>The retry timer connects and arms itself again.\<close>

definition retry_timer :: "u256 \<Rightarrow> (pn, unit) prog" where
  "retry_timer pid = seqp (start_active_conn pid) (set_peer pid (\<lambda>p. p\<lparr>pp_retry_timer := Some True\<rparr>))"

definition del_peer :: "u256 \<Rightarrow> (pn, unit) prog" where
  "del_peer pid = bindp (known_peer pid) (\<lambda>p. case pp_conn p of None \<Rightarrow> throw UndefinedBehaviour | Some c \<Rightarrow>
     seqp (set_conn c (\<lambda>x. x\<lparr>pc_peer := None\<rparr>))
     (seqp (disp_terminate c)
     (seqp (terminate_if (pp_inbound p))
     (seqp (terminate_if (pp_outbound p))
     (seqp (modify (\<lambda>s. s\<lparr>known_peers := (known_peers s)(pid := None)\<rparr>))
     (seqp (set_conn_if (pp_inbound p) (\<lambda>x. x\<lparr>pc_peer := None\<rparr>))
     (set_conn_if (pp_outbound p) (\<lambda>x. x\<lparr>pc_peer := None\<rparr>))))))))"

definition get_peer_conn :: "u256 \<Rightarrow> (pn, nat option) prog" where
  "get_peer_conn pid = bindp (known_peer pid) (\<lambda>p. ret (pp_conn p))"

definition has_peer :: "u256 \<Rightarrow> pn \<Rightarrow> bool" where
  "has_peer pid s = (known_peers s pid \<noteq> None)"

text \<open>The number of pending connections is read back through a pointer to \<open>bool\<close>: only its lowest byte, which has no
  meaning as a \<open>bool\<close> above 1.\<close>

definition get_npending :: "(pn, nat) prog" where
  "get_npending = bindp (gets (\<lambda>s. card (dom (pending_peers s)) mod 256)) (\<lambda>n.
     if n \<le> 1 then ret n else throw UndefinedBehaviour)"

text \<open>Sending: the message goes to the connection of the peer, terminated or not.\<close>

definition pn_send_msg :: "byte list \<Rightarrow> u256 \<Rightarrow> (pn, bool) prog" where
  "pn_send_msg m pid = bindp (get_peer_conn pid) (\<lambda>c. case c of None \<Rightarrow> throw UndefinedBehaviour | Some c \<Rightarrow> pn_write c (PnApp m))"

definition pn_send_msg_deferred :: "byte list \<Rightarrow> u256 \<Rightarrow> (pn, unit) prog" where
  "pn_send_msg_deferred m pid = bindp (pn_send_msg m pid) (\<lambda>ok. if ok then ret () else throw ConnNotReady)"

definition pn_multicast_msg :: "byte list \<Rightarrow> u256 list \<Rightarrow> (pn, unit) prog" where
  "pn_multicast_msg m pids = bindp (mapp (pn_send_msg m) pids) (\<lambda>oks. if \<forall>ok \<in> set oks. ok then ret () else throw ConnNotReady)"

section \<open>Events\<close>

text \<open>Exceptions other than a failed assertion or undefined behaviour: an operation of the user reports it; a
  connection whose set-up raises is terminated; in a handler it stops the network.\<close>

definition aborts :: "err \<Rightarrow> bool" where
  "aborts e \<longleftrightarrow> e = AssertFailed \<or> e = UndefinedBehaviour \<or> e = OutOfFuel"

definition recover :: "(pn, unit) prog \<Rightarrow> (pn, unit) prog \<Rightarrow> (pn, unit) prog" where
  "recover m after = (\<lambda>s. case m s of
      (Inr u, t) \<Rightarrow> (Inr u, t)
    | (Inl e, t) \<Rightarrow> if aborts e then (Inl e, t) else seqp (notify (OpFailed e)) after t)"

text \<open>\<open>Terminate\<close> also stands for the errors and timeouts that make a worker terminate a connection. A scheduled
  termination or deletion may run at any time after it has been scheduled.\<close>

datatype pn_event = Accept netaddr | SetUp nat | GotPing ping_msg nat | GotPong ping_msg nat | Terminate nat | Delete nat
  | RetryTimer u256 | PingTimer u256 | RunDeferred | AddPeer u256 | SetPeerAddr u256 netaddr | ConnPeer u256 int
  | DelPeer u256

fun pn_handle :: "pn_event \<Rightarrow> (pn, unit) prog" where
  "pn_handle (Accept a) = seqp (new_conn PASSIVE a) (ret ())"
| "pn_handle (SetUp c) = recover (on_dispatcher_setup c) (disp_terminate c)"
| "pn_handle (GotPing m c) = ping_handler m c"
| "pn_handle (GotPong m c) = pong_handler m c"
| "pn_handle (Terminate c) = seqp (modify (\<lambda>s. s\<lparr>pn_terminating := remove1 c (pn_terminating s)\<rparr>)) (run_terminate c)"
| "pn_handle (Delete c) = seqp (modify (\<lambda>s. s\<lparr>pn_deleting := remove1 c (pn_deleting s)\<rparr>)) (on_dispatcher_teardown c)"
| "pn_handle (RetryTimer pid) = retry_timer pid"
| "pn_handle (PingTimer pid) = ping_timer pid"
| "pn_handle RunDeferred = bindp (gets pn_deferred) (\<lambda>ds. case ds of [] \<Rightarrow> ret () | (m, c) # rest \<Rightarrow>
     seqp (modify (\<lambda>s. s\<lparr>pn_deferred := rest\<rparr>))
     (case c of None \<Rightarrow> throw UndefinedBehaviour | Some c \<Rightarrow> ping_handler m c))"
| "pn_handle (AddPeer pid) = recover (add_peer pid) (ret ())"
| "pn_handle (SetPeerAddr pid a) = recover (set_peer_addr pid a) (ret ())"
| "pn_handle (ConnPeer pid n) = recover (conn_peer pid n) (ret ())"
| "pn_handle (DelPeer pid) = recover (del_peer pid) (ret ())"

text \<open>When an event can happen.\<close>

fun pn_enabled :: "pn_event \<Rightarrow> pn \<Rightarrow> bool" where
  "pn_enabled (SetUp c) s \<longleftrightarrow> pn_conns s c \<noteq> None"
| "pn_enabled (GotPing m c) s \<longleftrightarrow> pn_conns s c \<noteq> None"
| "pn_enabled (GotPong m c) s \<longleftrightarrow> pn_conns s c \<noteq> None"
| "pn_enabled (Terminate c) s \<longleftrightarrow> pn_conns s c \<noteq> None"
| "pn_enabled (Delete c) s \<longleftrightarrow> c \<in> set (pn_deleting s)"
| "pn_enabled (RetryTimer pid) s \<longleftrightarrow> (case known_peers s pid of None \<Rightarrow> False | Some p \<Rightarrow> pp_retry_timer p = Some True)"
| "pn_enabled (PingTimer pid) s \<longleftrightarrow> (case known_peers s pid of None \<Rightarrow> False | Some p \<Rightarrow> pp_ping_timer p)"
| "pn_enabled RunDeferred s \<longleftrightarrow> pn_deferred s \<noteq> []"
| "pn_enabled _ s \<longleftrightarrow> True"

inductive pn_reach :: "pn \<Rightarrow> pn \<Rightarrow> bool" for s0 where
  pn_reach_start: "pn_reach s0 s0"
| pn_reach_step: "pn_reach s0 s \<Longrightarrow> pn_enabled e s \<Longrightarrow> pn_handle e s = (Inr u, t) \<Longrightarrow> pn_reach s0 t"

text \<open>A network before its first event, and running a sequence of events.\<close>

definition pn_start :: "bool \<Rightarrow> identity_mode \<Rightarrow> (byte list \<Rightarrow> byte list) \<Rightarrow> (nat \<Rightarrow> byte list) \<Rightarrow> (pn_msg list \<Rightarrow> bool) \<Rightarrow>
    bool \<Rightarrow> u16 option list \<Rightarrow> pn" where
  "pn_start enable_tls id_mode sha certs acc junk rs = \<lparr>pn_conns = Map.empty, pn_next = 0, known_peers = Map.empty, pending_peers = Map.empty,
     pn_listen_addr = null_addr, pn_terminating = [], pn_deleting = [], pn_deferred = [], pn_notes = [], pn_rand = rs,
     pn_peer_id = (\<lambda>c. net_peer_id enable_tls id_mode sha (certs c)), pn_accepts = acc, pn_junk = junk\<rparr>"

fun pn_steps :: "pn_event list \<Rightarrow> pn \<Rightarrow> pn option" where
  "pn_steps [] s = Some s"
| "pn_steps (e # es) s = (if pn_enabled e s then (case pn_handle e s of (Inr _, t) \<Rightarrow> pn_steps es t | (Inl _, _) \<Rightarrow> None) else None)"

lemma pn_steps_reach: "pn_steps es s = Some t \<Longrightarrow> pn_reach s0 s \<Longrightarrow> pn_reach s0 t"
proof (induction es arbitrary: s)
  case (Cons e es)
  then obtain u s' where "pn_enabled e s" "pn_handle e s = (Inr u, s')" "pn_steps es s' = Some t"
    by (auto split: if_splits prod.splits sum.splits)
  then show ?case using Cons.IH Cons.prems(2) pn_reach_step by blast
qed simp

lemmas pn_defs = prog_defs recover_def add_peer_def new_conn_def set_conn_def set_conn_if_def set_peer_addr_def known_peer_def
  set_peer_def conn_peer_def retry_timer_def start_active_conn_def get_peer_def get_conn_def assertp_def terminate_if_def
  disp_terminate_def on_dispatcher_setup_def tcall_reset_timeout_def replace_pending_conn_def ping_handler_def
  inbound_handshake_def get_nonce_def pn_write_def drop_stale_def choose_conn_def finish_handshake_def reset_ping_timer_def
  send_ping_def take_over_def move_buffer_def link_conn_def notify_def run_terminate_def on_dispatcher_teardown_def
  pong_handler_def del_peer_def pn_conn_new_def pn_peer_new_def

section \<open>ClientNetwork\<close>

text \<open>Clients are known by the address of their last connection.\<close>

definition cn_setup :: "conn_mode \<Rightarrow> nat \<Rightarrow> netaddr \<Rightarrow> (netaddr \<rightharpoonup> nat) \<Rightarrow> err + (netaddr \<rightharpoonup> nat)" where
  "cn_setup mode c a m = (if mode \<noteq> PASSIVE then Inl AssertFailed else Inr (m(a \<mapsto> c)))"

definition cn_teardown :: "netaddr \<Rightarrow> (netaddr \<rightharpoonup> nat) \<Rightarrow> (netaddr \<rightharpoonup> nat)" where
  "cn_teardown a m = m(a := None)"

definition cn_conn :: "netaddr \<Rightarrow> (netaddr \<rightharpoonup> nat) \<Rightarrow> err + nat" where
  "cn_conn a m = (case m a of None \<Rightarrow> Inl ClientNotExist | Some c \<Rightarrow> Inr c)"

section \<open>Message formats\<close>

text \<open>Addresses and handshake messages are read back as they were written.\<close>

interpretation addrs: wire_format "\<lambda>_. True" netaddr_serialize netaddr_unserialize
proof
  fix a :: netaddr
  have "reads netaddr_unserialize (to_le 4 (fst a) @ to_le 2 (snd a) @ []) a"
    unfolding netaddr_unserialize_def by (rule reads_bindp [OF reads_get_int], simp, rule reads_bindp [OF reads_get_int], simp)
      (use reads_ret [of a] in simp)
  then show "reads netaddr_unserialize (netaddr_serialize a) a" by (simp add: netaddr_serialize_def)
qed

interpretation pings: wire_format "\<lambda>_. True" "\<lambda>m. ping_serialize (Some m)" "ping_unserialize junk" for junk
proof
  fix m :: ping_msg
  have flag: "reads (get_int 1) [1] (1 :: byte)" using reads_get_int [where n = 1 and w = "1 :: byte"] by (simp add: to_le_def)
  have rest: "reads (bindp netaddr_unserialize (\<lambda>a. bindp (get_int 4) (\<lambda>n. ret \<lparr>claimed_addr = a, pg_nonce = n\<rparr>)))
      (netaddr_serialize (claimed_addr m) @ to_le 4 (pg_nonce m) @ []) m"
    by (rule reads_bindp [OF addrs.parse_ser], simp, rule reads_bindp [OF reads_get_int], simp)
      (cases m, use reads_ret [of m] in simp)
  have "reads (ping_unserialize junk) ([1] @ netaddr_serialize (claimed_addr m) @ to_le 4 (pg_nonce m) @ []) m"
    unfolding ping_unserialize_def by (rule reads_bindp [OF flag]) (use rest in simp)
  then show "reads (ping_unserialize junk) (ping_serialize (Some m)) m" by (simp add: ping_serialize_def)
qed

section \<open>Facts on single operations\<close>

lemma wp_get_conn [wp_simps]: "wp (get_conn c) Q E s = (case pn_conns s c of None \<Rightarrow> E UndefinedBehaviour s | Some x \<Rightarrow> Q x s)"
  by (simp add: wp_def get_conn_def split: option.split)

lemma wp_get_peer [wp_simps]: "wp (get_peer pid) Q E s = (case known_peers s pid of None \<Rightarrow> E UndefinedBehaviour s | Some p \<Rightarrow> Q p s)"
  by (simp add: wp_def get_peer_def split: option.split)

lemma wp_assertp [wp_simps]: "wp (assertp b) Q E s = (if b then Q () s else E AssertFailed s)"
  by (simp add: assertp_def wp_simps)

text \<open>Operations on connections keep mode, address and termination of every connection, and all the rest of the state.\<close>

definition cframe :: "(nat \<rightharpoonup> pn_conn) \<Rightarrow> (nat \<rightharpoonup> pn_conn) \<Rightarrow> bool" where
  "cframe C D \<longleftrightarrow> (\<forall>d. map_option (\<lambda>x. (pc_mode x, pc_addr x, pc_terminated x)) (D d) =
     map_option (\<lambda>x. (pc_mode x, pc_addr x, pc_terminated x)) (C d))"

lemma cframe_refl [simp]: "cframe C C"
  by (simp add: cframe_def)

lemma cframe_trans: "cframe C D \<Longrightarrow> cframe D F \<Longrightarrow> cframe C F"
  by (simp add: cframe_def)

lemma cframe_None:
  assumes "cframe C D"
  shows "D d = None \<longleftrightarrow> C d = None"
proof -
  have "map_option (\<lambda>x. (pc_mode x, pc_addr x, pc_terminated x)) (D d) = map_option (\<lambda>x. (pc_mode x, pc_addr x, pc_terminated x)) (C d)"
    using assms by (simp add: cframe_def)
  then show ?thesis by (cases "C d"; cases "D d") simp_all
qed

lemma cframe_Some:
  assumes "cframe C D" and "C d = Some x"
  shows "\<exists>y. D d = Some y \<and> pc_mode y = pc_mode x \<and> pc_addr y = pc_addr x \<and> pc_terminated y = pc_terminated x"
proof -
  have "map_option (\<lambda>x. (pc_mode x, pc_addr x, pc_terminated x)) (D d) = Some (pc_mode x, pc_addr x, pc_terminated x)"
    using assms by (simp add: cframe_def)
  then show ?thesis by auto
qed

definition conn_kept :: "pn \<Rightarrow> pn \<Rightarrow> bool" where
  "conn_kept s t \<longleftrightarrow> cframe (pn_conns s) (pn_conns t) \<and> t = s\<lparr>pn_conns := pn_conns t\<rparr>"

lemma conn_kept_refl [simp]: "conn_kept s s"
  by (simp add: conn_kept_def)

lemma conn_kept_trans:
  assumes "conn_kept s t" and "conn_kept t u"
  shows "conn_kept s u"
proof -
  have "u = t\<lparr>pn_conns := pn_conns u\<rparr>" "t = s\<lparr>pn_conns := pn_conns t\<rparr>" using assms by (simp_all add: conn_kept_def)
  then have "u = s\<lparr>pn_conns := pn_conns t\<rparr>\<lparr>pn_conns := pn_conns u\<rparr>" by metis
  then have "u = s\<lparr>pn_conns := pn_conns u\<rparr>" by simp
  then show ?thesis using assms cframe_trans unfolding conn_kept_def by blast
qed

definition conn_op :: "nat set \<Rightarrow> (pn, 'a) prog \<Rightarrow> bool" where
  "conn_op cs m \<longleftrightarrow> (\<forall>s. (\<forall>c \<in> cs. pn_conns s c \<noteq> None) \<longrightarrow> wp m (\<lambda>_. conn_kept s) (\<lambda>_ _. False) s)"

named_theorems conn_ops "operations that only touch connections"

lemma wp_conn_op:
  assumes "conn_op cs m" and "\<forall>c \<in> cs. pn_conns s c \<noteq> None"
    and Q: "\<And>a D. cframe (pn_conns s) D \<Longrightarrow> Q a (s\<lparr>pn_conns := D\<rparr>)"
  shows "wp m Q E s"
proof (rule wp_mono)
  show "wp m (\<lambda>_. conn_kept s) (\<lambda>_ _. False) s" using assms(1,2) by (simp add: conn_op_def)
  show "Q a t" if "conn_kept s t" for a t
    using Q [of "pn_conns t" a] that unfolding conn_kept_def by metis
qed simp

lemma conn_op_set [conn_ops]:
  assumes "\<And>x. pc_mode (f x) = pc_mode x \<and> pc_addr (f x) = pc_addr x \<and> pc_terminated (f x) = pc_terminated x"
  shows "conn_op cs (set_conn c f)"
proof -
  have "cframe C (C(c := map_option f (C c)))" for C
    using assms by (cases "C c") (auto simp: cframe_def)
  then show ?thesis by (simp add: conn_op_def set_conn_def wp_simps conn_kept_def)
qed

lemma conn_op_gets [conn_ops]: "conn_op cs (gets f)"
  by (simp add: conn_op_def wp_simps)

lemma conn_op_ret [conn_ops]: "conn_op cs (ret a)"
  by (simp add: conn_op_def wp_simps)

lemma conn_op_get [conn_ops]: "c \<in> cs \<Longrightarrow> conn_op cs (get_conn c)"
  by (fastforce simp: conn_op_def wp_simps split: option.split)

lemma conn_op_set_if [conn_ops]:
  assumes "\<And>x. pc_mode (f x) = pc_mode x \<and> pc_addr (f x) = pc_addr x \<and> pc_terminated (f x) = pc_terminated x"
  shows "conn_op cs (set_conn_if c f)"
  unfolding set_conn_if_def by (cases c) (simp_all add: assms conn_op_set conn_op_ret)

lemma conn_op_timeout [conn_ops]: "conn_op cs (tcall_reset_timeout c)"
  unfolding tcall_reset_timeout_def by (rule conn_op_set) simp

lemma conn_op_bindp [conn_ops]:
  assumes "conn_op cs m" and "\<And>a. conn_op cs (f a)"
  shows "conn_op cs (bindp m f)"
  unfolding conn_op_def wp_bindp
proof (intro allI impI)
  fix s :: pn assume c: "\<forall>c \<in> cs. pn_conns s c \<noteq> None"
  show "wp m (\<lambda>a. wp (f a) (\<lambda>_. conn_kept s) (\<lambda>_ _. False)) (\<lambda>_ _. False) s"
  proof (rule wp_mono)
    show "wp m (\<lambda>_. conn_kept s) (\<lambda>_ _. False) s" using assms(1) c by (simp add: conn_op_def)
    fix a t assume t: "conn_kept s t"
    then have "\<forall>c \<in> cs. pn_conns t c \<noteq> None" using c cframe_None unfolding conn_kept_def by metis
    then have "wp (f a) (\<lambda>_. conn_kept t) (\<lambda>_ _. False) t" using assms(2) by (simp add: conn_op_def)
    then show "wp (f a) (\<lambda>_. conn_kept s) (\<lambda>_ _. False) t" by (rule wp_mono) (auto intro: conn_kept_trans [OF t])
  qed simp
qed

lemma conn_op_seqp [conn_ops]: "conn_op cs m \<Longrightarrow> conn_op cs n \<Longrightarrow> conn_op cs (seqp m n)"
  unfolding seqp_def by (rule conn_op_bindp)

lemma conn_op_if [conn_ops]: "conn_op cs m \<Longrightarrow> conn_op cs n \<Longrightarrow> conn_op cs (if b then m else n)"
  by simp

lemma conn_op_forp [conn_ops]: "(\<And>x. conn_op cs (f x)) \<Longrightarrow> conn_op cs (forp xs f)"
  by (induction xs) (simp_all add: conn_op_seqp conn_op_ret)

lemma conn_op_write [conn_ops]: "c \<in> cs \<Longrightarrow> conn_op cs (pn_write c m)"
  unfolding pn_write_def by (intro conn_ops) simp_all

lemma conn_op_move [conn_ops]: "old \<in> cs \<Longrightarrow> new \<in> cs \<Longrightarrow> conn_op cs (move_buffer old new)"
  unfolding move_buffer_def by (intro conn_ops) simp_all

lemma wp_set_peer:
  "known_peers s pid = Some p \<Longrightarrow> wp (set_peer pid f) Q E s = Q () (s\<lparr>known_peers := (known_peers s)(pid \<mapsto> f p)\<rparr>)"
  by (simp add: set_peer_def wp_simps)

lemma wp_send_ping:
  assumes "known_peers s pid = Some p" and "pp_chosen p = Some c" and "pn_conns s c \<noteq> None"
    and "\<And>D. cframe (pn_conns s) D \<Longrightarrow>
      Q () (s\<lparr>known_peers := (known_peers s)(pid \<mapsto> p\<lparr>pp_ping_timer_ok := False, pp_pong_msg_ok := False\<rparr>), pn_conns := D\<rparr>)"
  shows "wp (send_ping pid) Q E s"
proof -
  have "conn_op {c} (seqp (tcall_reset_timeout c) (seqp (pn_write c (PnPing None)) (ret ())))" by (intro conn_ops) simp
  then have "wp (seqp (tcall_reset_timeout c) (seqp (pn_write c (PnPing None)) (ret ()))) Q E
      (s\<lparr>known_peers := (known_peers s)(pid \<mapsto> p\<lparr>pp_ping_timer_ok := False, pp_pong_msg_ok := False\<rparr>)\<rparr>)"
    by (rule wp_conn_op) (use assms(3,4) in simp_all)
  then show ?thesis using assms(1,2) by (simp add: send_ping_def wp_bindp wp_get_peer wp_seqp wp_set_peer)
qed

lemma wp_take_over:
  assumes "pn_conns s c \<noteq> None" and "pn_conns s d = Some y" and "pc_terminated y"
    and "\<And>D. cframe (pn_conns s) D \<Longrightarrow> Q () (s\<lparr>pn_conns := D\<rparr>)"
  shows "wp (take_over (Some d) c) Q E s"
proof -
  have "conn_op {c, d} (seqp (move_buffer d c) (set_conn d (\<lambda>x. x\<lparr>pc_peer := None\<rparr>)))" by (intro conn_ops) simp_all
  then have "wp (seqp (move_buffer d c) (set_conn d (\<lambda>x. x\<lparr>pc_peer := None\<rparr>))) Q E s"
    by (rule wp_conn_op) (use assms in simp_all)
  then show ?thesis using assms(2,3) by (simp add: take_over_def wp_bindp wp_get_conn wp_assertp wp_seqp)
qed

lemma wp_link_conn:
  assumes "known_peers s pid = Some p" and "pn_conns s c \<noteq> None"
    and "\<And>t. known_peers t = (known_peers s)(pid \<mapsto> p\<lparr>pp_conn := Some c\<rparr>) \<Longrightarrow> pn_terminating t = pn_terminating s \<Longrightarrow>
      cframe (pn_conns s) (pn_conns t) \<Longrightarrow> Q () t"
  shows "wp (link_conn pid c) Q E s"
proof -
  let ?s = "s\<lparr>known_peers := (known_peers s)(pid \<mapsto> p\<lparr>pp_conn := Some c\<rparr>)\<rparr>"
  have "conn_op {} (set_conn c (\<lambda>x. x\<lparr>pc_peer := Some pid\<rparr>))" by (intro conn_ops) simp
  then have "wp (set_conn c (\<lambda>x. x\<lparr>pc_peer := Some pid\<rparr>)) (\<lambda>_. wp (seqp (notify (PeerUp c))
      (bindp (get_conn c) (\<lambda>x. modify (\<lambda>s. s\<lparr>pending_peers := (pending_peers s)(pc_addr x := None)\<rparr>)))) Q E) E ?s"
  proof (rule wp_conn_op)
    fix D assume D: "cframe (pn_conns ?s) D"
    then obtain x where "D c = Some x" using cframe_None [of "pn_conns s" D c] assms(2) by auto
    then show "wp (seqp (notify (PeerUp c))
        (bindp (get_conn c) (\<lambda>x. modify (\<lambda>s. s\<lparr>pending_peers := (pending_peers s)(pc_addr x := None)\<rparr>)))) Q E (?s\<lparr>pn_conns := D\<rparr>)"
      using D by (simp add: notify_def wp_simps assms(3))
  qed simp
  then show ?thesis using assms(1) by (simp add: link_conn_def wp_seqp wp_set_peer)
qed

text \<open>The end of a handshake: the peer is connected through the chosen connection and nothing is scheduled.\<close>

lemma wp_finish_handshake:
  assumes p: "known_peers s pid = Some p" "pp_state p = DISCONNECTED" "pp_chosen p = Some c"
    and c: "pn_conns s c \<noteq> None"
    and old: "pp_conn p = Some d" "pn_conns s d = Some y" "pc_terminated y"
    and Q: "\<And>t q. known_peers t = (known_peers s)(pid \<mapsto> q) \<Longrightarrow> pp_state q = CONNECTED \<Longrightarrow> pp_conn q = Some c \<Longrightarrow>
      pn_terminating t = pn_terminating s \<Longrightarrow> cframe (pn_conns s) (pn_conns t) \<Longrightarrow> Q () t"
  shows "wp (finish_handshake pid) Q E s"
proof -
  have last: "wp (take_over (Some d) c) (\<lambda>_. wp (link_conn pid c) Q E) E u"
    if u: "known_peers u = (known_peers s)(pid \<mapsto> q)" "pp_state q = CONNECTED" "pn_terminating u = pn_terminating s"
      "cframe (pn_conns s) (pn_conns u)" for u q
  proof -
    have uc: "pn_conns u c \<noteq> None" using cframe_None [OF u(4)] c by simp
    obtain z where z: "pn_conns u d = Some z" "pc_terminated z" using cframe_Some [OF u(4) old(2)] old(3) by auto
    show ?thesis
    proof (rule wp_take_over [OF uc z])
      fix D assume D: "cframe (pn_conns u) D"
      show "wp (link_conn pid c) Q E (u\<lparr>pn_conns := D\<rparr>)"
        by (rule wp_link_conn [of _ _ q])
          (use u D uc cframe_None [OF D, of c] cframe_trans [OF u(4) D] in \<open>auto intro!: Q intro: cframe_trans\<close>)
    qed
  qed
  have "conn_op {} (set_conn_if (pp_outbound p) (\<lambda>x. x\<lparr>pc_peer := None\<rparr>))" by (intro conn_ops) simp
  then have "wp (set_conn_if (pp_outbound p) (\<lambda>x. x\<lparr>pc_peer := None\<rparr>)) (\<lambda>_.
      wp (seqp (set_peer pid (\<lambda>p. p\<lparr>pp_ping_timer := False, pp_inbound := None, pp_outbound := None, pp_state := CONNECTED\<rparr>))
       (seqp (reset_ping_timer pid) (seqp (send_ping pid)
       (seqp (set_peer pid (\<lambda>p. p\<lparr>pp_retry_timer := map_option (\<lambda>_. False) (pp_retry_timer p), pp_cur_ntry := pp_ntry p\<rparr>))
       (seqp (take_over (Some d) c) (link_conn pid c)))))) Q E) E s"
  proof (rule wp_conn_op)
    fix D assume D: "cframe (pn_conns s) D"
    then have dc: "D c \<noteq> None" using cframe_None [of _ _ c] c by simp
    show "wp (seqp (set_peer pid (\<lambda>p. p\<lparr>pp_ping_timer := False, pp_inbound := None, pp_outbound := None, pp_state := CONNECTED\<rparr>))
       (seqp (reset_ping_timer pid) (seqp (send_ping pid)
       (seqp (set_peer pid (\<lambda>p. p\<lparr>pp_retry_timer := map_option (\<lambda>_. False) (pp_retry_timer p), pp_cur_ntry := pp_ntry p\<rparr>))
       (seqp (take_over (Some d) c) (link_conn pid c)))))) Q E (s\<lparr>pn_conns := D\<rparr>)"
      unfolding wp_seqp reset_ping_timer_def
      by (simp add: wp_set_peer p)
        (rule wp_send_ping [of _ _ "p\<lparr>pp_inbound := None, pp_outbound := None, pp_state := CONNECTED, pp_ping_timer := True\<rparr>" c],
          simp_all add: p dc wp_set_peer, rule last, auto intro: cframe_trans [OF D])
  qed simp
  then show ?thesis using p old(1) by (simp add: finish_handshake_def wp_bindp wp_get_peer wp_seqp [of "assertp _"] wp_assertp wp_seqp [of "set_conn_if _ _"])
qed

section \<open>The choice of a connection\<close>

text \<open>The two outcomes of a handshake message on connection \<open>c\<close>: the peer is connected through it, or it is scheduled for
  termination.\<close>

definition decided :: "bool \<Rightarrow> u256 \<Rightarrow> nat \<Rightarrow> pn \<Rightarrow> pn \<Rightarrow> bool" where
  "decided keep pid c s t \<longleftrightarrow> (\<exists>q. known_peers t pid = Some q \<and>
     (if keep then pp_state q = CONNECTED \<and> pp_conn q = Some c \<and> pn_terminating t = pn_terminating s
      else pp_state q = DISCONNECTED \<and> pn_terminating t = pn_terminating s @ [c]))"

text \<open>A peer that waits for a handshake: its nonce is drawn and its last connection is terminated.\<close>

definition awaiting :: "u256 \<Rightarrow> pn_peer \<Rightarrow> pn \<Rightarrow> bool" where
  "awaiting pid p s \<longleftrightarrow> known_peers s pid = Some p \<and> pp_state p = DISCONNECTED \<and> pp_nonce p \<noteq> 0 \<and>
     (\<exists>d y. pp_conn p = Some d \<and> pn_conns s d = Some y \<and> pc_terminated y)"

lemma wp_get_nonce: "known_peers s pid = Some p \<Longrightarrow> pp_nonce p \<noteq> 0 \<Longrightarrow> wp (get_nonce pid) Q E s = Q (pp_nonce p) s"
  by (simp add: get_nonce_def wp_simps)

lemma wp_drop_none: "old = None \<or> old = Some c \<Longrightarrow> wp (drop_stale old c) Q E s = Q () s"
  by (auto simp: drop_stale_def wp_simps)

lemma wp_finish_awaiting:
  assumes "awaiting pid p s" and "pn_conns s c \<noteq> None" and "cframe (pn_conns s) (pn_conns t)"
    and t: "known_peers t = (known_peers s)(pid \<mapsto> q)" "pp_chosen q = Some c" "pp_state q = DISCONNECTED" "pp_conn q = pp_conn p"
      "pn_terminating t = pn_terminating s"
  shows "wp (finish_handshake pid) (\<lambda>_. decided True pid c s) (\<lambda>_ _. False) t"
proof -
  obtain d y where d: "pp_conn p = Some d" "pn_conns s d = Some y" "pc_terminated y" using assms(1) by (auto simp: awaiting_def)
  then obtain z where z: "pn_conns t d = Some z" "pc_terminated z" using cframe_Some [OF assms(3) d(2)] by auto
  show ?thesis
    by (rule wp_finish_handshake [of t pid q c d z])
      (use t d z assms(2) cframe_None [OF assms(3), of c] in \<open>auto simp: decided_def\<close>)
qed

lemma inbound_choice:
  assumes p: "awaiting pid p s" "pp_inbound p = None \<or> pp_inbound p = Some c"
    and c: "pn_conns s c = Some x" "\<not> pc_terminated x" "pc_mode x = PASSIVE"
    and m: "pn_peer_id s c (claimed_addr m) = pid" "claimed_addr m \<noteq> null_addr" "pg_nonce m \<noteq> 0"
  shows "wp (ping_handler m c) (\<lambda>_. decided (pg_nonce m < pp_nonce p \<or> pp_addr p = null_addr) pid c s) (\<lambda>_ _. False) s"
proof -
  have k: "known_peers s pid = Some p" "pp_state p = DISCONNECTED" "pp_nonce p \<noteq> 0" using p(1) by (simp_all add: awaiting_def)
  define keep where "keep \<longleftrightarrow> pg_nonce m < pp_nonce p \<or> pp_addr p = null_addr"
  let ?rest = "seqp (drop_stale (pp_inbound p) c) (seqp (set_peer pid (\<lambda>p. p\<lparr>pp_inbound := Some c\<rparr>))
    (if keep then choose_conn pid c else disp_terminate c))"
  have "wp ?rest (\<lambda>_. decided keep pid c s) (\<lambda>_ _. False) (s\<lparr>pn_conns := D\<rparr>)" if D: "cframe (pn_conns s) D" for D
  proof (cases keep)
    case True
    have "wp (finish_handshake pid) (\<lambda>_. decided True pid c s) (\<lambda>_ _. False)
        (s\<lparr>pn_conns := D, known_peers := (known_peers s)(pid \<mapsto> p\<lparr>pp_inbound := Some c, pp_chosen := Some c\<rparr>)\<rparr>)"
      by (rule wp_finish_awaiting [OF p(1), of _ _ "p\<lparr>pp_inbound := Some c, pp_chosen := Some c\<rparr>"]) (use c D k in simp_all)
    then show ?thesis using True k p(2) by (simp add: choose_conn_def wp_seqp wp_set_peer wp_drop_none)
  next
    case False
    then show ?thesis using k p(2) by (simp add: wp_seqp wp_set_peer disp_terminate_def wp_modify decided_def wp_drop_none)
  qed
  then have "wp (pn_write c (PnPong (Some \<lparr>claimed_addr = pn_listen_addr s, pg_nonce = pp_nonce p\<rparr>)))
      (\<lambda>_. wp ?rest (\<lambda>_. decided keep pid c s) (\<lambda>_ _. False)) (\<lambda>_ _. False) s"
    by (intro wp_conn_op [OF conn_op_write [of c "{c}"]]) (use c in simp_all)
  then show ?thesis
    using c m k unfolding keep_def [symmetric]
    by (cases keep) (simp_all add: ping_handler_def inbound_handshake_def wp_bindp wp_get_conn wp_gets wp_get_peer wp_get_nonce
        wp_seqp [of "pn_write _ _"] flip: keep_def)
qed

lemma outbound_choice:
  assumes p: "awaiting pid p s" "pp_outbound p = None \<or> pp_outbound p = Some c"
    and c: "pn_conns s c = Some x" "\<not> pc_terminated x" "pc_mode x = ACTIVE" "pc_addr x = pp_addr p"
    and m: "pn_peer_id s c (pp_addr p) = pid" "claimed_addr m = pp_addr p" "pp_addr p \<noteq> null_addr"
  shows "wp (pong_handler m c) (\<lambda>_. decided (pp_nonce p < pg_nonce m) pid c s) (\<lambda>_ _. False) s"
proof -
  have k: "known_peers s pid = Some p" "pp_state p = DISCONNECTED" "pp_nonce p \<noteq> 0" using p(1) by (simp_all add: awaiting_def)
  have "wp (finish_handshake pid) (\<lambda>_. decided True pid c s) (\<lambda>_ _. False)
      (s\<lparr>known_peers := (known_peers s)(pid \<mapsto> p\<lparr>pp_outbound := Some c, pp_chosen := Some c, pp_ping_timer := True\<rparr>)\<rparr>)"
    by (rule wp_finish_awaiting [OF p(1), of _ _ "p\<lparr>pp_outbound := Some c, pp_chosen := Some c, pp_ping_timer := True\<rparr>"]) (use c k in simp_all)
  then show ?thesis
    using c m k p(2)
    by (simp add: pong_handler_def outbound_handshake_def wp_bindp wp_get_conn wp_gets wp_get_peer wp_get_nonce wp_assertp
        wp_seqp wp_set_peer wp_drop_none reset_ping_timer_def disp_terminate_def wp_modify decided_def)
qed

end
