(* ===== verification/Peer_Properties.thy ===== *)
theory Peer_Properties
  imports Peer_Network
begin

text \<open>Properties of the peer network.\<close>

section \<open>Agreement on a connection\<close>

text \<open>(C34) The two ends of a connection decide alike in the handshake: when the active end has sent its nonce and the passive
  end answers with its own, each end handles the message of the other without error and keeps the connection exactly when the nonce of the
  active end is the smaller one, and otherwise schedules it for termination. So of two connections the peers
  open at the same time to each other at most one survives, at both ends the same. A passive end that does not
  know an address of the other one keeps the connection in any case.\<close>

theorem handshake_ends_agree:
  assumes "awaiting pb p sA" and "pp_outbound p = Some c" and "pn_conns sA c = Some x" and "\<not> pc_terminated x" and "pc_mode x = ACTIVE"
    and "pc_addr x = pp_addr p" and "pn_peer_id sA c (pp_addr p) = pb" and "pp_addr p \<noteq> null_addr"
    and "awaiting pa q sB" and "pp_inbound q = None" and "pn_conns sB d = Some y" and "\<not> pc_terminated y" and "pc_mode y = PASSIVE"
    and "pn_peer_id sB d a = pa" and "a \<noteq> null_addr"
  shows "\<exists>tA tB. pong_handler \<lparr>claimed_addr = pp_addr p, pg_nonce = pp_nonce q\<rparr> c sA = (Inr (), tA) \<and>
    ping_handler \<lparr>claimed_addr = a, pg_nonce = pp_nonce p\<rparr> d sB = (Inr (), tB) \<and>
    decided (pp_nonce p < pp_nonce q) pb c sA tA \<and>
    decided (pp_nonce p < pp_nonce q \<or> pp_addr q = null_addr) pa d sB tB"
proof -
  have "pp_nonce p \<noteq> 0" using assms(1) by (simp add: awaiting_def)
  then have "wp (ping_handler \<lparr>claimed_addr = a, pg_nonce = pp_nonce p\<rparr> d)
      (\<lambda>_. decided (pp_nonce p < pp_nonce q \<or> pp_addr q = null_addr) pa d sB) (\<lambda>_ _. False) sB"
    using inbound_choice [OF assms(9) _ assms(11-13), of "\<lparr>claimed_addr = a, pg_nonce = pp_nonce p\<rparr>"] assms(10,14,15) by simp
  moreover have "wp (pong_handler \<lparr>claimed_addr = pp_addr p, pg_nonce = pp_nonce q\<rparr> c)
      (\<lambda>_. decided (pp_nonce p < pp_nonce q) pb c sA) (\<lambda>_ _. False) sA"
    using outbound_choice [OF assms(1) _ assms(3-7), of "\<lparr>claimed_addr = pp_addr p, pg_nonce = pp_nonce q\<rparr>"] assms(2,8) by simp
  ultimately show ?thesis by (auto simp: wp_def split: prod.splits sum.splits)
qed

text \<open>One end of the handshake: peer 7 at address (1, 1), an old connection 0 and the new connection 1.\<close>

definition toy_end :: "conn_mode \<Rightarrow> u32 \<Rightarrow> pn" where
  "toy_end m n = (pn_start True CERT_BASED (\<lambda>bs. bs) (\<lambda>_. []) (\<lambda>_. True) False [])\<lparr>
     pn_peer_id := (\<lambda>_ _. 7), pn_conns := [0 \<mapsto> pn_conn_new\<lparr>pc_terminated := True\<rparr>, 1 \<mapsto> pn_conn_new\<lparr>pc_mode := m, pc_addr := (1, 1)\<rparr>],
     known_peers := [7 \<mapsto> pn_peer_new\<lparr>pp_addr := (1, 1), pp_nonce := n, pp_conn := Some 0,
       pp_outbound := (if m = ACTIVE then Some 1 else None)\<rparr>]\<rparr>"

theorem handshake_ends_agree_witness:
  "\<exists>tA tB. pong_handler \<lparr>claimed_addr = (1, 1), pg_nonce = 9\<rparr> 1 (toy_end ACTIVE 5) = (Inr (), tA) \<and>
    ping_handler \<lparr>claimed_addr = (1, 1), pg_nonce = 5\<rparr> 1 (toy_end PASSIVE 9) = (Inr (), tB) \<and>
    decided True 7 1 (toy_end ACTIVE 5) tA \<and> decided True 7 1 (toy_end PASSIVE 9) tB"
proof -
  let ?p = "pn_peer_new\<lparr>pp_addr := (1, 1), pp_nonce := 5, pp_conn := Some 0, pp_outbound := Some 1\<rparr>"
  let ?q = "pn_peer_new\<lparr>pp_addr := (1, 1), pp_nonce := 9, pp_conn := Some 0, pp_outbound := None\<rparr>"
  have "awaiting 7 ?p (toy_end ACTIVE 5)" "awaiting 7 ?q (toy_end PASSIVE 9)"
    by (simp_all add: awaiting_def toy_end_def pn_start_def pn_peer_new_def)
  from handshake_ends_agree [OF this(1) _ _ _ _ _ _ _ this(2), of 1 "pn_conn_new\<lparr>pc_mode := ACTIVE, pc_addr := (1, 1)\<rparr>" 1
      "pn_conn_new\<lparr>pc_mode := PASSIVE, pc_addr := (1, 1)\<rparr>" "(1, 1)"]
  show ?thesis by (simp add: toy_end_def pn_start_def pn_conn_new_def pn_peer_new_def null_addr_def)
qed

section \<open>Connections that outlive their peers\<close>

text \<open>(C35) An outbound connection replaced by the retry timer keeps its pointer to the peer, with two consequences. The assertion of the
  teardown that a connected peer is connected through the connection being torn down can fail: a handshake on an inbound
  connection connects the peer while the termination of the replaced connection is still scheduled, and its deletion aborts the process.
  And after the peer has been unregistered the deletion of the replaced connection reads the freed peer. All that is needed is that the retry timer fires
  a second time before the first connection is established.\<close>

theorem stale_outbound_aborts:
  fixes m :: u32
  assumes "a \<noteq> null_addr" and "b \<noteq> a" and "m \<noteq> 0" and "m < ucast n + 1"
  shows "\<exists>s t. pn_reach (pn_start tls mode sha certs (\<lambda>_. True) junk (Some n # rs)) s \<and> pn_enabled (Delete 1) s \<and>
    fst (pn_handle (Delete 1) s) = Inl AssertFailed \<and>
    pn_reach (pn_start tls mode sha certs (\<lambda>_. True) junk (Some n # rs)) t \<and> pn_enabled (Delete 1) t \<and>
    fst (pn_handle (Delete 1) t) = Inl UndefinedBehaviour"
proof -
  define pid where "pid = net_peer_id tls mode sha (certs 2) a"
  let ?s0 = "pn_start tls mode sha certs (\<lambda>_. True) junk (Some n # rs)"
  let ?es = "[AddPeer pid, SetPeerAddr pid a, ConnPeer pid (- 1), RetryTimer pid, Accept b, SetUp 2, RetryTimer pid,
    GotPing \<lparr>claimed_addr = a, pg_nonce = m\<rparr> 2, Terminate 1]"
  let ?fs = "[AddPeer pid, SetPeerAddr pid a, ConnPeer pid (- 1), RetryTimer pid, RetryTimer pid, DelPeer pid, Terminate 1]"
  have s: "\<exists>s. pn_steps ?es ?s0 = Some s \<and> pn_enabled (Delete 1) s \<and> fst (pn_handle (Delete 1) s) = Inl AssertFailed"
    using assms by (simp add: pn_defs pn_start_def flip: pid_def)
  have t: "\<exists>t. pn_steps ?fs ?s0 = Some t \<and> pn_enabled (Delete 1) t \<and> fst (pn_handle (Delete 1) t) = Inl UndefinedBehaviour"
    using assms(1) by (simp add: pn_defs pn_start_def)
  have r: "pn_reach ?s0 x" if "pn_steps es ?s0 = Some x" for es x by (rule pn_steps_reach [OF that pn_reach_start])
  show ?thesis using s t r by blast
qed

theorem stale_outbound_aborts_witness:
  "\<exists>s t. pn_reach (pn_start True CERT_BASED (\<lambda>bs. bs) (\<lambda>_. []) (\<lambda>_. True) False [Some 4]) s \<and> pn_enabled (Delete 1) s \<and>
    fst (pn_handle (Delete 1) s) = Inl AssertFailed \<and>
    pn_reach (pn_start True CERT_BASED (\<lambda>bs. bs) (\<lambda>_. []) (\<lambda>_. True) False [Some 4]) t \<and> pn_enabled (Delete 1) t \<and>
    fst (pn_handle (Delete 1) t) = Inl UndefinedBehaviour"
  by (rule stale_outbound_aborts [of "(1, 1)" "(2, 2)" 1 4]) (simp_all add: null_addr_def)

text \<open>The flags of the heartbeat are not initialised: a heartbeat answer on an outbound connection before the handshake can make the
  peer send a heartbeat over a connection that does not exist.\<close>

lemma early_pong_crashes:
  assumes "a \<noteq> null_addr"
  shows "\<exists>s. pn_reach (pn_start tls mode sha certs acc True rs) s \<and> pn_enabled (GotPong \<lparr>claimed_addr = null_addr, pg_nonce = m\<rparr> 1) s \<and>
    fst (pn_handle (GotPong \<lparr>claimed_addr = null_addr, pg_nonce = m\<rparr> 1) s) = Inl UndefinedBehaviour"
proof -
  let ?es = "[AddPeer 7, SetPeerAddr 7 a, ConnPeer 7 (- 1), RetryTimer 7]"
  have "\<exists>s. pn_steps ?es (pn_start tls mode sha certs acc True rs) = Some s \<and>
      pn_enabled (GotPong \<lparr>claimed_addr = null_addr, pg_nonce = m\<rparr> 1) s \<and>
      fst (pn_handle (GotPong \<lparr>claimed_addr = null_addr, pg_nonce = m\<rparr> 1) s) = Inl UndefinedBehaviour"
    using assms by (simp add: pn_defs pn_start_def)
  then show ?thesis using pn_steps_reach pn_reach_start by blast
qed

end
