(* ===== verification/Config_Text.thy ===== *)
theory Config_Text
  imports Database
begin

text \<open>
  Strings and the configuration file of salticidae (\<^verbatim>\<open>util.h\<close>, \<^verbatim>\<open>util.cpp\<close>): splitting, trimming, options and their
  values. The command line is read by the C library's \<^verbatim>\<open>getopt_long\<close> and ends in the same updates as the file;
  files are a function from names to lines.
\<close>

section \<open>Splitting and trimming\<close>

text \<open>\<open>std::string::find\<close>.\<close>

fun find_sub :: "string \<Rightarrow> string \<Rightarrow> nat option" where
  "find_sub d s = (if take (length d) s = d then Some 0 else case s of [] \<Rightarrow> None | _ # t \<Rightarrow> map_option Suc (find_sub d t))"

declare find_sub.simps [simp del]

text \<open>An empty delimiter is found again at every place: the loop does not end.\<close>

partial_function (option) split :: "string \<Rightarrow> string \<Rightarrow> string list option" where
  "split s d = (case find_sub d s of None \<Rightarrow> Some [s]
     | Some i \<Rightarrow> Option.bind (split (drop (i + length d) s) d) (\<lambda>r. Some (take i s # r)))"

definition is_space :: "char \<Rightarrow> bool" where
  "is_space c \<longleftrightarrow> c \<in> {CHR 0x09, CHR 0x0D, CHR 0x0A, CHR '' ''}"

definition find_first_not_of :: "string \<Rightarrow> nat option" where
  "find_first_not_of s = (if list_all is_space s then None else Some (length (takeWhile is_space s)))"

definition find_last_not_of :: "string \<Rightarrow> nat option" where
  "find_last_not_of s = (if list_all is_space s then None else Some (length s - 1 - length (takeWhile is_space (rev s))))"

definition trim :: "string \<Rightarrow> string" where
  "trim s = (case find_first_not_of s of None \<Rightarrow> []
     | Some b \<Rightarrow> (case find_last_not_of s of None \<Rightarrow> [] | Some e \<Rightarrow> take (e - b + 1) (drop b s)))"

definition trim_all :: "string list \<Rightarrow> string list" where
  "trim_all ss = map trim ss"

section \<open>Numbers\<close>

text \<open>\<open>stoi\<close> and \<open>stol\<close>: blanks, a sign and digits; the rest is ignored.\<close>

definition is_digit :: "char \<Rightarrow> bool" where
  "is_digit c \<longleftrightarrow> 48 \<le> (of_char c :: nat) \<and> (of_char c :: nat) \<le> 57"

definition stoi_blank :: "char \<Rightarrow> bool" where
  "stoi_blank c \<longleftrightarrow> c = CHR '' '' \<or> 9 \<le> (of_char c :: nat) \<and> (of_char c :: nat) \<le> 13"

definition sto :: "int \<Rightarrow> string \<Rightarrow> err + int" where
  "sto bound s = (let t = dropWhile stoi_blank s;
       neg = (t \<noteq> [] \<and> hd t = CHR ''-'');
       u = (if t \<noteq> [] \<and> hd t \<in> {CHR ''-'', CHR ''+''} then tl t else t);
       ds = takeWhile is_digit u;
       v = (if neg then - int (number 0 ds) else int (number 0 ds))
     in if ds = [] then Inl InvalidArgument
        else if - bound \<le> v \<and> v < bound then Inr v else Inl OutOfRange)"

definition stoi :: "string \<Rightarrow> err + int" where
  "stoi s = sto (2 ^ 31) s"

definition stol :: "string \<Rightarrow> err + int" where
  "stol s = sto (2 ^ 63) s"

section \<open>Options\<close>

datatype opt_action = SWITCH_ON | SET_VAL | APPEND

text \<open>\<open>OptValConf\<close> loads another file. Values of type \<open>double\<close> are of type \<open>'d\<close>, read by a parameter \<open>stod\<close>.\<close>

datatype 'd optval = OptValFlag bool | OptValStr string | OptValInt int | OptValDouble 'd | OptValStrVec "string list" | OptValConf

record 'd opt =
  optname :: string
  optval :: "'d optval"
  action :: opt_action
  short_opt :: "char option"

record 'd config =
  opts :: "'d opt list"
  conf_table :: "(string \<times> nat) list"

definition add_opt :: "string \<Rightarrow> 'd optval \<Rightarrow> opt_action \<Rightarrow> char option \<Rightarrow> 'd config \<Rightarrow> err + 'd config" where
  "add_opt nm v a sh c = (if map_of (conf_table c) nm \<noteq> None then Inl OptNameExists
     else let t = conf_table c @ [(nm, length (opts c))];
              t' = (case sh of None \<Rightarrow> t | Some ch \<Rightarrow> if map_of t [ch] = None then t @ [([ch], length (opts c))] else t)
          in Inr \<lparr>opts = opts c @ [\<lparr>optname = nm, optval = v, action = a, short_opt = sh\<rparr>], conf_table = t'\<rparr>)"

definition conf_new :: "'d config" where
  "conf_new = \<lparr>opts = [\<lparr>optname = ''conf'', optval = OptValConf, action = SET_VAL, short_opt = Some CHR ''c''\<rparr>],
     conf_table = [(''conf'', 0), (''c'', 0)]\<rparr>"

fun switch_on :: "'d optval \<Rightarrow> err + 'd optval" where
  "switch_on (OptValFlag b) = Inr (OptValFlag True)"
| "switch_on _ = Inl OptValUndefined"

text \<open>\<open>catch (std::invalid_argument &)\<close>.\<close>

definition opt_error :: "err \<Rightarrow> err" where
  "opt_error e = (if e = InvalidArgument then OptValInvalid else e)"

fun set_val :: "(string \<Rightarrow> err + 'd) \<Rightarrow> string \<Rightarrow> 'd optval \<Rightarrow> err + 'd optval" where
  "set_val stod x (OptValStr _) = Inr (OptValStr x)"
| "set_val stod x (OptValInt _) = (case stoi x of Inl e \<Rightarrow> Inl (opt_error e) | Inr i \<Rightarrow> Inr (OptValInt i))"
| "set_val stod x (OptValDouble _) = (case stod x of Inl e \<Rightarrow> Inl (opt_error e) | Inr d \<Rightarrow> Inr (OptValDouble d))"
| "set_val stod x OptValConf = Inr OptValConf"
| "set_val stod x _ = Inl OptValUndefined"

fun append_val :: "string \<Rightarrow> 'd optval \<Rightarrow> err + 'd optval" where
  "append_val x (OptValStrVec xs) = Inr (OptValStrVec (xs @ [x]))"
| "append_val x _ = Inl OptValUndefined"

definition update_val :: "(string \<Rightarrow> err + 'd) \<Rightarrow> opt_action \<Rightarrow> string \<Rightarrow> 'd optval \<Rightarrow> err + 'd optval" where
  "update_val stod a x v = (case a of SWITCH_ON \<Rightarrow> switch_on v | SET_VAL \<Rightarrow> set_val stod x v | APPEND \<Rightarrow> append_val x v)"

definition update_opt :: "(string \<Rightarrow> err + 'd) \<Rightarrow> nat \<Rightarrow> string \<Rightarrow> 'd config \<Rightarrow> err + 'd config" where
  "update_opt stod i x c = (case update_val stod (action (opts c ! i)) x (optval (opts c ! i)) of Inl e \<Rightarrow> Inl e
     | Inr v \<Rightarrow> Inr (c\<lparr>opts := (opts c)[i := (opts c ! i)\<lparr>optval := v\<rparr>]\<rparr>))"

section \<open>Loading a file\<close>

text \<open>A line without an equals sign or with an unknown name is skipped.\<close>

definition line_opt :: "'d config \<Rightarrow> string \<Rightarrow> (nat \<times> string) option" where
  "line_opt c line = (case find_sub ''='' line of None \<Rightarrow> None
     | Some p \<Rightarrow> (case map_of (conf_table c) (trim (take p line)) of None \<Rightarrow> None
       | Some i \<Rightarrow> Some (i, trim (drop (p + 1) line))))"

definition buff_size :: nat where
  "buff_size = 65536"

text \<open>The lines still to read: the lines of a file named by the option \<^verbatim>\<open>conf\<close> come before the rest. A file that includes
  itself is read for ever.\<close>

partial_function (option) load_lines ::
  "(string \<Rightarrow> string list option) \<Rightarrow> (string \<Rightarrow> err + 'd) \<Rightarrow> string list \<Rightarrow> 'd config \<Rightarrow> 'd config outcome" where
  "load_lines fs stod ls c = (case ls of [] \<Rightarrow> Some (Inr c)
     | l # ls \<Rightarrow>
         if buff_size - 1 \<le> length l then Some (Inl ConfigLineTooLong)
         else (case line_opt c l of None \<Rightarrow> load_lines fs stod ls c
           | Some (i, x) \<Rightarrow> (case update_opt stod i x c of Inl e \<Rightarrow> Some (Inl e)
             | Inr c' \<Rightarrow> load_lines fs stod
                 ((if optval (opts c ! i) = OptValConf then (case fs x of None \<Rightarrow> [] | Some ms \<Rightarrow> ms) else []) @ ls) c')))"

definition load :: "(string \<Rightarrow> string list option) \<Rightarrow> (string \<Rightarrow> err + 'd) \<Rightarrow> string \<Rightarrow> 'd config \<Rightarrow> (bool \<times> 'd config) outcome" where
  "load fs stod fname c = (case fs fname of None \<Rightarrow> Some (Inr (False, c))
     | Some ls \<Rightarrow> obind (load_lines fs stod ls c) (\<lambda>c'. Some (Inr (True, c'))))"

section \<open>Facts on strings\<close>

lemma find_sub_Nil: "find_sub d [] = (if d = [] then Some 0 else None)"
  by (subst find_sub.simps) simp

lemma find_sub_Cons: "find_sub d (x # t) = (if take (length d) (x # t) = d then Some 0 else map_option Suc (find_sub d t))"
  by (subst find_sub.simps) simp

lemma find_sub_Some:
  assumes "find_sub d s = Some i"
  shows "take i s @ d @ drop (i + length d) s = s" and "i + length d \<le> length s"
proof -
  have "take i s @ d @ drop (i + length d) s = s \<and> i + length d \<le> length s"
    using assms
  proof (induction s arbitrary: i)
    case Nil
    then show ?case by (simp add: find_sub_Nil split: if_splits)
  next
    case (Cons x t)
    show ?case
    proof (cases "take (length d) (x # t) = d")
      case True
      then have "i = 0" using Cons.prems by (simp add: find_sub_Cons)
      moreover have "d @ drop (length d) (x # t) = x # t" using True by (metis append_take_drop_id)
      moreover have "length d \<le> length (x # t)" using arg_cong [OF True, of length] by simp
      ultimately show ?thesis by simp
    next
      case False
      then obtain j where "find_sub d t = Some j" "i = Suc j" using Cons.prems by (auto simp: find_sub_Cons split: if_splits)
      then show ?thesis using Cons.IH by simp
    qed
  qed
  then show "take i s @ d @ drop (i + length d) s = s" and "i + length d \<le> length s" by simp_all
qed

lemma find_char: "c \<notin> set x \<Longrightarrow> find_sub [c] (x @ c # y) = Some (length x)"
  by (induction x) (auto simp: find_sub_Cons)

lemma find_no_char: "c \<notin> set x \<Longrightarrow> find_sub [c] x = None"
  by (induction x) (auto simp: find_sub_Cons find_sub_Nil)

fun join :: "string \<Rightarrow> string list \<Rightarrow> string" where
  "join d [] = []"
| "join d [x] = x"
| "join d (x # y # xs) = x @ d @ join d (y # xs)"

text \<open>With a delimiter that is not empty the loop ends, and the parts make up the string.\<close>

lemma split_join:
  assumes "d \<noteq> []"
  shows "\<exists>r. split s d = Some r \<and> r \<noteq> [] \<and> join d r = s"
proof (induction "length s" arbitrary: s rule: less_induct)
  case less
  show ?case
  proof (cases "find_sub d s")
    case None
    then show ?thesis by (subst split.simps) simp
  next
    case (Some i)
    note f = find_sub_Some [OF Some]
    have "length d \<noteq> 0" using assms by simp
    then have "length (drop (i + length d) s) < length s" using f(2) unfolding length_drop by arith
    from less.hyps [OF this] obtain r where r: "split (drop (i + length d) s) d = Some r" "r \<noteq> []" "join d r = drop (i + length d) s" by blast
    have "join d (take i s # r) = take i s @ d @ join d r" using r(2) by (cases r) simp_all
    then have "split s d = Some (take i s # r) \<and> join d (take i s # r) = s" using r f(1) Some by (subst split.simps) simp
    then show ?thesis by blast
  qed
qed

lemma split_fields:
  assumes "fs \<noteq> []" and "\<forall>x \<in> set fs. c \<notin> set x"
  shows "split (join [c] fs) [c] = Some fs"
  using assms
proof (induction "[c]" fs rule: join.induct)
  case (2 x)
  then show ?case by (subst split.simps) (simp add: find_no_char)
next
  case (3 x y xs)
  then show ?case by (subst split.simps) (simp add: find_char)
qed simp

definition trimmed :: "string \<Rightarrow> bool" where
  "trimmed x \<longleftrightarrow> x = [] \<or> \<not> is_space (hd x) \<and> \<not> is_space (last x)"

lemma takeWhile_front: "list_all P a \<Longrightarrow> \<not> P (hd x) \<Longrightarrow> x \<noteq> [] \<Longrightarrow> takeWhile P (a @ x @ b) = a"
  by (cases x) (auto simp: list_all_iff takeWhile_append)

lemma trim_pad:
  assumes "list_all is_space a" and "list_all is_space b" and "trimmed x"
  shows "trim (a @ x @ b) = x"
proof (cases "x = []")
  case True
  then show ?thesis using assms by (simp add: trim_def find_first_not_of_def)
next
  case False
  then have x: "\<not> is_space (hd x)" "\<not> is_space (last x)" using assms(3) by (simp_all add: trimmed_def)
  have n: "\<not> list_all is_space (a @ x @ b)" using x(1) False by (auto simp: list_all_iff)
  have f: "takeWhile is_space (a @ x @ b) = a" by (rule takeWhile_front [OF assms(1) x(1) False])
  have "takeWhile is_space (rev b @ rev x @ rev a) = rev b"
    by (rule takeWhile_front) (use assms(2) x(2) False in \<open>simp_all add: hd_rev\<close>)
  then have l: "takeWhile is_space (rev (a @ x @ b)) = rev b" by simp
  show ?thesis using n f l False by (simp add: trim_def find_first_not_of_def find_last_not_of_def)
qed

lemma trim_trimmed: "trimmed x \<Longrightarrow> trim x = x"
  using trim_pad [of "[]" "[]" x] by simp

section \<open>Facts on options\<close>

lemma digit_is_digit: "n < 10 \<Longrightarrow> is_digit (digit n)"
  by (simp add: is_digit_def digit_value)

lemma digits_digits: "list_all is_digit (digits n) \<and> digits n \<noteq> []"
proof (induction n rule: digits.induct)
  case (1 n)
  then show ?case by (subst (1 2) digits.simps) (simp add: digit_is_digit)
qed

lemma hd_digits: "is_digit (hd (digits n))"
  using digits_digits [of n] by (cases "digits n") simp_all

text \<open>Printing and reading integers.\<close>

lemma stoi_to_string:
  assumes "- (2 ^ 31) \<le> i" and "i < 2 ^ 31"
  shows "stoi (to_string i) = Inr i"
proof -
  have d: "takeWhile is_digit (digits n) = digits n" for n using digits_digits [of n] by (simp add: takeWhile_eq_all_conv list_all_iff)
  have h: "\<not> stoi_blank c" "c \<noteq> CHR ''-''" "c \<noteq> CHR ''+''" if "is_digit c" for c
    using that by (auto simp: is_digit_def stoi_blank_def)
  have nb: "dropWhile stoi_blank (digits n) = digits n" "hd (digits n) \<noteq> CHR ''-''" "hd (digits n) \<noteq> CHR ''+''" "digits n \<noteq> []" for n
    using h [OF hd_digits [of n]] digits_digits [of n] by (cases "digits n"; simp)+
  have m: "\<not> stoi_blank CHR ''-''" by (simp add: stoi_blank_def)
  show ?thesis
  proof (cases "i < 0")
    case True
    then show ?thesis using True assms by (simp add: to_string_def stoi_def sto_def Let_def nb m d number_digits)
  next
    case False
    then show ?thesis using False assms by (simp add: to_string_def stoi_def sto_def Let_def nb d number_digits)
  qed
qed

text \<open>Every name of the table belongs to an option, and a name keeps its option when others are added.\<close>

definition config_ok :: "'d config \<Rightarrow> bool" where
  "config_ok c \<longleftrightarrow> (\<forall>(n, i) \<in> set (conf_table c). i < length (opts c))"

lemma conf_new_ok: "config_ok conf_new"
  by (simp add: config_ok_def conf_new_def)

lemma add_opt_ok: "config_ok c \<Longrightarrow> add_opt nm v a sh c = Inr c' \<Longrightarrow> config_ok c'"
  by (fastforce simp: config_ok_def add_opt_def Let_def split: if_splits option.splits)

lemma add_opt_keeps: "add_opt nm v a sh c = Inr c' \<Longrightarrow> map_of (conf_table c) n = Some i \<Longrightarrow> map_of (conf_table c') n = Some i"
  by (auto simp: add_opt_def Let_def map_add_def split: if_splits option.splits)

section \<open>Loading lists of values\<close>

lemma line_opt_assign:
  assumes "CHR ''='' \<notin> set nm" and "trimmed nm" and "trimmed x" and "map_of (conf_table c) nm = Some i"
  shows "line_opt c (nm @ '' = '' @ x @ ''\<newline>'') = Some (i, x)"
proof -
  have "find_sub ''='' (nm @ '' = '' @ x @ ''\<newline>'') = Some (length (nm @ '' ''))"
    using find_char [of "CHR ''=''" "nm @ '' ''" "CHR '' '' # x @ ''\<newline>''"] assms(1) by simp
  moreover have "trim ([] @ nm @ '' '') = nm" by (rule trim_pad) (simp_all add: assms is_space_def)
  moreover have "trim ('' '' @ x @ ''\<newline>'') = x" by (rule trim_pad) (simp_all add: assms is_space_def)
  ultimately show ?thesis using assms(4) by (simp add: line_opt_def)
qed

end
