(* ===== verification/App_Setup.thy ===== *)
theory App_Setup
  imports Config_Text Peer_Network Handlers
begin

text \<open>
  The replica program \<^verbatim>\<open>hotstuff_app.cpp\<close>: its options, the reading of the replica list, which replicas form the own
  cluster, and the way of a client's request into the replica and of the answer back to the client. The lookup of host names is a
  parameter, keys stay in their hexadecimal form.
\<close>

unbundle bit_operations_syntax

section \<open>Addresses\<close>

definition htons :: "u16 \<Rightarrow> u16" where
  "htons p = push_bit 8 p OR drop_bit 8 p"

definition set_by_ip_port :: "(string \<Rightarrow> u32 option) \<Rightarrow> string \<Rightarrow> u16 \<Rightarrow> err + netaddr" where
  "set_by_ip_port resolve host port = (case resolve host of None \<Rightarrow> Inl NetAddrInvalid | Some ip \<Rightarrow> Inr (ip, htons port))"

definition netaddr_of_string :: "(string \<Rightarrow> u32 option) \<Rightarrow> string \<Rightarrow> err + netaddr" where
  "netaddr_of_string resolve s = (case find_sub '':'' s of None \<Rightarrow> Inl NetAddrInvalid
     | Some p \<Rightarrow> (case stol (drop (p + 1) s) of Inl _ \<Rightarrow> Inl NetAddrInvalid
       | Inr port \<Rightarrow> if port < 0 \<or> port > 0xffff then Inl NetAddrInvalid else set_by_ip_port resolve (take p s) (of_int port)))"

section \<open>Options\<close>

text \<open>The options of the program in the order of the calls, with their defaults.\<close>

definition app_opts :: "(string \<times> 'd :: numeral optval \<times> opt_action \<times> char option) list" where
  "app_opts = [
     (''block-size'', OptValInt 1, SET_VAL, None), (''parent-limit'', OptValInt (- 1), SET_VAL, None),
     (''stat-period'', OptValDouble 1, SET_VAL, None), (''replica'', OptValStrVec [], APPEND, Some CHR ''a''),
     (''idx'', OptValInt 0, SET_VAL, Some CHR ''i''), (''cport'', OptValInt (- 1), SET_VAL, Some CHR ''c''),
     (''privkey'', OptValStr [], SET_VAL, None), (''tls-privkey'', OptValStr [], SET_VAL, None), (''tls-cert'', OptValStr [], SET_VAL, None),
     (''pace-maker'', OptValStr ''rr'', SET_VAL, Some CHR ''p''), (''proposer'', OptValInt 1, SET_VAL, Some CHR ''l''),
     (''base-timeout'', OptValDouble 25, SET_VAL, Some CHR ''t''), (''prop-delay'', OptValDouble 1, SET_VAL, Some CHR ''t''),
     (''imp-timeout'', OptValDouble 25, SET_VAL, Some CHR ''u''), (''nworker'', OptValInt 1, SET_VAL, Some CHR ''n''),
     (''repnworker'', OptValInt 1, SET_VAL, Some CHR ''m''), (''repburst'', OptValInt 100, SET_VAL, Some CHR ''b''),
     (''clinworker'', OptValInt 8, SET_VAL, Some CHR ''M''), (''cliburst'', OptValInt 1000, SET_VAL, Some CHR ''B''),
     (''notls'', OptValFlag False, SWITCH_ON, Some CHR ''s''), (''max-rep-msg'', OptValInt 4194304, SET_VAL, Some CHR ''S''),
     (''max-cli-msg'', OptValInt 65536, SET_VAL, Some CHR ''S''), (''help'', OptValFlag False, SWITCH_ON, Some CHR ''h''),
     (''remote_view_change_test'', OptValInt (- 6000), SET_VAL, None)]"

fun add_opts :: "(string \<times> 'd optval \<times> opt_action \<times> char option) list \<Rightarrow> 'd config \<Rightarrow> err + 'd config" where
  "add_opts [] c = Inr c"
| "add_opts ((nm, v, a, sh) # os) c = (case add_opt nm v a sh c of Inl e \<Rightarrow> Inl e | Inr c' \<Rightarrow> add_opts os c')"

section \<open>Clusters\<close>

text \<open>The cluster table is read from a file, entry by entry; a missing entry reads as 0.\<close>

definition cluster_of :: "int list \<Rightarrow> int \<Rightarrow> int" where
  "cluster_of cm i = (if 0 \<le> i \<and> nat i < length cm then cm ! nat i else 0)"

text \<open>The number of clusters, counted in the order in which the hash table gives its values.\<close>

fun app_count_clusters :: "int list \<Rightarrow> int \<Rightarrow> int" where
  "app_count_clusters [] n = n + 1"
| "app_count_clusters (v # vs) n = app_count_clusters vs (if v > n then n + 1 else n)"

type_synonym replica_text = "string \<times> string \<times> string"

definition replica_info_of :: "string \<Rightarrow> replica_text outcome" where
  "replica_info_of s = Option.bind (split s '','') (\<lambda>r. Some (case trim_all r of [a, b, c] \<Rightarrow> Inr (a, b, c) | _ \<Rightarrow> Inl InvalidReplicaInfo))"

record setup_state =
  su_replicas :: "replica_text list"
  su_other :: "replica_text list"
  su_all :: "replica_text list"
  count_rep :: nat
  count_rep_cluster :: nat
  cluster_idx :: nat
  flag_intraidx :: bool

definition setup_new :: setup_state where
  "setup_new = \<lparr>su_replicas = [], su_other = [], su_all = [], count_rep = 0, count_rep_cluster = 0, cluster_idx = 0, flag_intraidx = False\<rparr>"

definition setup_replica :: "int list \<Rightarrow> int \<Rightarrow> replica_text \<Rightarrow> setup_state \<Rightarrow> setup_state" where
  "setup_replica cm idx r st =
     (let own = (cluster_of cm idx = cluster_of cm (int (count_rep st)));
          st1 = (if own then st\<lparr>flag_intraidx := True, su_replicas := su_replicas st @ [r], su_all := su_all st @ [r]\<rparr>
                 else st\<lparr>su_other := su_other st @ [r], su_all := su_all st @ [r]\<rparr>);
          st2 = (if flag_intraidx st1
                 then st1\<lparr>cluster_idx := (if idx = int (count_rep st1) then count_rep_cluster st1 else cluster_idx st1),
                        count_rep_cluster := count_rep_cluster st1 + 1\<rparr>
                 else st1)
      in st2\<lparr>count_rep := count_rep st2 + 1\<rparr>)"

fun setup_loop :: "int list \<Rightarrow> int \<Rightarrow> string list \<Rightarrow> setup_state \<Rightarrow> setup_state outcome" where
  "setup_loop cm idx [] st = Some (Inr st)"
| "setup_loop cm idx (s # ss) st = obind (replica_info_of s) (\<lambda>r. setup_loop cm idx ss (setup_replica cm idx r st))"

section \<open>Start\<close>

definition split_ip_port_cport :: "string \<Rightarrow> (string \<times> string) outcome" where
  "split_ip_port_cport s = Option.bind (split s '';'') (\<lambda>r. Some (case trim_all r of [a, b] \<Rightarrow> Inr (a, b) | _ \<Rightarrow> Inl InvalidArgument))"

definition client_port_of :: "int \<Rightarrow> string \<Rightarrow> int outcome" where
  "client_port_of cport addr = (if cport \<noteq> - 1 then Some (Inr cport)
     else obind (split_ip_port_cport addr) (\<lambda>(_, p). Some (case stoi p of
       Inl e \<Rightarrow> Inl (if e = InvalidArgument then ClientPortNotSpecified else e) | Inr i \<Rightarrow> Inr i)))"

definition replica_of :: "(string \<Rightarrow> u32 option) \<Rightarrow> replica_text \<Rightarrow> (netaddr \<times> string \<times> string) outcome" where
  "replica_of resolve r = obind (split_ip_port_cport (fst r)) (\<lambda>(a, _). Some (case netaddr_of_string resolve a of
     Inl e \<Rightarrow> Inl e | Inr ad \<Rightarrow> Inr (ad, snd r)))"

fun replicas_of :: "(string \<Rightarrow> u32 option) \<Rightarrow> replica_text list \<Rightarrow> (netaddr \<times> string \<times> string) list outcome" where
  "replicas_of resolve [] = Some (Inr [])"
| "replicas_of resolve (r # rs) = obind (replica_of resolve r) (\<lambda>x. obind (replicas_of resolve rs) (\<lambda>xs. Some (Inr (x # xs))))"

text \<open>What the program passes to the replica and its start.\<close>

record app_start =
  as_idx :: nat
  as_cluster :: int
  as_n_clusters :: int
  as_listen :: netaddr
  as_client_port :: int
  as_reps :: "(netaddr \<times> string \<times> string) list"
  as_all_reps :: "(netaddr \<times> string \<times> string) list"
  as_other_reps :: "(netaddr \<times> string \<times> string) list"

definition app_main :: "(string \<Rightarrow> u32 option) \<Rightarrow> int list \<Rightarrow> int list \<Rightarrow> int \<Rightarrow> int \<Rightarrow> string list \<Rightarrow> app_start outcome" where
  "app_main resolve order cm idx cport lines = obind (setup_loop cm idx lines setup_new) (\<lambda>st.
     if \<not> (0 \<le> idx \<and> nat idx < length (su_all st)) then Some (Inl ReplicaIdxRange)
     else let bind_addr = fst (su_all st ! nat idx) in
       obind (client_port_of cport bind_addr) (\<lambda>cp.
       obind (split_ip_port_cport bind_addr) (\<lambda>(a, _).
       obind (Some (netaddr_of_string resolve a)) (\<lambda>listen.
       obind (replicas_of resolve (su_replicas st)) (\<lambda>reps.
       obind (replicas_of resolve (su_all st)) (\<lambda>all_reps.
       obind (replicas_of resolve (su_other st)) (\<lambda>other_reps.
         Some (Inr \<lparr>as_idx = cluster_idx st, as_cluster = cluster_of cm idx, as_n_clusters = app_count_clusters order 0,
           as_listen = listen, as_client_port = cp, as_reps = reps, as_all_reps = all_reps, as_other_reps = other_reps\<rparr>))))))))"

section \<open>Clients of the replica\<close>

text \<open>A request is parsed and handed to the replica with a callback that queues the answer for the address of the client;
  callbacks are numbered, \<open>callbacks\<close> keeps the address captured by each.\<close>

record app =
  callbacks :: "netaddr list"
  resp_queue :: "(finality \<times> netaddr) list"
  client_conns :: "netaddr \<rightharpoonup> nat"
  responses :: "(nat \<times> finality) list"

definition client_vars :: "command_dummy \<Rightarrow> client_command" where
  "client_vars c = \<lparr>ccv_cmd_hash = cd_hash c, ccv_key = cd_key c, ccv_val = cd_value c, ccv_cluster_number = cd_cluster_num c,
     ccv_node_number = cd_node_num c, ccv_reconfig_mode = cd_reconfig_mode c\<rparr>"

definition client_request_cmd_handler :: "(byte list \<Rightarrow> byte list) \<Rightarrow> byte list \<Rightarrow> netaddr \<Rightarrow> app \<Rightarrow> (base, app) prog" where
  "client_request_cmd_handler sha bs addr a = bindp (lift (fst (command_unserialize sha (ds_of_bytes bs)))) (\<lambda>c.
     seqp (exec_command (client_vars c) (length (callbacks a))) (ret (a\<lparr>callbacks := callbacks a @ [addr]\<rparr>)))"

text \<open>The callback, and the thread that answers: an unknown client is only logged.\<close>

definition run_callback :: "nat \<Rightarrow> finality \<Rightarrow> app \<Rightarrow> err + app" where
  "run_callback i fin a = (if i < length (callbacks a) then Inr (a\<lparr>resp_queue := resp_queue a @ [(fin, callbacks a ! i)]\<rparr>)
     else Inl UndefinedBehaviour)"

definition respond :: "finality \<times> netaddr \<Rightarrow> app \<Rightarrow> app" where
  "respond p a = (case cn_conn (snd p) (client_conns a) of Inl _ \<Rightarrow> a | Inr c \<Rightarrow> a\<lparr>responses := responses a @ [(c, fst p)]\<rparr>)"

definition resp_handler :: "app \<Rightarrow> app" where
  "resp_handler a = fold respond (resp_queue a) (a\<lparr>resp_queue := []\<rparr>)"

section \<open>Counting clusters\<close>

lemma app_count_bound:
  assumes "\<forall>v \<in> set vs. v \<le> M" and "n \<le> M"
  shows "app_count_clusters vs n \<le> M + 1"
  using assms by (induction vs arbitrary: n) auto

lemma app_count_reaches:
  assumes "\<forall>v \<in> set vs. v \<le> M" and "n \<le> M" and "M \<le> n + int (count_list vs M)"
  shows "app_count_clusters vs n = M + 1"
  using assms by (induction vs arbitrary: n) (auto split: if_splits)

text \<open>The values in descending order: every value of the highest cluster counts once, lower values do not help.\<close>

lemma app_count_descending:
  assumes "sorted (rev vs)" and "\<forall>v \<in> set vs. v \<le> M" and "n + int (count_list vs M) < M"
  shows "app_count_clusters vs n < M + 1"
  using assms
proof (induction vs arbitrary: n)
  case (Cons v vs)
  have s: "sorted (rev vs)" "\<forall>x \<in> set vs. x \<le> v" using Cons.prems(1) by (auto simp: sorted_append)
  show ?case
  proof (cases "v = M")
    case True
    then show ?thesis using Cons.IH [of "n + 1"] Cons.prems s(1) by auto
  next
    case False
    then have "\<forall>x \<in> set (v # vs). x \<le> M - 1" using Cons.prems(2) s(2) by fastforce
    then have "app_count_clusters (v # vs) n \<le> M - 1 + 1" by (rule app_count_bound) (use Cons.prems(3) in simp)
    then show ?thesis by simp
  qed
qed simp

section \<open>The own cluster\<close>

definition own :: "int list \<Rightarrow> int \<Rightarrow> nat \<Rightarrow> bool" where
  "own cm idx i \<longleftrightarrow> cluster_of cm idx = cluster_of cm (int i)"

text \<open>The elements at the positions of a set, whether there is such a position, and how many positions there are from the first on.\<close>

definition picked :: "(nat \<Rightarrow> bool) \<Rightarrow> 'a list \<Rightarrow> 'a list" where
  "picked P xs = map ((!) xs) (filter P [0..<length xs])"

definition seen :: "(nat \<Rightarrow> bool) \<Rightarrow> nat \<Rightarrow> bool" where
  "seen P n \<longleftrightarrow> (\<exists>i < n. P i)"

fun since :: "(nat \<Rightarrow> bool) \<Rightarrow> nat \<Rightarrow> nat" where
  "since P 0 = 0"
| "since P (Suc n) = (if seen P (Suc n) then Suc (since P n) else 0)"

lemma picked_snoc: "picked P (xs @ [x]) = picked P xs @ (if P (length xs) then [x] else [])"
proof -
  have "map ((!) (xs @ [x])) (filter P [0..<length xs]) = map ((!) xs) (filter P [0..<length xs])" by (simp add: nth_append)
  then show ?thesis by (simp add: picked_def)
qed

lemma seen_Suc: "seen P (Suc n) \<longleftrightarrow> seen P n \<or> P n"
  by (auto simp: seen_def less_Suc_eq)

lemma since_unseen: "\<not> seen P n \<Longrightarrow> since P n = 0"
  by (cases n) simp_all

lemma since_first:
  assumes "P f" and "\<And>i. i < f \<Longrightarrow> \<not> P i" and "f \<le> n"
  shows "since P n = n - f"
  using assms(3)
proof (induction n)
  case (Suc n)
  show ?case
  proof (cases "f = Suc n")
    case True
    then have "\<not> seen P (Suc n)" using assms(2) by (auto simp: seen_def)
    then show ?thesis using True by simp
  next
    case False
    then have f: "f < Suc n" using Suc.prems by simp
    then have "seen P (Suc n)" using assms(1) unfolding seen_def by blast
    moreover have "f \<le> n" using f by simp
    ultimately show ?thesis using Suc.IH by simp
  qed
qed simp

lemma length_filter_all: "length (filter P xs) = length xs \<longleftrightarrow> (\<forall>x \<in> set xs. P x)"
proof
  assume "length (filter P xs) = length xs"
  then show "\<forall>x \<in> set xs. P x" using length_filter_less [of _ xs P] by (metis less_irrefl)
qed simp

lemma filter_from_first:
  assumes "P f" and "\<And>i. i < f \<Longrightarrow> \<not> P i" and "f \<le> n"
  shows "n - f = length (filter P [0..<n]) \<longleftrightarrow> (\<forall>j. f \<le> j \<and> j < n \<longrightarrow> P j)"
proof -
  have "[0..<n] = [0..<f] @ [f..<n]" using assms(3) upt_add_eq_append [of 0 f "n - f"] by simp
  moreover have "filter P [0..<f] = []" using assms(2) by (simp add: filter_empty_conv)
  ultimately have "length (filter P [0..<n]) = length (filter P [f..<n])" by simp
  moreover have "length (filter P [f..<n]) = length [f..<n] \<longleftrightarrow> (\<forall>x \<in> set [f..<n]. P x)" by (rule length_filter_all)
  moreover have "(\<forall>x \<in> set [f..<n]. P x) \<longleftrightarrow> (\<forall>j. f \<le> j \<and> j < n \<longrightarrow> P j)" by (auto simp: Ball_def)
  ultimately show ?thesis unfolding length_upt by metis
qed

lemma length_picked: "n \<le> length xs \<Longrightarrow> length (picked P (take n xs)) = length (filter P [0..<n])"
  by (simp add: picked_def min_def)

text \<open>The state of the loop after the first replicas.\<close>

definition setup_at :: "int list \<Rightarrow> int \<Rightarrow> replica_text list \<Rightarrow> setup_state" where
  "setup_at cm idx rs = \<lparr>su_replicas = picked (own cm idx) rs, su_other = picked (\<lambda>i. \<not> own cm idx i) rs, su_all = rs,
     count_rep = length rs, count_rep_cluster = since (own cm idx) (length rs),
     cluster_idx = (if 0 \<le> idx \<and> nat idx < length rs then since (own cm idx) (nat idx) else 0),
     flag_intraidx = seen (own cm idx) (length rs)\<rparr>"

lemma setup_new_at: "setup_new = setup_at cm idx []"
  by (simp add: setup_new_def setup_at_def picked_def seen_def)

lemma setup_replica_at: "setup_replica cm idx r (setup_at cm idx rs) = setup_at cm idx (rs @ [r])"
proof -
  let ?n = "length rs"
  have self: "idx = int ?n \<Longrightarrow> own cm idx ?n" by (simp add: own_def)
  have idx: "0 \<le> idx \<and> nat idx < Suc ?n \<longleftrightarrow> (0 \<le> idx \<and> nat idx < ?n) \<or> idx = int ?n" by auto
  have o: "(cluster_of cm idx = cluster_of cm (int ?n)) = own cm idx ?n" by (simp add: own_def)
  show ?thesis
  proof (cases "idx = int ?n")
    case True
    then show ?thesis using self [OF True] o by (simp add: setup_replica_def Let_def setup_at_def picked_snoc seen_Suc)
  next
    case False
    then show ?thesis
      by (cases "own cm idx ?n"; cases "seen (own cm idx) ?n")
        (simp_all add: setup_replica_def Let_def setup_at_def picked_snoc seen_Suc o idx since_unseen)
  qed
qed

lemma setup_loop_at:
  assumes "list_all2 (\<lambda>l r. replica_info_of l = Some (Inr r)) ls rs"
  shows "setup_loop cm idx ls (setup_at cm idx xs) = Some (Inr (setup_at cm idx (xs @ rs)))"
  using assms by (induction arbitrary: xs rule: list_all2_induct) (simp_all add: setup_replica_at)

section \<open>From the configuration file to the replicas\<close>

definition info_ok :: "replica_text \<Rightarrow> bool" where
  "info_ok r \<longleftrightarrow> (\<forall>x \<in> {fst r, fst (snd r), snd (snd r)}. CHR '','' \<notin> set x \<and> trimmed x) \<and> fst r \<noteq> [] \<and> snd (snd r) \<noteq> []"

definition info_text :: "replica_text \<Rightarrow> string" where
  "info_text r = join '','' [fst r, '' '' @ fst (snd r), '' '' @ snd (snd r)]"

lemma replica_info_of_text:
  assumes "info_ok r"
  shows "replica_info_of (info_text r) = Some (Inr r)"
proof -
  obtain a b c where r: "r = (a, b, c)" by (metis prod_cases3)
  have "split (info_text r) '','' = Some [a, '' '' @ b, '' '' @ c]"
    using split_fields [of "[a, '' '' @ b, '' '' @ c]" "CHR '',''"] assms by (simp add: info_text_def info_ok_def r)
  moreover have "trim a = a" "trim ('' '' @ b) = b" "trim ('' '' @ c) = c"
    using assms trim_trimmed [of a] trim_pad [of "'' ''" "[]" b] trim_pad [of "'' ''" "[]" c] by (simp_all add: info_ok_def r is_space_def)
  ultimately show ?thesis by (simp add: replica_info_of_def trim_all_def r)
qed

lemma info_text_trimmed: "info_ok r \<Longrightarrow> trimmed (info_text r)"
  by (auto simp: info_ok_def info_text_def trimmed_def)

definition replica_line :: "replica_text \<Rightarrow> string" where
  "replica_line r = ''replica'' @ '' = '' @ info_text r @ ''\<newline>''"

lemma load_replica_lines:
  assumes "map_of (conf_table c) ''replica'' = Some i" and "i < length (opts c)" and "action (opts c ! i) = APPEND"
    and "optval (opts c ! i) = OptValStrVec xs" and "\<forall>r \<in> set rs. info_ok r \<and> length (replica_line r) < buff_size - 1"
  shows "load_lines fs stod (map replica_line rs) c =
    Some (Inr (c\<lparr>opts := (opts c)[i := (opts c ! i)\<lparr>optval := OptValStrVec (xs @ map info_text rs)\<rparr>]\<rparr>))"
  using assms
proof (induction rs arbitrary: c xs)
  case Nil
  have "(opts c)[i := (opts c ! i)\<lparr>optval := OptValStrVec xs\<rparr>] = opts c"
    by (metis Nil.prems(4) list_update_id opt.surjective opt.update_convs(2))
  then show ?case by (subst load_lines.simps) simp
next
  case (Cons r rs)
  let ?c = "c\<lparr>opts := (opts c)[i := (opts c ! i)\<lparr>optval := OptValStrVec (xs @ [info_text r])\<rparr>]\<rparr>"
  have len: "\<not> buff_size - 1 \<le> length (replica_line r)" using Cons.prems(5) by simp
  have l: "line_opt c (replica_line r) = Some (i, info_text r)"
    unfolding replica_line_def
    by (rule line_opt_assign) (use Cons.prems(1,5) info_text_trimmed [of r] in \<open>simp_all add: trimmed_def is_space_def\<close>)
  have u: "update_opt stod i (info_text r) c = Inr ?c"
    using Cons.prems(3,4) by (simp add: update_opt_def update_val_def)
  have "load_lines fs stod (map replica_line rs) ?c =
      Some (Inr (?c\<lparr>opts := (opts ?c)[i := (opts ?c ! i)\<lparr>optval := OptValStrVec ((xs @ [info_text r]) @ map info_text rs)\<rparr>]\<rparr>))"
    by (rule Cons.IH) (use Cons.prems in simp_all)
  then show ?case using Cons.prems(2,4) len l u by (subst load_lines.simps) simp
qed

text \<open>The table of the program: the first option with a letter keeps it.\<close>

lemma app_opts_table:
  obtains c :: "'d :: numeral config" where "add_opts app_opts conf_new = Inr c" "map_of (conf_table c) ''replica'' = Some 4"
    "4 < length (opts c)" "opts c ! 4 = \<lparr>optname = ''replica'', optval = OptValStrVec [], action = APPEND, short_opt = Some CHR ''a''\<rparr>"
  by (simp add: app_opts_def conf_new_def add_opt_def Let_def)

section \<open>Answers\<close>

text \<open>The answers reach the last connection of each client that is still connected, in the order of the queue.\<close>

lemma respond_all:
  "fold respond ps a = a\<lparr>responses := responses a @
     concat (map (\<lambda>(f, ad). case client_conns a ad of None \<Rightarrow> [] | Some c \<Rightarrow> [(c, f)]) ps)\<rparr>"
  by (induction ps arbitrary: a) (auto simp: respond_def cn_conn_def split: option.splits)

lemma resp_handler_answers:
  "resp_queue (resp_handler a) = [] \<and> responses (resp_handler a) = responses a @
     concat (map (\<lambda>(f, ad). case client_conns a ad of None \<Rightarrow> [] | Some c \<Rightarrow> [(c, f)]) (resp_queue a))"
  by (simp add: resp_handler_def respond_all)

end
