(* ===== verification/Client.thy ===== *)
theory Client
  imports Messages
begin

text \<open>
  The client program \<^verbatim>\<open>hotstuff_client.cpp\<close> with its random numbers (\<^verbatim>\<open>helper.h\<close>): which replicas it connects to,
  sending commands while the window of outstanding requests has room, and counting responses. The
  floating-point arithmetic of \<open>zipf\<close>, the uninitialised payload of a command and SHA-256 are parameters; clocks are left out.
\<close>

section \<open>Random numbers\<close>

definition rand_max :: nat where
  "rand_max = 2147483647"

definition myrand_next :: "u64 \<Rightarrow> nat \<times> u64" where
  "myrand_next seed = (let s = (seed * 1103515247 + 12345) mod 2 ^ 63 in (unat s div 65537 mod rand_max, s))"

section \<open>State\<close>

record client_env =
  ce_sha :: "byte list \<Rightarrow> byte list"
  ce_junk :: "u32 \<Rightarrow> byte list"
  ce_zipf :: "nat \<Rightarrow> u32"

record request =
  rq_cmd :: command_dummy
  confirmed :: nat

text \<open>\<open>waiting\<close> is a hash table: an entry is inserted only when its key is absent. \<open>c_elapsed\<close> counts the completed
  requests, \<open>c_sent\<close> are the messages sent.\<close>

record client =
  c_cid :: u32
  c_cnt :: u32
  c_nfaulty :: u32
  max_async_num :: nat
  max_iter_num :: int
  reconfig_client :: u32
  reconfig_done :: bool
  c_seed :: u64
  c_conns :: "replica_id list"
  waiting :: "(u256 \<times> request) list"
  c_elapsed :: nat
  c_sent :: "(replica_id \<times> command_dummy) list"

section \<open>Connecting\<close>

text \<open>The number of clusters is counted over the values of the cluster table in the order the hash table gives them.\<close>

fun count_clusters :: "int list \<Rightarrow> u32 \<Rightarrow> u32" where
  "count_clusters [] n = n + 1"
| "count_clusters (v # vs) n = count_clusters vs (if of_int v > n then n + 1 else n)"

text \<open>A missing entry of the cluster table reads as 0.\<close>

definition cluster_at :: "int list \<Rightarrow> nat \<Rightarrow> int" where
  "cluster_at cm i = (if i < length cm then cm ! i else 0)"

text \<open>The client connects to the replicas of its cluster; the number of faults is a third of them. \<open>order\<close> are the
  values of the table \<open>cm\<close> in the order of iteration, \<open>n\<close> is the number of replicas.\<close>

definition connect_all :: "int list \<Rightarrow> int list \<Rightarrow> nat \<Rightarrow> client \<Rightarrow> client" where
  "connect_all order cm n s = (let k = count_clusters order 0;
     own = filter (\<lambda>i. cluster_at cm i = sint (c_cid s mod k)) [0..<n]
   in s\<lparr>c_conns := remdups (map of_nat own), c_nfaulty := (of_nat (length own) - 1) div 3\<rparr>)"

section \<open>Requests and responses\<close>

definition issue :: "command_dummy \<Rightarrow> client \<Rightarrow> client" where
  "issue cmd s = s\<lparr>c_cnt := c_cnt s + 1, c_sent := c_sent s @ map (\<lambda>r. (r, cmd)) (c_conns s),
     waiting := (if map_of (waiting s) (cd_hash cmd) = None
       then waiting s @ [(cd_hash cmd, \<lparr>rq_cmd = cmd, confirmed = 0\<rparr>)] else waiting s),
     max_iter_num := (if max_iter_num s > 0 then max_iter_num s - 1 else max_iter_num s)\<rparr>"

definition try_send :: "client_env \<Rightarrow> bool \<Rightarrow> client \<Rightarrow> bool \<times> client" where
  "try_send env check s =
     (if (\<not> check \<or> length (waiting s) < max_async_num s) \<and> max_iter_num s \<noteq> 0 then
        (let (r, sd) = myrand_next (c_seed s);
             key = ce_zipf env (r mod 10000000);
             s' = s\<lparr>c_seed := snd (myrand_next sd)\<rparr>;
             cmd = command_new (ce_sha env) (ce_junk env (c_cnt s)) (c_cid s) (c_cnt s) key 2
         in if reconfig_client s = 0 then (True, issue (cmd (- 1) (- 1) (- 1)) s')
            else if \<not> reconfig_done s then (False, issue (cmd 0 0 1) (s'\<lparr>reconfig_done := True\<rparr>))
            else (False, s'))
      else (False, s))"

partial_function (option) send_all :: "client_env \<Rightarrow> client \<Rightarrow> client option" where
  "send_all env s = (if fst (try_send env True s) then send_all env (snd (try_send env True s)) else Some (snd (try_send env True s)))"

definition responses_ignored :: "client \<Rightarrow> nat" where
  "responses_ignored s = (if reconfig_client s = 0 then unat (c_nfaulty s) else unat (2 * c_nfaulty s))"

text \<open>The response is counted in place; enough responses complete the request.\<close>

definition confirm :: "u256 \<Rightarrow> (u256 \<times> request) list \<Rightarrow> (u256 \<times> request) list" where
  "confirm h w = map (\<lambda>(j, r). (j, if j = h then r\<lparr>confirmed := confirmed r + 1\<rparr> else r)) w"

definition erase :: "u256 \<Rightarrow> (u256 \<times> request) list \<Rightarrow> (u256 \<times> request) list" where
  "erase h w = filter (\<lambda>(j, r). j \<noteq> h) w"

definition client_resp_cmd_handler :: "client_env \<Rightarrow> finality \<Rightarrow> client \<Rightarrow> client option" where
  "client_resp_cmd_handler env fin s = (let h = f_cmd_hash fin in case map_of (waiting s) h of
       None \<Rightarrow> Some s
     | Some r \<Rightarrow>
         if confirmed r + 1 \<le> responses_ignored s then Some (s\<lparr>waiting := confirm h (waiting s)\<rparr>)
         else send_all env (s\<lparr>waiting := erase h (waiting s), c_elapsed := c_elapsed s + 1\<rparr>))"

text \<open>The program after it has connected: it fills the window and then handles responses.\<close>

fun client_resps :: "client_env \<Rightarrow> finality list \<Rightarrow> client \<Rightarrow> client option" where
  "client_resps env [] s = Some s"
| "client_resps env (f # fs) s = (case client_resp_cmd_handler env f s of None \<Rightarrow> None | Some t \<Rightarrow> client_resps env fs t)"

definition client_main :: "client_env \<Rightarrow> finality list \<Rightarrow> client \<Rightarrow> client option" where
  "client_main env fs s = (case send_all env s of None \<Rightarrow> None | Some t \<Rightarrow> client_resps env fs t)"

section \<open>The commands of a run\<close>

definition seed_at :: "client \<Rightarrow> nat \<Rightarrow> u64" where
  "seed_at s i = ((\<lambda>sd. snd (myrand_next (snd (myrand_next sd)))) ^^ i) (c_seed s)"

definition cmd_at :: "client_env \<Rightarrow> client \<Rightarrow> nat \<Rightarrow> command_dummy" where
  "cmd_at env s i = command_new (ce_sha env) (ce_junk env (of_nat i)) (c_cid s) (of_nat i)
     (ce_zipf env (fst (myrand_next (seed_at s i)) mod 10000000)) 2 (- 1) (- 1) (- 1)"

definition hash_at :: "client_env \<Rightarrow> client \<Rightarrow> nat \<Rightarrow> u256" where
  "hash_at env s i = cd_hash (cmd_at env s i)"

definition answers :: "finality list \<Rightarrow> u256 \<Rightarrow> nat" where
  "answers fs h = length (filter (\<lambda>f. f_cmd_hash f = h) fs)"

lemma answers_simps [simp]:
  "answers [] h = 0" "answers (fs @ [f]) h = answers fs h + (if f_cmd_hash f = h then 1 else 0)"
  by (simp_all add: answers_def)

lemma seed_at_Suc: "seed_at s (Suc i) = snd (myrand_next (snd (myrand_next (seed_at s i))))"
  by (simp add: seed_at_def)

text \<open>The state of a client that has to send \<open>k\<close> commands after it has sent \<open>n\<close> of them.\<close>

definition client_at :: "client_env \<Rightarrow> client \<Rightarrow> nat \<Rightarrow> nat \<Rightarrow> nat \<Rightarrow> (u256 \<times> request) list \<Rightarrow> client" where
  "client_at env s0 k n e w = s0\<lparr>c_cnt := of_nat n, max_iter_num := int k - int n, c_seed := seed_at s0 n, waiting := w, c_elapsed := e,
     c_sent := concat (map (\<lambda>i. map (\<lambda>r. (r, cmd_at env s0 i)) (c_conns s0)) [0..<n])\<rparr>"

text \<open>The window after the responses \<open>fs\<close>: outstanding are those commands that have not got enough responses.\<close>

definition window_inv :: "client_env \<Rightarrow> client \<Rightarrow> nat \<Rightarrow> finality list \<Rightarrow> nat \<Rightarrow> nat \<Rightarrow> (u256 \<times> request) list \<Rightarrow> bool" where
  "window_inv env s0 k fs n e w \<longleftrightarrow> n \<le> k \<and> n = e + length w \<and> length w \<le> max_async_num s0 \<and>
     distinct (map fst w) \<and> set (map fst w) \<subseteq> hash_at env s0 ` {..<n} \<and>
     (\<forall>h r. (h, r) \<in> set w \<longrightarrow> confirmed r \<le> responses_ignored s0 \<and> confirmed r \<le> answers fs h) \<and>
     (\<forall>i < n. hash_at env s0 i \<notin> set (map fst w) \<longrightarrow> responses_ignored s0 < answers fs (hash_at env s0 i))"

text \<open>A run of \<open>k\<close> commands: commands of different numbers have different hashes.\<close>

definition client_start :: "client_env \<Rightarrow> client \<Rightarrow> nat \<Rightarrow> bool" where
  "client_start env s0 k \<longleftrightarrow> reconfig_client s0 = 0 \<and> max_iter_num s0 = int k \<and> c_cnt s0 = 0 \<and> waiting s0 = [] \<and> c_elapsed s0 = 0 \<and>
     c_sent s0 = [] \<and> inj_on (hash_at env s0) {..<k}"

lemma client_start_at: "client_start env s0 k \<Longrightarrow> s0 = client_at env s0 k 0 0 []"
  by (simp add: client_start_def client_at_def seed_at_def)

lemma try_send_step:
  assumes "client_start env s0 k" and "n < k" and "length w < max_async_num s0" and "hash_at env s0 n \<notin> set (map fst w)"
  shows "try_send env True (client_at env s0 k n e w) =
    (True, client_at env s0 k (Suc n) e (w @ [(hash_at env s0 n, \<lparr>rq_cmd = cmd_at env s0 n, confirmed = 0\<rparr>)]))"
proof -
  have "map_of w (hash_at env s0 n) = None" using assms(4) by (simp add: map_of_eq_None_iff)
  then show ?thesis
    using assms(1-3)
    by (simp add: client_start_def client_at_def try_send_def issue_def split_def Let_def hash_at_def cmd_at_def seed_at_Suc)
qed

lemma try_send_stop:
  assumes "n = k \<or> max_async_num s0 \<le> length w"
  shows "try_send env True (client_at env s0 k n e w) = (False, client_at env s0 k n e w)"
  using assms by (auto simp: client_at_def try_send_def)

text \<open>The loop of \<open>main\<close> and of the handler ends and fills the window.\<close>

lemma send_all_fills:
  assumes start: "client_start env s0 k" and "window_inv env s0 k fs n e w"
  shows "\<exists>m v. send_all env (client_at env s0 k n e w) = Some (client_at env s0 k m e v) \<and> window_inv env s0 k fs m e v \<and>
    (m = k \<or> length v = max_async_num s0)"
  using assms(2)
proof (induction "k - n" arbitrary: n w rule: less_induct)
  case less
  show ?case
  proof (cases "n = k \<or> max_async_num s0 \<le> length w")
    case True
    then have "send_all env (client_at env s0 k n e w) = Some (client_at env s0 k n e w)"
      by (subst send_all.simps) (simp add: try_send_stop)
    then show ?thesis using True less.prems by (auto simp: window_inv_def)
  next
    case False
    have w: "n < k" "length w < max_async_num s0" "set (map fst w) \<subseteq> hash_at env s0 ` {..<n}"
      using False less.prems by (auto simp: window_inv_def)
    have inj: "inj_on (hash_at env s0) {..<k}" using start by (simp add: client_start_def)
    have new: "hash_at env s0 n \<notin> set (map fst w)"
    proof
      assume "hash_at env s0 n \<in> set (map fst w)"
      then obtain i where "i < n" "hash_at env s0 n = hash_at env s0 i" using w(3) by auto
      then show False using inj_onD [OF inj, of n i] w(1) by simp
    qed
    let ?w = "w @ [(hash_at env s0 n, \<lparr>rq_cmd = cmd_at env s0 n, confirmed = 0\<rparr>)]"
    have "window_inv env s0 k fs (Suc n) e ?w"
      using less.prems w new by (auto simp: window_inv_def less_Suc_eq)
    then show ?thesis
      using less.hyps [of "Suc n" ?w] w(1) try_send_step [OF start w(1,2) new] by (subst send_all.simps) simp
  qed
qed

section \<open>Responses\<close>

lemma confirm_keys [simp]: "map fst (confirm h w) = map fst w" "length (confirm h w) = length w"
  by (induction w) (auto simp: confirm_def)

lemma confirm_mem: "(j, r) \<in> set (confirm h w) \<Longrightarrow>
    \<exists>q. (j, q) \<in> set w \<and> confirmed r = confirmed q + (if j = h then 1 else 0)"
  by (auto simp: confirm_def split: if_splits)

lemma erase_keys: "set (map fst (erase h w)) = set (map fst w) - {h}" "distinct (map fst w) \<Longrightarrow> distinct (map fst (erase h w))"
  by (auto simp: erase_def distinct_map inj_on_def image_iff split: prod.splits)

lemma length_erase: "distinct (map fst w) \<Longrightarrow> h \<in> set (map fst w) \<Longrightarrow> length w = Suc (length (erase h w))"
proof (induction w)
  case (Cons x w)
  have "erase h w = w" if "h \<notin> set (map fst w)" using that by (force simp: erase_def filter_id_conv)
  then show ?case using Cons by (cases "fst x = h") (auto simp: erase_def split_def)
qed simp

lemma client_at_upd [simp]:
  "waiting (client_at env s0 k n e w) = w" "responses_ignored (client_at env s0 k n e w) = responses_ignored s0"
  "(client_at env s0 k n e w)\<lparr>waiting := v\<rparr> = client_at env s0 k n e v"
  "(client_at env s0 k n e w)\<lparr>c_elapsed := d\<rparr> = client_at env s0 k n d w"
  "c_elapsed (client_at env s0 k n e w) = e" "c_cnt (client_at env s0 k n e w) = of_nat n"
  "c_sent (client_at env s0 k n e w) = concat (map (\<lambda>i. map (\<lambda>r. (r, cmd_at env s0 i)) (c_conns s0)) [0..<n])"
  by (simp_all add: client_at_def responses_ignored_def)

lemma window_confirm:
  assumes "window_inv env s0 k fs n e w" and "\<And>r. (f_cmd_hash f, r) \<in> set w \<Longrightarrow> confirmed r + 1 \<le> responses_ignored s0"
  shows "window_inv env s0 k (fs @ [f]) n e (confirm (f_cmd_hash f) w)"
proof -
  have "confirmed r \<le> responses_ignored s0 \<and> confirmed r \<le> answers (fs @ [f]) j" if "(j, r) \<in> set (confirm (f_cmd_hash f) w)" for j r
    using that
  proof -
    assume mem: "(j, r) \<in> set (confirm (f_cmd_hash f) w)"
    obtain q where q: "(j, q) \<in> set w" "confirmed r = confirmed q + (if j = f_cmd_hash f then 1 else 0)" using confirm_mem [OF mem] by blast
    then have "confirmed q \<le> responses_ignored s0" "confirmed q \<le> answers fs j" using assms(1) unfolding window_inv_def by blast+
    then show ?thesis using q assms(2) [of q] by auto
  qed
  then show ?thesis using assms(1) unfolding window_inv_def confirm_keys by (auto intro: less_le_trans)
qed

lemma window_erase:
  assumes inv: "window_inv env s0 k fs n e w" and r: "(f_cmd_hash f, r) \<in> set w" "responses_ignored s0 \<le> confirmed r"
  shows "window_inv env s0 k (fs @ [f]) n (Suc e) (erase (f_cmd_hash f) w)"
proof -
  have w: "distinct (map fst w)" "f_cmd_hash f \<in> set (map fst w)" "confirmed r \<le> answers fs (f_cmd_hash f)"
    using inv r by (force simp: window_inv_def)+
  have len: "length w = Suc (length (erase (f_cmd_hash f) w))" by (rule length_erase [OF w(1,2)])
  have "\<forall>j q. (j, q) \<in> set (erase (f_cmd_hash f) w) \<longrightarrow> confirmed q \<le> responses_ignored s0 \<and> confirmed q \<le> answers (fs @ [f]) j"
    using inv by (auto simp: window_inv_def erase_def)
  moreover have "responses_ignored s0 < answers (fs @ [f]) (hash_at env s0 i)"
    if i: "i < n" "hash_at env s0 i \<notin> set (map fst (erase (f_cmd_hash f) w))" for i
  proof (cases "hash_at env s0 i = f_cmd_hash f")
    case True
    then show ?thesis using r(2) w(3) by simp
  next
    case False
    then have "responses_ignored s0 < answers fs (hash_at env s0 i)" using inv i unfolding erase_keys(1) window_inv_def by blast
    then show ?thesis by simp
  qed
  ultimately show ?thesis using inv len erase_keys(2) [OF w(1)] unfolding window_inv_def erase_keys(1) by auto
qed

lemma handler_fills:
  assumes start: "client_start env s0 k" and inv: "window_inv env s0 k fs n e w" and full: "n = k \<or> length w = max_async_num s0"
  shows "\<exists>m d v. client_resp_cmd_handler env f (client_at env s0 k n e w) = Some (client_at env s0 k m d v) \<and>
    window_inv env s0 k (fs @ [f]) m d v \<and> (m = k \<or> length v = max_async_num s0)"
proof -
  have d: "distinct (map fst w)" using inv by (simp add: window_inv_def)
  show ?thesis
  proof (cases "map_of w (f_cmd_hash f)")
    case None
    then have "f_cmd_hash f \<notin> set (map fst w)" by (simp add: map_of_eq_None_iff)
    then have "confirm (f_cmd_hash f) w = w" by (force simp: confirm_def intro: map_idI)
    moreover have "window_inv env s0 k (fs @ [f]) n e (confirm (f_cmd_hash f) w)"
      by (rule window_confirm [OF inv]) (use \<open>f_cmd_hash f \<notin> set (map fst w)\<close> in force)
    ultimately show ?thesis using None full by (auto simp: client_resp_cmd_handler_def)
  next
    case (Some r)
    then have r: "(f_cmd_hash f, r) \<in> set w" "\<And>q. (f_cmd_hash f, q) \<in> set w \<Longrightarrow> q = r"
      using map_of_SomeD d by (fastforce dest: map_of_is_SomeI [OF d])+
    show ?thesis
    proof (cases "confirmed r + 1 \<le> responses_ignored s0")
      case True
      have "window_inv env s0 k (fs @ [f]) n e (confirm (f_cmd_hash f) w)" by (rule window_confirm [OF inv]) (use r(2) True in blast)
      moreover have "client_resp_cmd_handler env f (client_at env s0 k n e w) = Some (client_at env s0 k n e (confirm (f_cmd_hash f) w))"
        using Some True by (simp add: client_resp_cmd_handler_def)
      ultimately show ?thesis using full confirm_keys(2) by metis
    next
      case False
      have "window_inv env s0 k (fs @ [f]) n (Suc e) (erase (f_cmd_hash f) w)" by (rule window_erase [OF inv r(1)]) (use False in simp)
      from send_all_fills [OF start this] show ?thesis using Some False by (auto simp: client_resp_cmd_handler_def)
    qed
  qed
qed

lemma client_resps_fills:
  assumes start: "client_start env s0 k" and "window_inv env s0 k gs n e w" and "n = k \<or> length w = max_async_num s0"
  shows "\<exists>m d v. client_resps env fs (client_at env s0 k n e w) = Some (client_at env s0 k m d v) \<and>
    window_inv env s0 k (gs @ fs) m d v \<and> (m = k \<or> length v = max_async_num s0)"
  using assms(2,3)
proof (induction fs arbitrary: gs n e w)
  case Nil
  then show ?case by auto
next
  case (Cons f fs)
  from handler_fills [OF start Cons.prems, of f] obtain m d v where
    h: "client_resp_cmd_handler env f (client_at env s0 k n e w) = Some (client_at env s0 k m d v)"
      "window_inv env s0 k (gs @ [f]) m d v" "m = k \<or> length v = max_async_num s0" by blast
  from Cons.IH [OF h(2,3)] show ?case using h(1) by simp
qed

text \<open>The client keeps as many commands outstanding as it may.\<close>

lemma client_main_window:
  assumes "client_start env s0 k"
  shows "\<exists>n e w. client_main env fs s0 = Some (client_at env s0 k n e w) \<and> window_inv env s0 k fs n e w \<and>
    length w = min (max_async_num s0) (k - e)"
proof -
  have "window_inv env s0 k [] 0 0 []" by (simp add: window_inv_def)
  from send_all_fills [OF assms this] obtain m v where
    m: "send_all env s0 = Some (client_at env s0 k m 0 v)" "window_inv env s0 k [] m 0 v" "m = k \<or> length v = max_async_num s0"
    using client_start_at [OF assms] by auto
  from client_resps_fills [OF assms m(2,3), of fs] obtain n e w where
    n: "client_resps env fs (client_at env s0 k m 0 v) = Some (client_at env s0 k n e w)" "window_inv env s0 k fs n e w"
      "n = k \<or> length w = max_async_num s0" by auto
  have "length w = min (max_async_num s0) (k - e)" using n(2,3) by (auto simp: window_inv_def)
  then show ?thesis using m(1) n by (auto simp: client_main_def)
qed

end
