(* ===== verification/App_Properties.thy ===== *)
theory App_Properties
  imports App_Setup Client "HOL-Library.Multiset"
begin

text \<open>Properties of the client and of the set-up of the replica program.\<close>

section \<open>The client\<close>





section \<open>The number of clusters\<close>

text \<open>The client counts in unsigned integers, with the same result.\<close>

lemma count_clusters_client:
  assumes "\<forall>v \<in> set vs. 0 \<le> v \<and> v < 2 ^ 31" and "0 \<le> n" and "n < 2 ^ 31"
  shows "count_clusters vs (of_int n) = of_int (app_count_clusters vs n)"
  using assms
proof (induction vs arbitrary: n)
  case (Cons v vs)
  have "(of_int v :: u32) > of_int n \<longleftrightarrow> v > n"
    using Cons.prems by (simp add: word_less_def take_bit_int_eq_self unsigned_of_int)
  then show ?case using Cons.IH [of n] Cons.IH [of "n + 1"] Cons.prems by auto
qed simp

text \<open>The count is right however the hash table orders the table \<open>cm\<close>.\<close>

definition count_right :: "int list \<Rightarrow> int \<Rightarrow> bool" where
  "count_right cm M \<longleftrightarrow> (\<forall>order. mset order = mset cm \<longrightarrow> app_count_clusters order 0 = M + 1)"

text \<open>(C37) The program counts the clusters in the order in which the hash table lists the replicas. The count is right in every
  order exactly if the cluster with the highest number \<open>M\<close> has at least \<open>M\<close> replicas; else some order gives too small a number.\<close>

theorem cluster_count_exact:
  assumes "\<forall>v \<in> set cm. v \<le> M" and "0 \<le> M"
  shows "count_right cm M \<longleftrightarrow> M \<le> int (count_list cm M)"
  unfolding count_right_def
proof
  assume right: "\<forall>order. mset order = mset cm \<longrightarrow> app_count_clusters order 0 = M + 1"
  show "M \<le> int (count_list cm M)"
  proof (rule ccontr)
    assume "\<not> M \<le> int (count_list cm M)"
    moreover have "count_list (rev (sort cm)) M = count_list cm M" by (rule mset_eq_length_filter) simp
    ultimately have "app_count_clusters (rev (sort cm)) 0 < M + 1" by (intro app_count_descending) (use assms(1) in simp_all)
    moreover have "app_count_clusters (rev (sort cm)) 0 = M + 1" using right by simp
    ultimately show False by simp
  qed
next
  assume enough: "M \<le> int (count_list cm M)"
  show "\<forall>order. mset order = mset cm \<longrightarrow> app_count_clusters order 0 = M + 1"
  proof (intro allI impI)
    fix order assume o: "mset order = mset cm"
    have "count_list order M = count_list cm M" by (rule mset_eq_length_filter [OF o])
    then show "app_count_clusters order 0 = M + 1"
      by (intro app_count_reaches) (use assms enough mset_eq_setD [OF o] in simp_all)
  qed
qed

theorem cluster_count_exact_witness: "\<not> count_right [0, 1, 2] 2 \<and> count_right [0, 0, 1, 1, 2, 2] 2"
  using cluster_count_exact [of "[0, 1, 2]" 2] cluster_count_exact [of "[0, 0, 1, 1, 2, 2]" 2] by simp

section \<open>The index in the own cluster\<close>

text \<open>(C38) From well-formed replica lines the program takes all replicas in order, those of the own cluster and those of the others.
  The number it gives itself in its cluster is its distance from the first replica of the cluster in the list, which is its position among the
  replicas of the cluster exactly if no replica of another cluster stands between them.\<close>

theorem cluster_index_exact:
  assumes "list_all2 (\<lambda>l r. replica_info_of l = Some (Inr r)) ls rs" and "n < length rs"
    and "own cm (int n) f" and "\<And>i. i < f \<Longrightarrow> \<not> own cm (int n) i"
  shows "\<exists>st. setup_loop cm (int n) ls setup_new = Some (Inr st) \<and> su_all st = rs \<and>
    su_replicas st = map ((!) rs) (filter (own cm (int n)) [0..<length rs]) \<and>
    su_other st = map ((!) rs) (filter (\<lambda>i. \<not> own cm (int n) i) [0..<length rs]) \<and> cluster_idx st = n - f \<and>
    (cluster_idx st = length (filter (own cm (int n)) [0..<n]) \<longleftrightarrow> (\<forall>j. f \<le> j \<and> j < n \<longrightarrow> own cm (int n) j))"
proof -
  have "own cm (int n) n" by (simp add: own_def)
  then have f: "f \<le> n" using assms(4) by (meson not_le)
  have "setup_loop cm (int n) ls setup_new = Some (Inr (setup_at cm (int n) rs))"
    using setup_loop_at [OF assms(1), of cm "int n" "[]"] setup_new_at [of cm "int n"] by simp
  then show ?thesis
    using since_first [of "own cm (int n)" f n] filter_from_first [of "own cm (int n)" f n] assms(2-4) f
    by (simp add: setup_at_def picked_def)
qed

text \<open>Three replicas, the middle one in another cluster: the third one counts itself as the third of its cluster of two.\<close>

theorem cluster_index_exact_witness:
  "\<exists>st. setup_loop [0, 1, 0] 2 (map info_text [(''a'', ''b'', ''c''), (''d'', ''e'', ''f''), (''g'', ''h'', ''i'')]) setup_new = Some (Inr st) \<and>
    su_replicas st = [(''a'', ''b'', ''c''), (''g'', ''h'', ''i'')] \<and> cluster_idx st = 2"
proof -
  let ?rs = "[(''a'', ''b'', ''c''), (''d'', ''e'', ''f''), (''g'', ''h'', ''i'')]"
  have "list_all2 (\<lambda>l r. replica_info_of l = Some (Inr r)) (map info_text ?rs) ?rs"
    by (simp add: replica_info_of_text info_ok_def trimmed_def is_space_def)
  from cluster_index_exact [OF this, of 2 "[0, 1, 0]" 0] show ?thesis
    by (auto simp: own_def cluster_of_def upt_rec)
qed

section \<open>The configuration file\<close>

text \<open>(C39) The replicas written into the configuration file as lines of three fields are the replicas of the program: loading the
  file succeeds, the option \<^verbatim>\<open>replica\<close> holds the lines in order, and every line is taken apart into its fields. Fields have no commas and no
  blanks at their ends, and lines fit the buffer.\<close>

theorem replicas_from_file:
  assumes "add_opts app_opts conf_new = Inr (c :: 'd :: numeral config)" and "fs name = Some (map replica_line rs)"
    and "\<forall>r \<in> set rs. info_ok r \<and> length (replica_line r) < buff_size - 1"
  shows "\<exists>c' ls. load fs stod name c = Some (Inr (True, c')) \<and> optval (opts c' ! 4) = OptValStrVec ls \<and>
    (\<exists>st. setup_loop cm idx ls setup_new = Some (Inr st) \<and> su_all st = rs)"
proof -
  obtain d :: "'d config" where d: "add_opts app_opts conf_new = Inr d" "map_of (conf_table d) ''replica'' = Some 4"
    "4 < length (opts d)" "opts d ! 4 = \<lparr>optname = ''replica'', optval = OptValStrVec [], action = APPEND, short_opt = Some CHR ''a''\<rparr>"
    by (rule app_opts_table)
  have "d = c" using d(1) assms(1) by simp
  then have "load_lines fs stod (map replica_line rs) c =
      Some (Inr (c\<lparr>opts := (opts c)[4 := (opts c ! 4)\<lparr>optval := OptValStrVec ([] @ map info_text rs)\<rparr>]\<rparr>))"
    by (intro load_replica_lines) (use d assms(3) in simp_all)
  moreover have "list_all2 (\<lambda>l r. replica_info_of l = Some (Inr r)) (map info_text rs) rs"
    using assms(3) by (induction rs) (simp_all add: replica_info_of_text)
  from setup_loop_at [OF this, of cm idx "[]"] have "setup_loop cm idx (map info_text rs) setup_new = Some (Inr (setup_at cm idx rs))"
    using setup_new_at [of cm idx] by simp
  ultimately show ?thesis using assms(2) d(3) \<open>d = c\<close> by (auto simp: load_def setup_at_def)
qed

theorem replicas_from_file_witness:
  "\<exists>c c' ls. add_opts app_opts conf_new = Inr (c :: int config) \<and>
    load (\<lambda>_. Some (map replica_line [(''a'', ''b'', ''c'')])) (\<lambda>_. Inl InvalidArgument) ''hotstuff.gen.conf'' c = Some (Inr (True, c')) \<and>
    optval (opts c' ! 4) = OptValStrVec ls \<and> (\<exists>st. setup_loop [0] 0 ls setup_new = Some (Inr st) \<and> su_all st = [(''a'', ''b'', ''c'')])"
proof -
  obtain c :: "int config" where c: "add_opts app_opts conf_new = Inr c" by (rule app_opts_table)
  have "\<forall>r \<in> set [(''a'', ''b'', ''c'')]. info_ok r \<and> length (replica_line r) < buff_size - 1"
    by (simp add: info_ok_def trimmed_def is_space_def replica_line_def info_text_def buff_size_def)
  from replicas_from_file [OF c _ this, of "\<lambda>_. Some (map replica_line [(''a'', ''b'', ''c'')])" "''hotstuff.gen.conf''"] c
  show ?thesis by fastforce
qed

text \<open>A letter belongs to the first option that asks for it: \<^verbatim>\<open>-c\<close> loads a file instead of setting the client port, \<^verbatim>\<open>-t\<close> and \<^verbatim>\<open>-S\<close>
  reach only the first of two options.\<close>

lemma short_options_shadowed:
  "\<exists>c :: int config. add_opts app_opts conf_new = Inr c \<and> map (map_of (conf_table c)) [''c'', ''t'', ''S''] = [Some 0, Some 12, Some 21] \<and>
    map optname (map ((!) (opts c)) [0, 6, 12, 13, 21, 22]) =
      [''conf'', ''cport'', ''base-timeout'', ''prop-delay'', ''max-rep-msg'', ''max-cli-msg'']"
  by (simp add: app_opts_def conf_new_def add_opt_def Let_def)

end
