(* ===== verification/Spec2Isabelle.thy ===== *)
theory Spec2Isabelle
  imports Format_Properties Replica_Properties Liveness_Properties Store_Properties Network_Properties Peer_Properties
    App_Properties
begin

text \<open>
  A verification library for a multi-cluster HotStuff replica: the C++ library under \<^verbatim>\<open>src/src\<close> and
  \<^verbatim>\<open>src/include/hotstuff\<close>, the streams and the network layer of \<^verbatim>\<open>src/salticidae\<close>, and the replica and client programs of
  \<^verbatim>\<open>src/examples\<close>.

  \<^bold>\<open>The program.\<close> Replicas of one cluster agree on a chain of blocks of client commands by the chained HotStuff
  protocol: a proposer extends the branch of the highest certified block, replicas vote for a proposal
  under a locking rule, a majority of votes makes a certificate that the next proposal carries, and a
  block with three certificates in a row is committed. Clusters exchange their committed blocks and execute a height
  when every cluster has been heard. \<open>HotStuffCore\<close> (\<^verbatim>\<open>consensus.cpp\<close>) is the protocol state machine,
  \<open>HotStuffBase\<close> (\<^verbatim>\<open>hotstuff.cpp\<close>) adds networking, block fetching, inter-cluster messages, remote view change,
  reconfiguration and the client queue, the pace maker (\<^verbatim>\<open>liveness.h\<close>) decides when and on which parent
  to propose, \<^verbatim>\<open>crypto.h\<close> has the certificates, \<^verbatim>\<open>entity.h\<close> the blocks and their storage, and
  \<^verbatim>\<open>promise.hpp\<close> the promises that connect everything. Replicas talk over \<open>PeerNetwork\<close> (\<^verbatim>\<open>network.h\<close>), which keeps one connection
  per pair of peers; \<^verbatim>\<open>hotstuff_app.cpp\<close> reads the configuration, starts a replica and serves clients
  (\<^verbatim>\<open>hotstuff_client.cpp\<close>), which count the answers to their commands.

  \<^bold>\<open>Modelling.\<close> A member function is a program over the object state that returns a result or an exception and
  keeps the state reached when it raises (\<open>prog\<close> in \<open>Prelude\<close>, with a weakest-precondition calculus).
  Machine integers are words. Blocks are named by their hashes, a block pointer is a key of the
  storage. Virtual functions and promise callbacks of the core are a table (\<open>vtable\<close>) that \<open>HotStuff_Base\<close>
  fills; since votes for oneself and beats re-enter the core, the table is built with a bound on the
  depth of re-entrance (\<open>base_vt\<close>), and every safety theorem holds for every bound. Undefined behaviour, failed
  assertions and the exhausted bound are errors that end a run; other exceptions end the handling of one
  event, as in \<^verbatim>\<open>network.h\<close>. The curve library, SHA-256, uninitialised memory and the iteration order of
  hash tables are parameters (\<open>secp\<close>, \<open>env\<close>).

  \<^bold>\<open>Theories.\<close>
  \<^item> \<open>Prelude\<close>: integers, errors, programs, generic lemmas.
  \<^item> \<open>Data_Stream\<close>, \<open>Blob_Bits\<close>: \<open>DataStream\<close>, \<open>Blob\<close>, \<open>_Bits\<close> of \<^verbatim>\<open>stream.h\<close>.
  \<^item> \<open>Certificates\<close>: partial and quorum certificates (\<^verbatim>\<open>crypto.h\<close>, \<^verbatim>\<open>crypto.cpp\<close>); \<open>Entities\<close>: replica
    configuration, blocks, \<open>EntityStorage\<close>; \<open>Messages\<close>: the message formats.
  \<^item> \<open>Consensus_Core\<close>: \<open>HotStuffCore\<close>. \<open>Block_Tree\<close>, \<open>Core_Invariant\<close>, \<open>Core_Safety\<close>: ancestry, the invariant of
    the core, the contract \<open>core_host\<close> with the callbacks as a locale, and that every operation keeps the invariant.
  \<^item> \<open>Replica_State\<close>, \<open>Pace_Maker\<close>, \<open>HotStuff_Base\<close>, \<open>Handlers\<close>, \<open>Delivery\<close>, \<open>Replica\<close>: the replica and its
    transition system; \<open>HotStuff_Base\<close> interprets \<open>core_host\<close> on the real callbacks. \<open>Replica_Safety\<close>: the invariant
    in every reachable configuration.
  \<^item> \<open>Agreement\<close>: from the logs of votes of the correct replicas to one committed chain.
  \<^item> \<open>Inter_Cluster\<close>: counting of messages of other clusters; \<open>Execution\<close>: the commands a commit executes.
  \<^item> \<open>Round_Robin\<close>: the alternative pace maker \<open>PMRoundRobinProposer\<close> as a machine over timer, proposal, certificate
    and commit events, with the contract of the replica as the locale \<open>pm_host\<close>.
  \<^item> \<open>Scenario\<close>: a one-replica cluster for concrete evaluations.
  \<^item> \<open>Hash_Table\<close>: \<open>CTSL::HashMap\<close> over an explicit heap of nodes, with the interface \<open>kv_store\<close> as a locale;
    \<open>Database\<close>: \<open>InMemoryDB\<close> and the abstract database it refines.
  \<^item> \<open>Queue\<close>, \<open>Event_Queue\<close>: the queue of \<^verbatim>\<open>queue.h\<close> over an explicit heap of blocks and its event-driven wrapper;
    \<open>Framing\<close>: \<open>SegBuffer\<close> and \<open>MsgBase\<close>; \<open>Connection\<close>: reading and writing of one connection, with the contract of the
    queue as the locale \<open>msg_sink\<close>; \<open>Channel\<close>: sender, network and receiver composed.
  \<^item> \<open>Peer_Network\<close>: \<open>PeerNetwork\<close> and \<open>ClientNetwork\<close> of \<^verbatim>\<open>network.h\<close>: handshake, heartbeats, reconnection and the life of
    connections as a transition system of the dispatcher.
  \<^item> \<open>Config_Text\<close>: strings, options and configuration files (\<^verbatim>\<open>util.cpp\<close>); \<open>App_Setup\<close>: the replica program
    \<^verbatim>\<open>hotstuff_app.cpp\<close>; \<open>Client\<close>: the client program \<^verbatim>\<open>hotstuff_client.cpp\<close>.
  \<^item> \<open>Format_Properties\<close>, \<open>Safety_Properties\<close>, \<open>Core_Properties\<close>, \<open>Replica_Properties\<close>, \<open>Liveness_Properties\<close>,
    \<open>Store_Properties\<close>, \<open>Network_Properties\<close>, \<open>Peer_Properties\<close>, \<open>App_Properties\<close>: the properties.

  \<^bold>\<open>Fuel.\<close> The loops that walk up a branch get one more step than the starting height; heights drop by one
  per step, so this is enough (\<open>walk_correct\<close>). The re-entrance bound is arbitrary.

  \<^bold>\<open>Not modelled.\<close> Opening and closing of sockets, TLS, threads and event loops of salticidae (queue operations and
  calls of the dispatcher run one at a time), the durations of timers, logging and statistics with clocks, random keys, the command line and the timers of the programs, pruning of old blocks (never called, it depends on reference counts),
  the vendored containers (\<^verbatim>\<open>phmap.h\<close>, \<^verbatim>\<open>btree.h\<close>) and the elliptic-curve library.
\<close>

end
